(* ===== verification/Prelude.thy ===== *)
theory Prelude
  imports "HOL-Library.Word" "HOL-Library.AList" "HOL-Library.Multiset"
begin

text \<open>
  Shared vocabulary of the development: the fixed-width integer types of the C++ code, the
  model of \<^verbatim>\<open>std::unordered_map<int, T>\<close>, the result type of operations that may throw, and
  the generic lemmas that the component theories use.

  A C++ \<^verbatim>\<open>int\<close> (a key, a node id, a count) is a \<^typ>\<open>32 word\<close> read through \<^const>\<open>sint\<close>; the
  unsigned types are words of their width. An \<^verbatim>\<open>unordered_map\<close> is an association list with
  distinct keys; the order of the list stands for the iteration order of the container, which
  C++ leaves unspecified, so the properties are stated over \<^const>\<open>map_of\<close> or for every order.
\<close>

unbundle bit_operations_syntax

type_synonym u8 = "8 word"
type_synonym u32 = "32 word"
type_synonym u64 = "64 word"
type_synonym cint = "32 word"
type_synonym key = cint
type_synonym node_id = cint
type_synonym endpoint = string
type_synonym 'v int_map = "(cint \<times> 'v) list"

abbreviation lookup :: "'v int_map \<Rightarrow> cint \<rightharpoonup> 'v" where
  "lookup m k \<equiv> map_of m k"

definition wf_map :: "'v int_map \<Rightarrow> bool" where
  "wf_map m \<longleftrightarrow> distinct (map fst m)"

text \<open>Exceptions of the library calls that the code catches or lets through.\<close>

datatype exn =
    interprocess_exception string
  | bad_alloc string
  | filesystem_error string
  | rpc_error string
  | out_of_range string
  | invalid_argument string
  | runtime_error string

fun what :: "exn \<Rightarrow> string" where
  "what (interprocess_exception s) = s"
| "what (bad_alloc s) = s"
| "what (filesystem_error s) = s"
| "what (rpc_error s) = s"
| "what (out_of_range s) = s"
| "what (invalid_argument s) = s"
| "what (runtime_error s) = s"

text \<open>A computation that may throw, and what follows it.\<close>

definition and_then :: "exn + 'a \<Rightarrow> ('a \<Rightarrow> exn + 'b) \<Rightarrow> exn + 'b" where
  "and_then r f = (case r of Inl e \<Rightarrow> Inl e | Inr x \<Rightarrow> f x)"

lemma and_then_simps [simp]: "and_then (Inl e) f = Inl e" "and_then (Inr x) f = f x"
  by (simp_all add: and_then_def)

lemma and_then_Inr_iff: "and_then r f = Inr y \<longleftrightarrow> (\<exists>x. r = Inr x \<and> f x = Inr y)"
  by (cases r) simp_all

text \<open>A function that may throw on each element of a list, in order.\<close>

fun map_throw :: "('a \<Rightarrow> exn + 'b) \<Rightarrow> 'a list \<Rightarrow> exn + 'b list" where
  "map_throw f [] = Inr []"
| "map_throw f (x # xs) = and_then (f x) (\<lambda>y. and_then (map_throw f xs) (\<lambda>ys. Inr (y # ys)))"

named_theorems model_defs \<open>definitions of operations, unfolded by the functional lemmas\<close>
named_theorems map_simps \<open>the behaviour of the container operations over \<open>map_of\<close>\<close>

subsection \<open>Container lemmas\<close>

lemma wf_map_Nil [simp]: "wf_map []"
  by (simp add: wf_map_def)

lemma wf_map_update [simp]: "wf_map m \<Longrightarrow> wf_map (AList.update k v m)"
  by (simp add: wf_map_def distinct_update)

lemma wf_map_delete [simp]: "wf_map m \<Longrightarrow> wf_map (AList.delete k m)"
  by (simp add: wf_map_def distinct_delete)

lemma lookup_update [map_simps]: "lookup (AList.update k v m) = (lookup m)(k \<mapsto> v)"
  by (auto simp: update_conv')

lemma lookup_delete [map_simps]: "lookup (AList.delete k m) = (lookup m)(k := None)"
  by (auto simp: delete_conv')

lemma fst_delete [simp]: "fst ` set (AList.delete k m) = fst ` set m - {k}"
  by (induction m) auto

lemma length_update_new: "lookup m k = None \<Longrightarrow> length (AList.update k v m) = Suc (length m)"
  by (induction m) (auto split: if_splits)

lemma map_of_perm:
  assumes "wf_map m" "mset m = mset m'"
  shows "map_of m = map_of m'"
proof -
  have "set m = set m'" using assms(2) by (metis set_mset_mset)
  moreover have "mset (map fst m) = mset (map fst m')" using assms(2) by simp
  then have "distinct (map fst m')"
    using assms(1) unfolding wf_map_def by (metis mset_eq_imp_distinct_iff)
  ultimately show ?thesis
    using assms(1) by (simp add: wf_map_def map_of_inject_set)
qed

lemma mset_eq_imp_distinct:
  "mset xs = mset ys \<Longrightarrow> distinct xs \<Longrightarrow> distinct ys"
  by (metis mset_eq_imp_distinct_iff)

subsection \<open>List lemmas\<close>

lemma find_Some_in: "find P xs = Some x \<Longrightarrow> x \<in> set xs \<and> P x"
  by (auto simp: find_Some_iff in_set_conv_nth)

lemma find_append: "find P (xs @ ys) = (case find P xs of None \<Rightarrow> find P ys | Some x \<Rightarrow> Some x)"
  by (induction xs) auto

lemma find_filter: "find P (filter Q xs) = find (\<lambda>x. Q x \<and> P x) xs"
  by (induction xs) auto

lemma takeWhile_idem_all: "(\<forall>x \<in> set xs. P x) \<Longrightarrow> takeWhile P xs = xs"
  by (simp add: takeWhile_eq_all_conv)

subsection \<open>Strings\<close>

text \<open>\<^verbatim>\<open>std::string::starts_with\<close>\<close>

definition starts_with :: "string \<Rightarrow> string \<Rightarrow> bool" where
  "starts_with p s \<longleftrightarrow> take (length p) s = p"

end
