(* ===== verification/Decimal.thy ===== *)
theory Decimal
  imports Prelude
begin

text \<open>
  The decimal conversions of the C++ standard library that the program relies on:
  \<^verbatim>\<open>std::to_string(int)\<close> (keys and node ids are hashed as their decimal text),
  \<^verbatim>\<open>std::stoi\<close> (keys and ports typed by the user) and the \<^verbatim>\<open>>>\<close> and \<^verbatim>\<open><<\<close> operators on
  \<^verbatim>\<open>uint32_t\<close> (the generation file). Lemmas: \<^verbatim>\<open>to_string\<close> is injective and parses back.
\<close>

definition digit_char :: "nat \<Rightarrow> char" where
  "digit_char d = char_of (48 + d)"

definition digit_val :: "char \<Rightarrow> nat" where
  "digit_val c = of_char c - 48"

definition is_digit :: "char \<Rightarrow> bool" where
  "is_digit c \<longleftrightarrow> 48 \<le> (of_char c :: nat) \<and> (of_char c :: nat) \<le> 57"

text \<open>The whitespace of the C locale: space, tab, newline, vertical tab, form feed, return.\<close>

definition is_space :: "char \<Rightarrow> bool" where
  "is_space c \<longleftrightarrow> (let n = (of_char c :: nat) in n = 32 \<or> (9 \<le> n \<and> n \<le> 13))"

text \<open>\<^verbatim>\<open>::toupper\<close> and \<^verbatim>\<open>::tolower\<close> in the C locale.\<close>

definition upcase :: "char \<Rightarrow> char" where
  "upcase c = (let n = (of_char c :: nat) in if 97 \<le> n \<and> n \<le> 122 then char_of (n - 32) else c)"

definition downcase :: "char \<Rightarrow> char" where
  "downcase c = (let n = (of_char c :: nat) in if 65 \<le> n \<and> n \<le> 90 then char_of (n + 32) else c)"

text \<open>The decimal digits of a number that is not negative.\<close>

function dec_string :: "int \<Rightarrow> string" where
  "dec_string n =
     (if n < 10 then [digit_char (nat n)] else dec_string (n div 10) @ [digit_char (nat (n mod 10))])"
  by pat_completeness auto
termination
  by (relation "measure nat") auto

declare dec_string.simps [simp del]

definition int_string :: "int \<Rightarrow> string" where
  "int_string i = (if i < 0 then CHR ''-'' # dec_string (- i) else dec_string i)"

definition to_string :: "cint \<Rightarrow> string" where
  "to_string k = int_string (sint k)"

definition u32_string :: "u32 \<Rightarrow> string" where
  "u32_string g = dec_string (uint g)"

subsection \<open>Reading numbers\<close>

definition digits_value :: "string \<Rightarrow> int" where
  "digits_value s = foldl (\<lambda>n c. 10 * n + int (digit_val c)) 0 s"

text \<open>The text after leading whitespace, split into its sign and the longest run of digits.\<close>

definition scan_number :: "string \<Rightarrow> bool \<times> string" where
  "scan_number s =
     (case dropWhile is_space s of
        [] \<Rightarrow> (False, [])
      | c # cs \<Rightarrow>
          if c = CHR ''-'' then (True, takeWhile is_digit cs)
          else if c = CHR ''+'' then (False, takeWhile is_digit cs)
          else (False, takeWhile is_digit (c # cs)))"

definition scanned_int :: "bool \<times> string \<Rightarrow> int" where
  "scanned_int p = (let n = digits_value (snd p) in if fst p then - n else n)"

text \<open>\<^verbatim>\<open>std::stoi\<close> throws when there is no digit and when the value is no \<^verbatim>\<open>int\<close>.\<close>

definition stoi :: "string \<Rightarrow> exn + cint" where
  "stoi s =
     (let p = scan_number s in
      if snd p = [] then Inl (invalid_argument ''stoi'')
      else (let i = scanned_int p in
            if i < - (2 ^ 31) \<or> 2 ^ 31 \<le> i then Inl (out_of_range ''stoi'')
            else Inr (word_of_int i)))"

text \<open>
  \<^verbatim>\<open>istream >> uint32_t\<close>: 0 when there is no number, the largest value when the number does not
  fit, and the two's complement of a negative one.
\<close>

definition extract_u32 :: "string \<Rightarrow> u32" where
  "extract_u32 s =
     (let p = scan_number s in
      if snd p = [] then 0
      else if 2 ^ 32 \<le> digits_value (snd p) then - 1
      else word_of_int (scanned_int p))"

subsection \<open>Digits\<close>

lemma of_char_digit_char: "d < 10 \<Longrightarrow> (of_char (digit_char d) :: nat) = 48 + d"
  by (simp add: digit_char_def)

lemma is_digit_digit_char [simp]: "d < 10 \<Longrightarrow> is_digit (digit_char d)"
  by (simp add: is_digit_def of_char_digit_char)

lemma digit_val_digit_char [simp]: "d < 10 \<Longrightarrow> digit_val (digit_char d) = d"
  by (simp add: digit_val_def of_char_digit_char)

lemma dec_string_digits: "0 \<le> n \<Longrightarrow> c \<in> set (dec_string n) \<Longrightarrow> is_digit c"
proof (induction n rule: dec_string.induct)
  case (1 n)
  then show ?case by (subst (asm) (2) dec_string.simps) (auto split: if_splits)
qed

lemma dec_string_nonempty [simp]: "dec_string n \<noteq> []"
  by (subst dec_string.simps) simp

lemma digits_value_snoc: "digits_value (s @ [c]) = 10 * digits_value s + int (digit_val c)"
  by (simp add: digits_value_def)

lemma digits_value_dec_string [simp]: "0 \<le> n \<Longrightarrow> digits_value (dec_string n) = n"
proof (induction n rule: dec_string.induct)
  case (1 n)
  show ?case
  proof (cases "n < 10")
    case True
    then show ?thesis using 1 by (subst dec_string.simps) (simp add: digits_value_def)
  next
    case False
    then show ?thesis using 1 by (subst dec_string.simps) (simp add: digits_value_snoc)
  qed
qed

lemma takeWhile_dec_string [simp]: "0 \<le> n \<Longrightarrow> takeWhile is_digit (dec_string n) = dec_string n"
  by (simp add: takeWhile_eq_all_conv dec_string_digits)

lemma not_space_digit: "is_digit c \<Longrightarrow> \<not> is_space c"
  by (auto simp: is_digit_def is_space_def Let_def)

lemma dec_string_Cons: "0 \<le> n \<Longrightarrow> dec_string n = c # cs \<Longrightarrow> is_digit c"
  using dec_string_digits [of n c] by simp

lemma sign_not_digit [simp]: "\<not> is_digit (CHR ''-'')" "\<not> is_digit (CHR ''+'')"
  by code_simp+

lemma scan_dec_string [simp]: "0 \<le> n \<Longrightarrow> scan_number (dec_string n) = (False, dec_string n)"
proof (cases "dec_string n")
  case (Cons c cs)
  assume n: "0 \<le> n"
  then have d: "is_digit c" using Cons by (rule dec_string_Cons)
  then have "c \<noteq> CHR ''-''" "c \<noteq> CHR ''+''" by auto
  moreover have "takeWhile is_digit (c # cs) = c # cs"
    using takeWhile_dec_string [OF n] Cons by simp
  ultimately show ?thesis
    using Cons not_space_digit [OF d] by (simp add: scan_number_def)
qed simp

lemma scan_minus [simp]: "0 \<le> n \<Longrightarrow> scan_number (CHR ''-'' # dec_string n) = (True, dec_string n)"
proof -
  assume "0 \<le> n"
  moreover have "\<not> is_space (CHR ''-'')" by code_simp
  ultimately show ?thesis by (simp add: scan_number_def dec_string_digits)
qed

subsection \<open>Round trips\<close>

lemma scanned_int_string: "scanned_int (scan_number (int_string i)) = i"
  by (simp add: int_string_def scanned_int_def Let_def)

lemma int_string_inj: "int_string i = int_string j \<Longrightarrow> i = j"
  by (metis scanned_int_string)

lemma to_string_inj [simp]: "to_string j = to_string k \<longleftrightarrow> j = k"
  by (metis to_string_def int_string_inj signed_word_eqI)

text \<open>
  Any key the program prints reads back as the same key.
\<close>

lemma stoi_to_string [simp]: "stoi (to_string k) = Inr k"
proof -
  have ne: "snd (scan_number (int_string (sint k))) \<noteq> []"
    by (simp add: int_string_def)
  have "- (2 ^ 31) \<le> sint k" "sint k < 2 ^ 31"
    using sint_greater_eq [of k] sint_lt [of k] by simp_all
  then show ?thesis
    by (simp add: stoi_def Let_def to_string_def ne scanned_int_string)
qed

lemma extract_u32_string [simp]: "extract_u32 (u32_string g) = g"
proof -
  have "uint g < 2 ^ 32" using uint_lt2p [of g] by simp
  then show ?thesis
    by (simp add: extract_u32_def u32_string_def scanned_int_def Let_def not_le)
qed

end
