(* ===== verification/MurmurProps.thy ===== *)
theory MurmurProps
  imports Murmur
begin

text \<open>
  The properties of the hash functions of \<^verbatim>\<open>Murmur\<close>: explicit inverses of the finalisers and of
  the block mixers, the fold over the blocks that the index-based loop computes, and from these
  the collision freedom inside one block that the ring relies on for short decimal keys.
\<close>

subsection \<open>Rotations and xor-shifts are invertible\<close>

lemma rotl32_inverse:
  assumes "0 < r" "r < 32"
  shows "rotl32 (rotl32 x r) (32 - r) = x"
proof (rule bit_word_eqI)
  fix n assume n: "n < LENGTH(32)"
  show "bit (rotl32 (rotl32 x r) (32 - r)) n = bit x n"
    using assms n bit_imp_le_length [of x]
    by (auto simp: rotl32_def bit_simps)
qed

lemma rotl64_inverse:
  assumes "0 < r" "r < 64"
  shows "rotl64 (rotl64 x r) (64 - r) = x"
proof (rule bit_word_eqI)
  fix n assume n: "n < LENGTH(64)"
  show "bit (rotl64 (rotl64 x r) (64 - r)) n = bit x n"
    using assms n bit_imp_le_length [of x]
    by (auto simp: rotl64_def bit_simps)
qed

lemma rotl32_inj: "0 < r \<Longrightarrow> r < 32 \<Longrightarrow> rotl32 x r = rotl32 y r \<longleftrightarrow> x = y"
  by (metis rotl32_inverse)

lemma drop_bit_32_ge: "32 \<le> n \<Longrightarrow> drop_bit n (h :: u32) = 0"
  by (rule bit_word_eqI) (auto simp: bit_simps dest: bit_imp_le_length)

lemma drop_bit_64_ge: "64 \<le> n \<Longrightarrow> drop_bit n (h :: u64) = 0"
  by (rule bit_word_eqI) (auto simp: bit_simps dest: bit_imp_le_length)

lemma xorshift_16: "(h XOR drop_bit 16 h) XOR drop_bit 16 (h XOR drop_bit 16 h) = (h :: u32)"
  by (simp add: drop_bit_32_ge ac_simps)

lemma xorshift_13:
  fixes h :: u32
  defines "g \<equiv> h XOR drop_bit 13 h"
  shows "g XOR drop_bit 13 g XOR drop_bit 26 g = h"
  by (simp add: g_def drop_bit_32_ge ac_simps)

lemma xorshift_13':
  fixes g :: u32
  defines "h \<equiv> g XOR drop_bit 13 g XOR drop_bit 26 g"
  shows "h XOR drop_bit 13 h = g"
  by (simp add: h_def drop_bit_32_ge ac_simps)

lemma xorshift_33: "(h XOR drop_bit 33 h) XOR drop_bit 33 (h XOR drop_bit 33 h) = (h :: u64)"
  by (simp add: drop_bit_64_ge ac_simps)

lemma mult_cancel_inverse: "c * d = (1 :: 'a::len word) \<Longrightarrow> x * c * d = x"
  by (simp add: mult.assoc)

lemma mult_inverse_inj: "c * d = (1 :: 'a::len word) \<Longrightarrow> x * c = y * c \<longleftrightarrow> x = y"
  by (metis mult_cancel_inverse)

subsection \<open>The finalisers are bijections\<close>

text \<open>The multiplicative inverses of the constants, modulo the word size.\<close>

definition unfmix32 :: "u32 \<Rightarrow> u32" where
  "unfmix32 h0 =
     (let h1 = h0 XOR drop_bit 16 h0;
          h2 = h1 * 0x7ed1b41d;
          h3 = h2 XOR drop_bit 13 h2 XOR drop_bit 26 h2;
          h4 = h3 * 0xa5cb9243;
          h5 = h4 XOR drop_bit 16 h4
      in h5)"

definition unfmix64 :: "u64 \<Rightarrow> u64" where
  "unfmix64 h0 =
     (let h1 = h0 XOR drop_bit 33 h0;
          h2 = h1 * 0x9cb4b2f8129337db;
          h3 = h2 XOR drop_bit 33 h2;
          h4 = h3 * 0x4f74430c22a54005;
          h5 = h4 XOR drop_bit 33 h4
      in h5)"

lemma fmix_consts:
  "(0x85ebca6b :: u32) * 0xa5cb9243 = 1" "(0xc2b2ae35 :: u32) * 0x7ed1b41d = 1"
  "(0xa5cb9243 :: u32) * 0x85ebca6b = 1" "(0x7ed1b41d :: u32) * 0xc2b2ae35 = 1"
  "(0xff51afd7ed558ccd :: u64) * 0x4f74430c22a54005 = 1"
  "(0xc4ceb9fe1a85ec53 :: u64) * 0x9cb4b2f8129337db = 1"
  "(0x4f74430c22a54005 :: u64) * 0xff51afd7ed558ccd = 1"
  "(0x9cb4b2f8129337db :: u64) * 0xc4ceb9fe1a85ec53 = 1"
  by simp_all

lemma unfmix32_fmix32 [simp]: "unfmix32 (fmix32 h) = h"
  unfolding fmix32_def unfmix32_def Let_def
  by (simp only: xorshift_16 xorshift_13 mult_cancel_inverse fmix_consts)

lemma fmix32_unfmix32 [simp]: "fmix32 (unfmix32 h) = h"
  unfolding fmix32_def unfmix32_def Let_def
  by (simp only: xorshift_16 xorshift_13' mult_cancel_inverse fmix_consts)

lemma unfmix64_fmix64 [simp]: "unfmix64 (fmix64 h) = h"
  unfolding fmix64_def unfmix64_def Let_def
  by (simp only: xorshift_33 mult_cancel_inverse fmix_consts)

lemma fmix64_unfmix64 [simp]: "fmix64 (unfmix64 h) = h"
  unfolding fmix64_def unfmix64_def Let_def
  by (simp only: xorshift_33 mult_cancel_inverse fmix_consts)

lemma fmix32_inj [simp]: "fmix32 x = fmix32 y \<longleftrightarrow> x = y"
  by (metis unfmix32_fmix32)

lemma xor_left_inj [simp]: "(a :: 'a::len word) XOR x = a XOR y \<longleftrightarrow> x = y"
  by (metis xor.assoc xor.left_neutral xor_self_eq)

lemma xor_right_inj [simp]: "(x :: 'a::len word) XOR a = y XOR a \<longleftrightarrow> x = y"
  by (metis xor_left_inj xor.commute)

lemma block_consts:
  "(0xcc9e2d51 :: u32) * 0xdee13bb1 = 1" "(0x1b873593 :: u32) * 0x56ed309b = 1"
  "(5 :: u32) * 0xcccccccd = 1"
  by simp_all

lemmas block_mults = block_consts [THEN mult_inverse_inj]

lemma mix_k1_inj [simp]: "mix_k1 x = mix_k1 y \<longleftrightarrow> x = y"
  by (simp add: mix_k1_def block_mults rotl32_inj)

lemma mix_h1_inj_k [simp]: "mix_h1 h k = mix_h1 h k' \<longleftrightarrow> k = k'"
  by (simp add: mix_h1_def block_mults rotl32_inj)

lemma mix_h1_inj_h [simp]: "mix_h1 h k = mix_h1 h' k \<longleftrightarrow> h = h'"
  by (simp add: mix_h1_def block_mults rotl32_inj)

lemma foldl_mix_h1_inj [simp]: "foldl mix_h1 h ks = foldl mix_h1 h' ks \<longleftrightarrow> h = h'"
  by (induction ks arbitrary: h h') auto

subsection \<open>The hash as a fold over the blocks\<close>

definition le32 :: "u8 \<Rightarrow> u8 \<Rightarrow> u8 \<Rightarrow> u8 \<Rightarrow> u32" where
  "le32 a b c d = ucast a OR push_bit 8 (ucast b) OR push_bit 16 (ucast c) OR push_bit 24 (ucast d)"

fun blocks_of :: "u8 list \<Rightarrow> u32 list" where
  "blocks_of (a # b # c # d # xs) = le32 a b c d # blocks_of xs"
| "blocks_of xs = []"

fun rest_of :: "u8 list \<Rightarrow> u8 list" where
  "rest_of (a # b # c # d # xs) = rest_of xs"
| "rest_of xs = xs"

fun tail_word :: "u8 list \<Rightarrow> u32" where
  "tail_word (a # b # c # xs) = push_bit 16 (ucast c) XOR push_bit 8 (ucast b) XOR ucast a"
| "tail_word [a, b] = push_bit 8 (ucast b) XOR ucast a"
| "tail_word [a] = ucast a"
| "tail_word [] = 0"

definition absorb :: "u32 \<Rightarrow> u8 list \<Rightarrow> u32" where
  "absorb h rest = (if rest = [] then h else h XOR mix_k1 (tail_word rest))"

definition murmur_spec :: "u8 list \<Rightarrow> u32 \<Rightarrow> u32" where
  "murmur_spec bs seed =
     fmix32 (absorb (foldl mix_h1 seed (blocks_of bs)) (rest_of bs) XOR of_nat (length bs))"

lemma length4_cases:
  assumes "length xs = 4 * Suc m"
  obtains a b c d ys where "xs = a # b # c # d # ys" "length ys = 4 * m"
proof -
  from assms have "length xs = Suc (Suc (Suc (Suc (4 * m))))" by simp
  then obtain a b c d ys where "xs = a # b # c # d # ys" "length ys = 4 * m"
    by (auto simp only: length_Suc_conv)
  with that show thesis by blast
qed

lemma length_4: "length xs = 4 \<Longrightarrow> \<exists>a b c d. xs = [a, b, c, d]"
  by (rule length4_cases [of xs 0]) auto

lemma blocks_of_append:
  "length xs = 4 * m \<Longrightarrow> blocks_of (xs @ ys) = blocks_of xs @ blocks_of ys
     \<and> rest_of (xs @ ys) = rest_of ys \<and> rest_of xs = []"
proof (induction m arbitrary: xs)
  case (Suc m)
  from length4_cases [OF Suc.prems] obtain a b c d zs
    where "xs = a # b # c # d # zs" "length zs = 4 * m" by blast
  with Suc.IH show ?case by simp
qed simp

lemma short_blocks: "length ys < 4 \<Longrightarrow> blocks_of ys = [] \<and> rest_of ys = ys"
  by (cases ys rule: blocks_of.cases) auto

lemma body_x86_32_fold:
  "length xs = 4 * m \<Longrightarrow>
   body_x86_32 (pre @ xs @ post) (int (length pre + 4 * m)) m h = foldl mix_h1 h (blocks_of xs)"
proof (induction m arbitrary: pre xs h)
  case (Suc m)
  from length4_cases [OF Suc.prems] obtain a b c d ys
    where xs: "xs = a # b # c # d # ys" and len: "length ys = 4 * m" by blast
  let ?p = "int (length pre + 4 * Suc m)"
  have off: "nat (?p + 4 * (- int (Suc m))) = length pre" by simp
  have blk: "getblock32 (pre @ xs @ post) ?p (- int (Suc m)) = le32 a b c d"
    unfolding getblock32_def off Let_def by (simp add: xs le32_def nth_append)
  have "body_x86_32 ((pre @ [a, b, c, d]) @ ys @ post) (int (length (pre @ [a, b, c, d]) + 4 * m)) m
          (mix_h1 h (le32 a b c d)) = foldl mix_h1 (mix_h1 h (le32 a b c d)) (blocks_of ys)"
    by (rule Suc.IH [OF len])
  moreover have "int (length (pre @ [a, b, c, d]) + 4 * m) = ?p" by simp
  ultimately show ?case by (simp only: body_x86_32.simps blk) (simp add: xs)
qed simp

lemma tail_x86_32_absorb:
  "length ys < 4 \<Longrightarrow> tail_x86_32 (pre @ ys @ post) (length pre) (length ys) h = absorb h ys"
  by (cases ys rule: tail_word.cases)
    (auto simp: tail_x86_32_def absorb_def nth_append Let_def xor.assoc)

text \<open>
  The index-based loop and tail compute the fold over the little-endian blocks, and read nothing
  behind the \<open>len\<close> bytes they are given: whatever follows the key in memory has no effect.
\<close>

lemma MurmurHash3_x86_32_spec:
  "MurmurHash3_x86_32 (bs @ post) (length bs) seed = murmur_spec bs seed"
proof -
  define n where "n = length bs div 4"
  define xs ys where "xs = take (4 * n) bs" and "ys = drop (4 * n) bs"
  have bs: "bs = xs @ ys" and buf: "bs @ post = xs @ ys @ post" by (simp_all add: xs_def ys_def)
  have lx: "length xs = 4 * n" by (simp add: xs_def n_def)
  have ly: "length ys = length bs mod 4" by (simp add: ys_def n_def minus_mult_div_eq_mod)
  then have ly4: "length ys < 4" by simp
  have "body_x86_32 (bs @ post) (int (n * 4)) n seed = foldl mix_h1 seed (blocks_of xs)"
    using body_x86_32_fold [OF lx, of "[]" "ys @ post" seed] by (simp add: buf mult.commute)
  moreover have "tail_x86_32 (bs @ post) (n * 4) (length bs mod 4) h = absorb h ys" for h
    using tail_x86_32_absorb [OF ly4, of xs post h]
    by (simp only: buf lx ly mult.commute [of n])
  moreover have "blocks_of bs = blocks_of xs" "rest_of bs = ys"
    using blocks_of_append [OF lx, of ys] short_blocks [OF ly4] by (simp_all add: bs)
  ultimately show ?thesis
    unfolding MurmurHash3_x86_32_def murmur_spec_def Let_def n_def [symmetric] by (simp only:)
qed

lemma murmur3_32_spec: "murmur3_32 bs (length bs) seed = murmur_spec bs seed"
  using MurmurHash3_x86_32_spec [of bs "[]"] by (simp add: murmur3_32_def)

subsection \<open>No collisions inside one block\<close>

lemma le32_bytes:
  "ucast (le32 a b c d) = a" "ucast (drop_bit 8 (le32 a b c d)) = b"
  "ucast (drop_bit 16 (le32 a b c d)) = c" "ucast (drop_bit 24 (le32 a b c d)) = d"
  by (rule bit_word_eqI; auto simp: le32_def bit_simps dest: bit_imp_le_length)+

lemma le32_inj: "le32 a b c d = le32 a' b' c' d' \<longleftrightarrow> a = a' \<and> b = b' \<and> c = c' \<and> d = d'"
  by (metis le32_bytes)

lemma le32_xor: "le32 a b c 0 = push_bit 16 (ucast c) XOR push_bit 8 (ucast b) XOR ucast a"
  by (rule bit_word_eqI) (auto simp: le32_def bit_simps dest: bit_imp_le_length)

lemma tail_word_le32:
  "tail_word [a, b, c] = le32 a b c 0" "tail_word [a, b] = le32 a b 0 0"
  "tail_word [a] = le32 a 0 0 0"
  using le32_xor [of a b c] le32_xor [of a b 0] le32_xor [of a 0 0] by simp_all

lemma tail_word_inj:
  assumes "length ys = length ys'" "length ys < 4" "tail_word ys = tail_word ys'"
  shows "ys = ys'"
proof -
  have "length ys = 0 \<or> length ys = 1 \<or> length ys = 2 \<or> length ys = 3" using assms(2) by arith
  with assms(1,3) show ?thesis
    by (auto simp: length_Suc_conv numeral_3_eq_3 numeral_2_eq_2 tail_word_le32 le32_inj
        simp del: tail_word.simps)
qed

lemma murmur_spec_block_change:
  assumes pre: "length pre mod 4 = 0" and len: "length ys = length ys'" and le: "length ys \<le> 4"
    and fits: "length ys = 4 \<or> post = []" and eq: "murmur_spec (pre @ ys @ post) seed = murmur_spec (pre @ ys' @ post) seed"
  shows "ys = ys'"
proof -
  obtain m where m: "length pre = 4 * m" using pre by auto
  note app = blocks_of_append [OF m]
  show ?thesis
  proof (cases "length ys = 4")
    case True
    with len obtain a b c d a' b' c' d' where y: "ys = [a, b, c, d]" "ys' = [a', b', c', d']"
      by (metis length_4)
    from eq have "le32 a b c d = le32 a' b' c' d'"
      by (auto simp: murmur_spec_def app y absorb_def split: if_splits)
    then show ?thesis by (simp add: y le32_inj)
  next
    case False
    with fits le have "post = []" and lt: "length ys < 4" by auto
    then have "absorb h ys = absorb h ys' \<Longrightarrow> ys = ys'" for h
      using len tail_word_inj [OF len] by (auto simp: absorb_def split: if_splits)
    moreover have "length ys' < 4" using lt len by simp
    ultimately show ?thesis
      using eq len \<open>post = []\<close> by (simp add: murmur_spec_def app short_blocks lt)
  qed
qed

subsection \<open>Reads stay inside the key\<close>

definition agree :: "nat \<Rightarrow> u8 list \<Rightarrow> u8 list \<Rightarrow> bool" where
  "agree n xs ys \<longleftrightarrow> (\<forall>i < n. xs ! i = ys ! i)"

lemma agree_at: "agree n xs ys \<Longrightarrow> i < n \<Longrightarrow> xs ! i = ys ! i"
  by (simp add: agree_def)

lemma getblock32_agree:
  "agree n xs ys \<Longrightarrow> nat (p + 4 * i) + 3 < n \<Longrightarrow> getblock32 xs p i = getblock32 ys p i"
  by (simp add: getblock32_def agree_at Let_def)

lemma getblock64_agree:
  "agree n xs ys \<Longrightarrow> nat (p + 8 * i) + 7 < n \<Longrightarrow> getblock64 xs p i = getblock64 ys p i"
  by (simp add: getblock64_def agree_at Let_def)

lemma body_x86_32_agree:
  "agree n xs ys \<Longrightarrow> 4 * m \<le> q \<Longrightarrow> q \<le> n \<Longrightarrow> body_x86_32 xs (int q) m h = body_x86_32 ys (int q) m h"
  by (induction m arbitrary: h) (simp_all add: getblock32_agree)

lemma body_x86_128_agree:
  "agree n xs ys \<Longrightarrow> 16 * m \<le> q \<Longrightarrow> q \<le> n \<Longrightarrow> body_x86_128 xs (int q) m h = body_x86_128 ys (int q) m h"
proof (induction m arbitrary: h)
  case (Suc m)
  have "getblock32 xs (int q) (- int (Suc m) * 4 + j) = getblock32 ys (int q) (- int (Suc m) * 4 + j)"
    if "0 \<le> j" "j \<le> 3" for j
    using Suc.prems that by (intro getblock32_agree [OF Suc.prems(1)]) (simp add: nat_less_iff)
  from this [of 0] this [of 1] this [of 2] this [of 3] Suc show ?case by simp
qed simp

lemma body_x64_128_agree:
  "agree n xs ys \<Longrightarrow> 16 * (i + m) \<le> n \<Longrightarrow> body_x64_128 xs i m h = body_x64_128 ys i m h"
proof (induction m arbitrary: i h)
  case (Suc m)
  have "getblock64 xs 0 (int i * 2 + j) = getblock64 ys 0 (int i * 2 + j)" if "0 \<le> j" "j \<le> 1" for j
    using Suc.prems that by (intro getblock64_agree [OF Suc.prems(1)]) (simp add: nat_less_iff)
  from this [of 0] this [of 1] Suc show ?case by simp
qed simp

lemma tail_agree:
  assumes "agree n xs ys" "t + r \<le> n"
  shows "tail_x86_32 xs t r h = tail_x86_32 ys t r h"
    and "tail_x86_128 xs t r k = tail_x86_128 ys t r k"
    and "tail_x64_128 xs t r l = tail_x64_128 ys t r l"
proof -
  have at: "j < r \<Longrightarrow> xs ! (t + j) = ys ! (t + j)" for j
    using assms by (simp add: agree_at)
  note ats = at [of 0] at [of 1] at [of 2] at [of 3] at [of 4] at [of 5] at [of 6] at [of 7]
    at [of 8] at [of 9] at [of 10] at [of 11] at [of 12] at [of 13] at [of 14]
  show "tail_x86_32 xs t r h = tail_x86_32 ys t r h"
    using ats by (simp add: tail_x86_32_def Let_def cong: if_cong)
  show "tail_x86_128 xs t r k = tail_x86_128 ys t r k"
    using ats by (simp add: tail_x86_128_def Let_def case_prod_beta cong: if_cong)
  show "tail_x64_128 xs t r l = tail_x64_128 ys t r l"
    using ats by (simp add: tail_x64_128_def Let_def case_prod_beta cong: if_cong)
qed

end
