(* ===== verification/HashRing.thy ===== *)
theory HashRing
  imports MurmurProps
begin

text \<open>
  \<^verbatim>\<open>src/ConsistentHashRing.cpp\<close> and its header: tokens, their order (the comparator of
  \<^verbatim>\<open>stable_sort\<close>, as an instance of \<^verbatim>\<open>linorder\<close>), \<^verbatim>\<open>rebuild\<close>, the lookups of the primary and the
  buddy of a key, and the two listings of key ranges. An iterator into \<^verbatim>\<open>ring_\<close> is an index.
\<close>

subsection \<open>Tokens\<close>

datatype Token = Token (tok_position: u32) (tok_node_id: node_id)

definition token_less :: "Token \<Rightarrow> Token \<Rightarrow> bool" where
  "token_less a b =
     (if tok_position a \<noteq> tok_position b then tok_position a < tok_position b
      else tok_node_id a <s tok_node_id b)"

lemma token_less_alt:
  "token_less a b \<longleftrightarrow> tok_position a < tok_position b
     \<or> tok_position a = tok_position b \<and> sint (tok_node_id a) < sint (tok_node_id b)"
  by (auto simp: token_less_def word_sless_alt)

instantiation Token :: linorder
begin

definition less_Token :: "Token \<Rightarrow> Token \<Rightarrow> bool" where
  "less_Token a b = token_less a b"

definition less_eq_Token :: "Token \<Rightarrow> Token \<Rightarrow> bool" where
  "less_eq_Token a b = (a = b \<or> token_less a b)"

instance
proof
  fix x y z :: Token
  have ext: "x = y" if "tok_position x = tok_position y" "sint (tok_node_id x) = sint (tok_node_id y)" for x y
    using that by (metis Token.expand signed_word_eqI)
  show "(x < y) = (x \<le> y \<and> \<not> y \<le> x)" and "x \<le> x"
    by (auto simp: less_Token_def less_eq_Token_def token_less_alt)
  show "x \<le> y \<Longrightarrow> y \<le> z \<Longrightarrow> x \<le> z" and "x \<le> y \<Longrightarrow> y \<le> x \<Longrightarrow> x = y"
    by (auto simp: less_eq_Token_def token_less_alt)
  show "x \<le> y \<or> y \<le> x"
    by (metis less_eq_Token_def token_less_alt ext linorder_less_linear)
qed

end

lemma token_le_alt:
  "a \<le> b \<longleftrightarrow> tok_position a < tok_position b
     \<or> tok_position a = tok_position b \<and> sint (tok_node_id a) \<le> sint (tok_node_id b)"
  by (auto simp: less_eq_Token_def token_less_alt)
    (metis Token.expand signed_word_eqI order_le_less)

lemma token_le_position: "a \<le> b \<Longrightarrow> tok_position a \<le> tok_position b"
  by (auto simp: token_le_alt)

subsection \<open>The ring\<close>

record ConsistentHashRing =
  ring :: "Token list"
  virtual_nodes_per_node :: cint

text \<open>\<^verbatim>\<open>ConsistentHashRing() = default\<close> leaves the count uninitialised; no method reads it before a rebuild.\<close>

definition empty_ring :: "cint \<Rightarrow> ConsistentHashRing" where
  "empty_ring uninitialised = \<lparr>ring = [], virtual_nodes_per_node = uninitialised\<rparr>"

definition to_u32 :: "string \<Rightarrow> u32" where
  "to_u32 s = murmur3_32 (bytes_of s) (length s) 0"

definition hashNodeId :: "node_id \<Rightarrow> u32" where
  "hashNodeId n = (let s = to_string n in murmur3_32 (bytes_of s) (length s) 0)"

definition hashKey :: "key \<Rightarrow> u32" where
  "hashKey k = (let s = to_string k in murmur3_32 (bytes_of s) (length s) 0)"

definition hashToken :: "string \<Rightarrow> u32" where
  "hashToken token_str = to_u32 token_str"

definition token_interval :: "cint \<Rightarrow> u64" where
  "token_interval vn = (let ring_space = push_bit 32 (1 :: u64) in max 1 (ring_space div scast vn))"

definition token_position :: "cint \<Rightarrow> node_id \<Rightarrow> nat \<Rightarrow> u32" where
  "token_position vn n v = ucast (ucast (hashNodeId n) + (of_nat v :: u64) * token_interval vn)"

definition node_tokens :: "cint \<Rightarrow> node_id \<Rightarrow> Token list" where
  "node_tokens vn n = map (\<lambda>v. Token (token_position vn n v) n) [0..<nat (sint vn)]"

definition rebuild :: "string int_map \<Rightarrow> cint \<Rightarrow> ConsistentHashRing \<Rightarrow> ConsistentHashRing" where
  "rebuild node_endpoints vn r =
     (let r = r\<lparr>virtual_nodes_per_node := vn, ring := []\<rparr> in
      if vn \<le>s 0 then r
      else r\<lparr>ring := sort (concat (map (node_tokens vn) (map fst node_endpoints)))\<rparr>)"

definition new_ring :: "string int_map \<Rightarrow> cint \<Rightarrow> ConsistentHashRing" where
  "new_ring node_endpoints vn = rebuild node_endpoints vn (empty_ring vn)"

definition default_virtual_nodes :: cint where
  "default_virtual_nodes = 2"

subsection \<open>Lookups\<close>

text \<open>\<^verbatim>\<open>std::lower_bound\<close>: the first position whose token is not before the value.\<close>

definition lower_bound :: "Token list \<Rightarrow> u32 \<Rightarrow> nat" where
  "lower_bound ts v = length (takeWhile (\<lambda>t. tok_position t < v) ts)"

definition findToken :: "ConsistentHashRing \<Rightarrow> u32 \<Rightarrow> nat" where
  "findToken r pos = (let it = lower_bound (ring r) pos in if it = length (ring r) then 0 else it)"

definition getPrimaryNode :: "ConsistentHashRing \<Rightarrow> key \<Rightarrow> node_id" where
  "getPrimaryNode r k =
     (if ring r = [] then - 1
      else (let pos = hashKey k; it = findToken r pos in tok_node_id (ring r ! it)))"

text \<open>
  The \<^verbatim>\<open>do ... while(it != start)\<close> loop. The test for valid iterators holds for the calls the code
  makes; it makes the recursion total.
\<close>

function buddy_loop :: "Token list \<Rightarrow> nat \<Rightarrow> nat \<Rightarrow> node_id" where
  "buddy_loop ts start it =
     (let it' = (if Suc it = length ts then 0 else Suc it) in
      if tok_node_id (ts ! it') \<noteq> tok_node_id (ts ! start) then tok_node_id (ts ! it')
      else if it' \<noteq> start \<and> it < length ts \<and> start < length ts
      then buddy_loop ts start it'
      else tok_node_id (ts ! start))"
  by pat_completeness auto
termination
  by (relation "measure (\<lambda>(ts, start, it).
        if it < start then start - it else start + length ts - it)") auto

declare buddy_loop.simps [simp del]

definition getBuddyNode :: "ConsistentHashRing \<Rightarrow> key \<Rightarrow> node_id" where
  "getBuddyNode r k =
     (if ring r = [] then - 1
      else (let pos = hashKey k; it = findToken r pos in buddy_loop (ring r) it it))"

subsection \<open>Key ranges\<close>

record KeyRange =
  range_start :: u32
  range_end :: u32

record KeyRangeAssignment =
  assigned_range :: KeyRange
  primary_node_id :: node_id
  buddy_node_id :: node_id

abbreviation UINT32_MAX :: u32 where
  "UINT32_MAX \<equiv> - 1"

text \<open>The ranges pushed for the token at index \<open>i\<close>, the same in both listings.\<close>

definition token_ranges :: "Token list \<Rightarrow> nat \<Rightarrow> KeyRange list" where
  "token_ranges ts i =
     (let n = length ts;
          cur_pos = tok_position (ts ! i);
          prev_pos = tok_position (ts ! ((i + n - 1) mod n));
          s = prev_pos + 1;
          e = cur_pos + 1
      in if s < e then [\<lparr>range_start = s, range_end = e\<rparr>]
         else if e < s then
           \<lparr>range_start = s, range_end = UINT32_MAX\<rparr>
             # (if 0 < e then [\<lparr>range_start = 0, range_end = e\<rparr>] else [])
         else (if n = 1 then [\<lparr>range_start = 0, range_end = UINT32_MAX\<rparr>] else []))"

text \<open>The inner loop over \<open>j\<close> with its \<^verbatim>\<open>break\<close>.\<close>

definition range_buddy :: "Token list \<Rightarrow> nat \<Rightarrow> node_id" where
  "range_buddy ts i =
     (let n = length ts; primary_id = tok_node_id (ts ! i) in
      case find (\<lambda>j. tok_node_id (ts ! ((i + j) mod n)) \<noteq> primary_id) [1..<n] of
        None \<Rightarrow> primary_id
      | Some j \<Rightarrow> tok_node_id (ts ! ((i + j) mod n)))"

definition token_assignments :: "Token list \<Rightarrow> nat \<Rightarrow> KeyRangeAssignment list" where
  "token_assignments ts i =
     map (\<lambda>kr. \<lparr>assigned_range = kr, primary_node_id = tok_node_id (ts ! i),
                buddy_node_id = range_buddy ts i\<rparr>) (token_ranges ts i)"

definition getKeyRangeAssignments :: "ConsistentHashRing \<Rightarrow> KeyRangeAssignment list" where
  "getKeyRangeAssignments r = concat (map (token_assignments (ring r)) [0..<length (ring r)])"

text \<open>\<^verbatim>\<open>result[node_id].push_back(range)\<close>\<close>

definition push_range :: "node_id \<Rightarrow> KeyRange list int_map \<Rightarrow> KeyRange \<Rightarrow> KeyRange list int_map" where
  "push_range n m kr = AList.update n ((case lookup m n of None \<Rightarrow> [] | Some rs \<Rightarrow> rs) @ [kr]) m"

definition getKeyRanges :: "ConsistentHashRing \<Rightarrow> KeyRange list int_map" where
  "getKeyRanges r =
     foldl (\<lambda>m i. foldl (push_range (tok_node_id (ring r ! i))) m (token_ranges (ring r) i))
       [] [0..<length (ring r)]"

end
