(* ===== verification/HashRingProps.thy ===== *)
theory HashRingProps
  imports HashRing
begin

text \<open>
  The lookups of the ring, restated over the \<^emph>\<open>clockwise walk\<close> from a position: the tokens in the
  order in which one meets them. The primary is the owner of the first token of the walk, the
  buddy the owner of the first token of another node; both the iterator loop of \<^verbatim>\<open>getBuddyNode\<close>
  and the binary search of \<^verbatim>\<open>findToken\<close> reduce to it. For a sorted ring the walk is ordered by
  the clockwise distance, and it commutes with dropping tokens, which gives the behaviour under
  joins and failures.
\<close>

definition clockwise :: "Token list \<Rightarrow> u32 \<Rightarrow> Token list" where
  "clockwise ts h = (let k = lower_bound ts h in drop k ts @ take k ts)"

definition first_other :: "Token list \<Rightarrow> node_id" where
  "first_other w =
     (case find (\<lambda>t. tok_node_id t \<noteq> tok_node_id (hd w)) w of
        None \<Rightarrow> tok_node_id (hd w) | Some t \<Rightarrow> tok_node_id t)"

definition cw :: "u32 \<Rightarrow> Token \<Rightarrow> nat" where
  "cw h t = unat (tok_position t - h)"

definition cw_le :: "u32 \<Rightarrow> Token \<Rightarrow> Token \<Rightarrow> bool" where
  "cw_le h a b \<longleftrightarrow> cw h a < cw h b \<or> cw h a = cw h b \<and> sint (tok_node_id a) \<le> sint (tok_node_id b)"

subsection \<open>The lookups over the walk\<close>

lemma lower_bound_le [simp]: "lower_bound ts h \<le> length ts"
  by (simp add: lower_bound_def length_takeWhile_le)

lemma clockwise_empty [simp]: "clockwise ts h = [] \<longleftrightarrow> ts = []"
  by (auto simp: clockwise_def Let_def)

lemma mset_clockwise [simp]: "mset (clockwise ts h) = mset ts"
  by (metis append_take_drop_id clockwise_def mset_append union_commute)

lemma set_clockwise [simp]: "set (clockwise ts h) = set ts"
  by (metis mset_clockwise set_mset_mset)

lemma findToken_less: "ring r \<noteq> [] \<Longrightarrow> findToken r h < length (ring r)"
  by (auto simp: findToken_def Let_def le_neq_implies_less)

lemma clockwise_findToken:
  assumes "ring r \<noteq> []"
  shows "clockwise (ring r) h = drop (findToken r h) (ring r) @ take (findToken r h) (ring r)"
  by (auto simp: clockwise_def findToken_def Let_def)

lemma hd_clockwise: "ring r \<noteq> [] \<Longrightarrow> hd (clockwise (ring r) h) = ring r ! findToken r h"
  by (frule findToken_less [of r h]) (simp add: clockwise_findToken hd_append hd_drop_conv_nth)

lemma getPrimaryNode_walk:
  "getPrimaryNode r k =
     (if ring r = [] then - 1 else tok_node_id (hd (clockwise (ring r) (hashKey k))))"
  by (simp add: getPrimaryNode_def hd_clockwise)

text \<open>The tokens the loop visits from \<open>it\<close> on, up to and including \<open>start\<close>.\<close>

definition visits :: "Token list \<Rightarrow> nat \<Rightarrow> nat \<Rightarrow> Token list" where
  "visits ts start it =
     (if it < start then drop (Suc it) (take (Suc start) ts) else drop (Suc it) ts @ take (Suc start) ts)"

lemma visits_step:
  assumes "start < length ts" "it < length ts" "it' = (if Suc it = length ts then 0 else Suc it)"
  shows "visits ts start it = ts ! it' # (if it' = start then [] else visits ts start it')"
proof -
  have cons: "drop i xs = xs ! i # drop (Suc i) xs" if "i < length xs" for i and xs :: "Token list"
    using that by (simp add: Cons_nth_drop_Suc)
  consider "Suc it = length ts" | "Suc it < length ts" "it < start" | "Suc it < length ts" "start \<le> it"
    using assms(2) by linarith
  then show ?thesis
  proof cases
    case 1
    then have "visits ts start it = drop 0 (take (Suc start) ts)" "it' = 0"
      using assms by (simp_all add: visits_def)
    then show ?thesis using cons [of 0 "take (Suc start) ts"] assms(1)
      by (auto simp: visits_def)
  next
    case 2
    then show ?thesis using cons [of "Suc it" "take (Suc start) ts"] assms
      by (auto simp: visits_def)
  next
    case 3
    then show ?thesis using cons [of "Suc it" ts] assms
      by (auto simp: visits_def)
  qed
qed

lemma buddy_loop_find:
  "start < length ts \<Longrightarrow> it < length ts \<Longrightarrow>
   buddy_loop ts start it =
     (case find (\<lambda>t. tok_node_id t \<noteq> tok_node_id (ts ! start)) (visits ts start it) of
        None \<Rightarrow> tok_node_id (ts ! start) | Some t \<Rightarrow> tok_node_id t)"
proof (induction ts start it rule: buddy_loop.induct)
  case (1 ts start it)
  define it' where "it' = (if Suc it = length ts then 0 else Suc it)"
  note step = visits_step [OF 1(2,3) it'_def]
  have lt: "it' < length ts" using 1(3) by (auto simp: it'_def)
  show ?case
  proof (cases "tok_node_id (ts ! it') \<noteq> tok_node_id (ts ! start) \<or> it' = start")
    case True
    then show ?thesis
      by (subst buddy_loop.simps) (auto simp: step Let_def it'_def [symmetric])
  next
    case False
    then have "buddy_loop ts start it = buddy_loop ts start it'"
      using 1(2,3) by (subst buddy_loop.simps) (auto simp: Let_def it'_def [symmetric])
    with False 1(1) [OF it'_def] 1(2,3) lt show ?thesis by (simp add: step)
  qed
qed

lemma getBuddyNode_walk:
  "getBuddyNode r k =
     (if ring r = [] then - 1 else first_other (clockwise (ring r) (hashKey k)))"
proof (cases "ring r = []")
  case False
  define s where "s = findToken r (hashKey k)"
  have s: "s < length (ring r)" using False by (simp add: s_def findToken_less)
  let ?w = "clockwise (ring r) (hashKey k)"
  let ?P = "\<lambda>t. tok_node_id t \<noteq> tok_node_id (ring r ! s)"
  have w: "?w = ring r ! s # drop (Suc s) (ring r) @ take s (ring r)"
    using s by (simp add: clockwise_findToken False s_def [symmetric] Cons_nth_drop_Suc [symmetric])
  have v: "visits (ring r) s s = drop (Suc s) (ring r) @ take s (ring r) @ [ring r ! s]"
    using s by (simp add: visits_def take_Suc_conv_app_nth)
  have "find ?P (visits (ring r) s s) = find ?P ?w"
    by (simp add: v w find_append split: option.split)
  then show ?thesis
    using False buddy_loop_find [OF s s]
    by (simp add: getBuddyNode_def Let_def s_def [symmetric] first_other_def w split: option.split)
qed (simp add: getBuddyNode_def)

subsection \<open>The walk over a sorted ring\<close>

lemma takeWhile_sorted:
  "sorted ts \<Longrightarrow> takeWhile (\<lambda>t. tok_position t < h) ts = filter (\<lambda>t. tok_position t < h) ts"
proof (induction ts)
  case (Cons t ts)
  show ?case
  proof (cases "tok_position t < h")
    case False
    with Cons.prems have "\<forall>u \<in> set ts. \<not> tok_position u < h"
      by (fastforce dest: token_le_position)
    with False show ?thesis by (simp add: filter_empty_conv)
  qed (use Cons in simp)
qed simp

lemma dropWhile_sorted:
  "sorted ts \<Longrightarrow> dropWhile (\<lambda>t. tok_position t < h) ts = filter (\<lambda>t. \<not> tok_position t < h) ts"
proof (induction ts)
  case (Cons t ts)
  show ?case
  proof (cases "tok_position t < h")
    case False
    with Cons.prems have "\<forall>u \<in> set ts. \<not> tok_position u < h"
      by (fastforce dest: token_le_position)
    with False show ?thesis by (simp add: filter_id_conv)
  qed (use Cons in simp)
qed simp

lemma clockwise_sorted:
  "sorted ts \<Longrightarrow>
   clockwise ts h = filter (\<lambda>t. \<not> tok_position t < h) ts @ filter (\<lambda>t. tok_position t < h) ts"
  unfolding clockwise_def lower_bound_def Let_def
  by (metis takeWhile_eq_take dropWhile_eq_drop takeWhile_sorted dropWhile_sorted)

lemma clockwise_filter: "sorted ts \<Longrightarrow> clockwise (filter P ts) h = filter P (clockwise ts h)"
  by (simp add: clockwise_sorted sorted_wrt_filter conj_commute)

lemma unat_u32: "unat (h :: u32) < 4294967296"
  using unsigned_less [of h] by simp

lemma cw_ge: "h \<le> tok_position t \<Longrightarrow> cw h t = unat (tok_position t) - unat h"
  by (simp add: cw_def unat_sub)

lemma cw_lt: "tok_position t < h \<Longrightarrow> cw h t = 2 ^ 32 + unat (tok_position t) - unat h"
  by (simp add: cw_def unat_sub_if_size word_le_nat_alt word_less_nat_alt word_size)

lemma cw_le_ge: "a \<le> b \<Longrightarrow> h \<le> tok_position a \<Longrightarrow> cw_le h a b"
  by (auto simp: cw_le_def cw_ge token_le_alt word_less_nat_alt word_le_nat_alt)

lemma cw_le_lt: "a \<le> b \<Longrightarrow> tok_position b < h \<Longrightarrow> cw_le h a b"
  using unat_u32 [of h] token_le_position [of a b]
  by (auto simp: cw_le_def cw_lt token_le_alt word_less_nat_alt word_le_nat_alt)

lemma cw_le_cross: "h \<le> tok_position a \<Longrightarrow> tok_position b < h \<Longrightarrow> cw_le h a b"
  using unat_u32 [of "tok_position a"]
  by (auto simp: cw_le_def cw_lt cw_ge word_less_nat_alt word_le_nat_alt)

lemma clockwise_ordered:
  assumes "sorted ts"
  shows "sorted_wrt (cw_le h) (clockwise ts h)"
proof -
  have "sorted_wrt (cw_le h) (filter P ts)"
    if "\<And>a b. a \<le> b \<Longrightarrow> P a \<Longrightarrow> P b \<Longrightarrow> cw_le h a b" for P
    by (rule sorted_wrt_mono_rel [OF _ sorted_wrt_filter [OF assms]]) (auto intro: that)
  note seg = this
  have "sorted_wrt (cw_le h) (filter (\<lambda>t. \<not> tok_position t < h) ts)"
    by (rule seg) (simp add: cw_le_ge not_less)
  moreover have "sorted_wrt (cw_le h) (filter (\<lambda>t. tok_position t < h) ts)"
    by (rule seg) (simp add: cw_le_lt)
  ultimately show ?thesis
    by (auto simp: clockwise_sorted [OF assms] sorted_wrt_append not_less intro: cw_le_cross)
qed

lemma cw_le_refl [simp]: "cw_le h a a"
  by (simp add: cw_le_def)

lemma cw_le_antisym: "cw_le h a b \<Longrightarrow> cw_le h b a \<Longrightarrow> a = b"
proof -
  assume "cw_le h a b" "cw_le h b a"
  then have c: "cw h a = cw h b" "sint (tok_node_id a) = sint (tok_node_id b)"
    by (auto simp: cw_le_def)
  then have "tok_position a - h = tok_position b - h"
    unfolding cw_def by (simp only: word_unat_eq_iff)
  then have "tok_position a = tok_position b" by simp
  moreover have "tok_node_id a = tok_node_id b" using c(2) by (rule signed_word_eqI)
  ultimately show "a = b" by (rule Token.expand [OF conjI])
qed

text \<open>The first token of the walk is the nearest one clockwise, ties going to the lower node id.\<close>

lemma hd_clockwise_least:
  assumes "sorted ts" "t \<in> set ts"
  shows "cw_le h (hd (clockwise ts h)) t"
proof -
  have ne: "clockwise ts h \<noteq> []" using assms(2) by auto
  then obtain x w where "clockwise ts h = x # w" by (cases "clockwise ts h") auto
  then show ?thesis
    using clockwise_ordered [OF assms(1), of h] assms(2) set_clockwise [of ts h]
    by (auto simp: cw_le_def)
qed

lemma hd_clockwise_in: "ts \<noteq> [] \<Longrightarrow> hd (clockwise ts h) \<in> set ts"
  by (metis clockwise_empty list.set_sel(1) set_clockwise)

lemma hd_clockwise_unique:
  assumes "sorted ts" "t \<in> set ts" "\<And>u. u \<in> set ts \<Longrightarrow> cw_le h t u"
  shows "hd (clockwise ts h) = t"
proof -
  have "ts \<noteq> []" using assms(2) by auto
  then show ?thesis
    using assms hd_clockwise_in hd_clockwise_least cw_le_antisym by metis
qed

lemma hd_clockwise_superset:
  assumes "sorted ts" "sorted ts'" "ts \<noteq> []" "set ts \<subseteq> set ts'"
  shows "hd (clockwise ts' h) = hd (clockwise ts h) \<or> hd (clockwise ts' h) \<in> set ts' - set ts"
proof (cases "hd (clockwise ts' h) \<in> set ts")
  case True
  then have "hd (clockwise ts h) = hd (clockwise ts' h)"
    using assms by (intro hd_clockwise_unique hd_clockwise_least) auto
  then show ?thesis by simp
next
  case False
  have "ts' \<noteq> []" using assms(3,4) by auto
  with False show ?thesis by (simp add: hd_clockwise_in)
qed

subsection \<open>The buddy\<close>

lemma first_other_distinct:
  assumes "t \<in> set w" "tok_node_id t \<noteq> tok_node_id (hd w)"
  shows "first_other w \<noteq> tok_node_id (hd w)"
proof -
  have "find (\<lambda>t. tok_node_id t \<noteq> tok_node_id (hd w)) w \<noteq> None"
    using assms by (auto simp: find_None_iff)
  then show ?thesis by (auto simp: first_other_def dest: find_Some_in split: option.split)
qed

lemma first_other_same:
  "\<forall>t \<in> set w. tok_node_id t = tok_node_id (hd w) \<Longrightarrow> first_other w = tok_node_id (hd w)"
  by (auto simp: first_other_def find_None_iff dest!: find_Some_in split: option.split)

lemma first_other_in:
  "w \<noteq> [] \<Longrightarrow> first_other w \<in> tok_node_id ` set w"
  by (auto simp: first_other_def dest: find_Some_in split: option.split)

lemma hd_filter_find: "find P w = Some t \<Longrightarrow> hd (filter P w) = t"
  by (induction w) (auto split: if_splits)

lemma first_other_filter:
  assumes "t \<in> set w" "tok_node_id t \<noteq> tok_node_id (hd w)"
  shows "first_other w = tok_node_id (hd (filter (\<lambda>t. tok_node_id t \<noteq> tok_node_id (hd w)) w))"
proof -
  obtain u where "find (\<lambda>t. tok_node_id t \<noteq> tok_node_id (hd w)) w = Some u"
    using assms by (metis (mono_tags, lifting) find_None_iff not_None_eq)
  then show ?thesis by (simp add: first_other_def hd_filter_find)
qed

end
