(* ===== verification/RingGuarantees.thy ===== *)
theory RingGuarantees
  imports HashRingProps
begin

text \<open>
  What the ring promises to the rest of the system: its contents after \<^verbatim>\<open>rebuild\<close>, independent
  of the iteration order of the node table; the clockwise owner of a key; the choice of the
  buddy; and what a join, a departure or a crash changes. A ring is always one built by
  \<^verbatim>\<open>rebuild\<close> from a table of nodes.
\<close>

subsection \<open>The tokens of a ring\<close>

lemma sorted_rebuild [simp]: "sorted (ring (rebuild nodes vn r))"
  by (simp add: rebuild_def Let_def)

lemma ring_rebuild:
  "ring (rebuild nodes vn r) =
     (if vn \<le>s 0 then [] else sort (concat (map (\<lambda>p. node_tokens vn (fst p)) nodes)))"
  by (simp add: rebuild_def Let_def o_def)

lemma node_of_tokens [simp]: "t \<in> set (node_tokens vn n) \<Longrightarrow> tok_node_id t = n"
  by (auto simp: node_tokens_def)

lemma set_ring_rebuild:
  "set (ring (rebuild nodes vn r)) =
     (if vn \<le>s 0 then {} else (\<Union>n \<in> fst ` set nodes. set (node_tokens vn n)))"
  by (auto simp: ring_rebuild)

lemma positive_count: "\<not> vn \<le>s 0 \<longleftrightarrow> 0 < sint vn"
  by (simp add: word_sle_eq not_le)

lemma node_tokens_nonempty: "\<not> vn \<le>s 0 \<Longrightarrow> node_tokens vn n \<noteq> []"
  by (simp add: node_tokens_def positive_count)

lemma ring_nodes:
  "\<not> vn \<le>s 0 \<Longrightarrow> tok_node_id ` set (ring (rebuild nodes vn r)) = fst ` set nodes"
proof
  assume vn: "\<not> vn \<le>s 0"
  show "tok_node_id ` set (ring (rebuild nodes vn r)) \<subseteq> fst ` set nodes"
    by (auto simp: set_ring_rebuild dest: node_of_tokens split: if_splits)
  show "fst ` set nodes \<subseteq> tok_node_id ` set (ring (rebuild nodes vn r))"
  proof
    fix n assume n: "n \<in> fst ` set nodes"
    from node_tokens_nonempty [OF vn, of n] obtain t where t: "t \<in> set (node_tokens vn n)"
      by (cases "node_tokens vn n") auto
    with n vn have "t \<in> set (ring (rebuild nodes vn r))" by (auto simp: set_ring_rebuild)
    with t show "n \<in> tok_node_id ` set (ring (rebuild nodes vn r))"
      by (metis imageI node_of_tokens)
  qed
qed

lemma ring_empty_iff: "ring (rebuild nodes vn r) = [] \<longleftrightarrow> vn \<le>s 0 \<or> nodes = []"
proof (cases "vn \<le>s 0")
  case False
  then have "set (ring (rebuild nodes vn r)) = {} \<longleftrightarrow> set nodes = {}"
    using ring_nodes [of vn nodes r] by (metis image_is_empty)
  with False show ?thesis by simp
qed (simp add: ring_rebuild)

lemma sint_bounds: "sint (k :: cint) < 2147483648" "- 2147483648 \<le> sint k"
  using sint_lt [of k] sint_greater_eq [of k] by simp_all

lemma scast_positive:
  assumes "0 < sint (vn :: cint)"
  shows "unat (scast vn :: u64) = nat (sint vn)"
proof -
  have "uint (scast vn :: u64) = sint vn mod 2 ^ LENGTH(64)"
    by (simp only: scast_eq uint_word_of_int)
  also have "\<dots> = sint vn"
    using assms sint_bounds [of vn] by (intro mod_pos_pos_trivial) auto
  finally show ?thesis by (simp only: unat_eq_nat_uint)
qed

lemma interval_positive: "0 < n \<Longrightarrow> n \<le> 4294967296 \<Longrightarrow> 0 < (4294967296 :: nat) div n"
  by (simp add: div_greater_zero_iff)

lemma token_interval_nat:
  assumes "0 < sint vn"
  shows "unat (token_interval vn) = 4294967296 div nat (sint vn)"
proof -
  let ?q = "push_bit 32 (1 :: u64) div scast vn"
  have q: "unat ?q = 4294967296 div nat (sint vn)"
    using assms by (simp add: unat_div scast_positive)
  moreover have "0 < 4294967296 div nat (sint vn)"
    using assms sint_bounds [of vn] by (intro interval_positive) auto
  ultimately have "1 \<le> ?q" by (simp add: word_le_nat_alt)
  then show ?thesis using q by (simp only: token_interval_def Let_def max_absorb2)
qed

lemma offset_bound:
  assumes "v < (n :: nat)"
  shows "v * (4294967296 div n) < 4294967296"
proof (cases "4294967296 div n = 0")
  case False
  then have "v * (4294967296 div n) < n * (4294967296 div n)" using assms by simp
  also have "\<dots> \<le> 4294967296" by (metis div_times_less_eq_dividend mult.commute)
  finally show ?thesis .
qed simp

lemma token_position_nat:
  assumes "0 < sint vn" "v < nat (sint vn)"
  shows "unat (token_position vn n v) =
           (unat (hashNodeId n) + v * (4294967296 div nat (sint vn))) mod 4294967296"
proof -
  let ?i = "4294967296 div nat (sint vn)"
  note vi = offset_bound [OF assms(2)]
  have v: "unat (of_nat v :: u64) = v"
    using assms(2) sint_bounds [of vn] by (simp add: unat_of_nat)
  have "unat ((of_nat v :: u64) * token_interval vn) = v * ?i"
    using vi by (simp add: unat_word_ariths v token_interval_nat assms(1))
  moreover have "unat (ucast (hashNodeId n) :: u64) = unat (hashNodeId n)"
    using unat_u32 [of "hashNodeId n"] by (simp add: unsigned_ucast_eq take_bit_eq_mod)
  ultimately have "unat (ucast (hashNodeId n) + (of_nat v :: u64) * token_interval vn)
      = unat (hashNodeId n) + v * ?i"
    using vi unat_u32 [of "hashNodeId n"] by (simp add: unat_word_ariths)
  then show ?thesis
    by (simp add: token_position_def unsigned_ucast_eq take_bit_eq_mod)
qed

lemma mod_add_inj:
  fixes b c m :: nat
  assumes "(a + b) mod m = (a + c) mod m" "b < m" "c < m"
  shows "b = c"
proof -
  have "y = x" if "(a + y) mod m = (a + x) mod m" "x \<le> y" "y < m" for x y :: nat
  proof -
    have "m dvd y - x" using that(1,2) by (metis add_diff_cancel_left add_le_cancel_left mod_eq_dvd_iff_nat)
    then have "y - x = 0" using that(3) by (metis less_imp_diff_less nat_dvd_not_less not_gr_zero)
    with that(2) show ?thesis by simp
  qed
  from this [of b c] this [of c b] assms show ?thesis by (metis nat_le_linear)
qed

lemma token_position_inj:
  assumes "0 < sint vn" "v < nat (sint vn)" "w < nat (sint vn)"
    "token_position vn n v = token_position vn n w"
  shows "v = w"
proof -
  let ?i = "(4294967296 :: nat) div nat (sint vn)"
  have i: "0 < ?i"
    using assms(1) sint_bounds [of vn] by (intro interval_positive) auto
  have "(unat (hashNodeId n) + v * ?i) mod 4294967296 = (unat (hashNodeId n) + w * ?i) mod 4294967296"
    using token_position_nat [OF assms(1,2), of n] token_position_nat [OF assms(1,3), of n] assms(4)
    by (simp only:)
  then have "v * ?i = w * ?i"
    by (rule mod_add_inj) (rule offset_bound, rule assms)+
  with i show ?thesis by simp
qed

lemma distinct_node_tokens: "distinct (node_tokens vn n)"
proof (cases "0 < sint vn")
  case True
  then show ?thesis
    by (auto simp: node_tokens_def distinct_map intro!: inj_onI dest: token_position_inj)
qed (simp add: node_tokens_def)

lemma distinct_all_tokens:
  "wf_map nodes \<Longrightarrow> distinct (concat (map (\<lambda>p. node_tokens vn (fst p)) nodes))"
proof (induction nodes)
  case (Cons p nodes)
  then have IH: "distinct (concat (map (\<lambda>p. node_tokens vn (fst p)) nodes))"
    and fresh: "fst p \<notin> fst ` set nodes"
    by (auto simp: wf_map_def)
  have "t \<notin> set (node_tokens vn (fst q))" if "t \<in> set (node_tokens vn (fst p))" "q \<in> set nodes" for t q
    using that fresh by (metis imageI node_of_tokens)
  then show ?case using IH by (auto simp: distinct_node_tokens)
qed simp

subsection \<open>Contents and order independence\<close>

lemma distinct_ring: "wf_map nodes \<Longrightarrow> distinct (ring (rebuild nodes vn r))"
  by (simp add: ring_rebuild distinct_all_tokens)

lemma length_concat_tokens:
  "length (concat (map (\<lambda>p. node_tokens vn (fst p)) nodes)) = nat (sint vn) * length nodes"
  by (induction nodes) (auto simp: node_tokens_def)

text \<open>
  Claim C21: a rebuilt ring holds, for every configured node, \<^verbatim>\<open>virtual_nodes_per_node\<close> tokens at
  pairwise different positions, evenly spaced from the hash of the node's id modulo the ring
  size, and nothing else, in strictly ascending order of position and node id.
\<close>

theorem rebuild_contents:
  assumes "wf_map nodes" "0 < sint vn"
  shows "sorted (ring (rebuild nodes vn r))
       \<and> distinct (ring (rebuild nodes vn r))
       \<and> length (ring (rebuild nodes vn r)) = nat (sint vn) * length nodes
       \<and> (\<forall>p n. Token p n \<in> set (ring (rebuild nodes vn r)) \<longleftrightarrow>
            lookup nodes n \<noteq> None
            \<and> (\<exists>v < nat (sint vn).
                 unat p = (unat (hashNodeId n) + v * (2 ^ 32 div nat (sint vn))) mod 2 ^ 32))"
proof -
  have vn: "\<not> vn \<le>s 0" using assms(2) by (simp add: positive_count)
  have pos: "p = token_position vn n v \<longleftrightarrow>
      unat p = (unat (hashNodeId n) + v * (4294967296 div nat (sint vn))) mod 4294967296"
    if "v < nat (sint vn)" for p n v
    using token_position_nat [OF assms(2) that, of n] by (metis word_unat_eq_iff)
  have tok: "Token p n \<in> set (node_tokens vn m) \<longleftrightarrow> m = n
      \<and> (\<exists>v < nat (sint vn). unat p = (unat (hashNodeId n) + v * (4294967296 div nat (sint vn))) mod 4294967296)"
    for p n m
    by (auto simp: node_tokens_def image_iff pos cong: conj_cong)
  have "Token p n \<in> set (ring (rebuild nodes vn r)) \<longleftrightarrow> n \<in> fst ` set nodes
      \<and> (\<exists>v < nat (sint vn). unat p = (unat (hashNodeId n) + v * (2 ^ 32 div nat (sint vn))) mod 2 ^ 32)"
    for p n
    using vn by (auto simp: set_ring_rebuild tok)
  moreover have "length (ring (rebuild nodes vn r)) = nat (sint vn) * length nodes"
    using vn by (simp add: ring_rebuild length_concat_tokens)
  ultimately show ?thesis
    using assms(1) by (simp add: distinct_ring map_of_eq_None_iff)
qed

text \<open>
  The ring is a function of the set of node ids and the token count alone. Two
  processes that know the same nodes build the same ring, whatever the endpoints, the previous
  ring or the iteration order of their hash maps.
\<close>

theorem ring_order_independent:
  assumes "wf_map nodes" "wf_map nodes'" "dom (lookup nodes) = dom (lookup nodes')"
  shows "ring (rebuild nodes vn r) = ring (rebuild nodes' vn r')"
proof -
  have "fst ` set nodes = fst ` set nodes'"
    using assms(3) by (simp add: dom_map_of_conv_image_fst)
  then have "set (ring (rebuild nodes vn r)) = set (ring (rebuild nodes' vn r'))"
    by (simp add: set_ring_rebuild)
  then show ?thesis
    using assms(1,2) by (intro sorted_distinct_set_unique sorted_rebuild distinct_ring)
qed

subsection \<open>Owner and buddy\<close>

lemma primary_rebuild:
  assumes "\<not> vn \<le>s 0" "nodes \<noteq> []"
  shows "getPrimaryNode (rebuild nodes vn r) k
           = tok_node_id (hd (clockwise (ring (rebuild nodes vn r)) (hashKey k)))"
  using assms by (simp add: getPrimaryNode_walk ring_empty_iff)

lemma primary_in_nodes:
  assumes "\<not> vn \<le>s 0" "nodes \<noteq> []"
  shows "getPrimaryNode (rebuild nodes vn r) k \<in> fst ` set nodes"
proof -
  let ?ts = "ring (rebuild nodes vn r)"
  have "?ts \<noteq> []" using assms by (simp add: ring_empty_iff)
  then have "hd (clockwise ?ts (hashKey k)) \<in> set ?ts" by (rule hd_clockwise_in)
  then show ?thesis
    using ring_nodes [OF assms(1), of nodes r] primary_rebuild [OF assms] by (metis imageI)
qed

lemma clockwise_owner:
  assumes "nodes \<noteq> []" "\<not> vn \<le>s 0"
  shows "hd (clockwise (ring (rebuild nodes vn r)) (hashKey k)) \<in> set (ring (rebuild nodes vn r))"
    "\<forall>u \<in> set (ring (rebuild nodes vn r)). cw_le (hashKey k) (hd (clockwise (ring (rebuild nodes vn r)) (hashKey k))) u"
    "getPrimaryNode (rebuild nodes vn r) k = tok_node_id (hd (clockwise (ring (rebuild nodes vn r)) (hashKey k)))"
  using assms by (simp_all add: ring_empty_iff hd_clockwise_in hd_clockwise_least primary_rebuild)

text \<open>
  Claim C20: with at least one node the primary of a key is the owner of the token that is
  nearest clockwise to the hash of the key (ties go to the lower node id), and no other token of
  the ring is as near.
\<close>

theorem primary_is_clockwise_owner:
  assumes "nodes \<noteq> []" "0 < sint vn"
  shows "\<exists>!t. t \<in> set (ring (rebuild nodes vn r))
             \<and> (\<forall>u \<in> set (ring (rebuild nodes vn r)). cw_le (hashKey k) t u)
             \<and> getPrimaryNode (rebuild nodes vn r) k = tok_node_id t"
proof -
  let ?ts = "ring (rebuild nodes vn r)"
  have vn: "\<not> vn \<le>s 0" using assms(2) by (simp add: positive_count)
  show ?thesis
  proof (rule ex1I [of _ "hd (clockwise ?ts (hashKey k))"])
    show "hd (clockwise ?ts (hashKey k)) \<in> set ?ts
        \<and> (\<forall>u \<in> set ?ts. cw_le (hashKey k) (hd (clockwise ?ts (hashKey k))) u)
        \<and> getPrimaryNode (rebuild nodes vn r) k = tok_node_id (hd (clockwise ?ts (hashKey k)))"
      using clockwise_owner [OF assms(1) vn, of r k] by blast
  next
    fix t
    assume "t \<in> set ?ts \<and> (\<forall>u \<in> set ?ts. cw_le (hashKey k) t u)
        \<and> getPrimaryNode (rebuild nodes vn r) k = tok_node_id t"
    then show "t = hd (clockwise ?ts (hashKey k))"
      by (metis hd_clockwise_unique sorted_rebuild)
  qed
qed

lemma buddy_rebuild:
  assumes "\<not> vn \<le>s 0" "nodes \<noteq> []"
  shows "getBuddyNode (rebuild nodes vn r) k
           = first_other (clockwise (ring (rebuild nodes vn r)) (hashKey k))"
  using assms by (simp add: getBuddyNode_walk ring_empty_iff)

lemma other_token:
  assumes vn: "\<not> vn \<le>s 0" and n: "n \<in> fst ` set nodes" "n \<noteq> getPrimaryNode (rebuild nodes vn r) k"
  shows "\<exists>t \<in> set (clockwise (ring (rebuild nodes vn r)) (hashKey k)).
           tok_node_id t \<noteq> tok_node_id (hd (clockwise (ring (rebuild nodes vn r)) (hashKey k)))"
proof -
  have "nodes \<noteq> []" using n(1) by auto
  with n vn ring_nodes [OF vn, of nodes r] show ?thesis
    by (simp add: primary_rebuild) (metis imageE)
qed

lemma ring_delete:
  "ring (rebuild (AList.delete p nodes) vn r)
     = filter (\<lambda>t. tok_node_id t \<noteq> p) (ring (rebuild nodes vn r))"
proof -
  have "filter (\<lambda>t. tok_node_id t \<noteq> p) (node_tokens vn n) = (if n = p then [] else node_tokens vn n)"
    for n
    by (auto simp: filter_empty_conv filter_id_conv)
  then have "concat (map (\<lambda>q. node_tokens vn (fst q)) (AList.delete p nodes))
     = filter (\<lambda>t. tok_node_id t \<noteq> p) (concat (map (\<lambda>p. node_tokens vn (fst p)) nodes))"
    by (induction nodes) auto
  then show ?thesis by (simp add: ring_rebuild filter_sort)
qed

lemma buddy_is_next_primary:
  assumes vn: "\<not> vn \<le>s 0" and n: "n \<in> fst ` set nodes" "n \<noteq> getPrimaryNode (rebuild nodes vn r) k"
  shows "getBuddyNode (rebuild nodes vn r) k
       = getPrimaryNode (rebuild (AList.delete (getPrimaryNode (rebuild nodes vn r) k) nodes) vn r) k"
proof -
  let ?w = "clockwise (ring (rebuild nodes vn r)) (hashKey k)"
  let ?p = "getPrimaryNode (rebuild nodes vn r) k"
  have ne: "nodes \<noteq> []" using n(1) by auto
  have "n \<in> fst ` set (AList.delete ?p nodes)" using n by (simp only: fst_delete) simp
  then have ne': "AList.delete ?p nodes \<noteq> []" by force
  have p: "tok_node_id (hd ?w) = ?p" using vn ne by (simp add: primary_rebuild)
  have "getBuddyNode (rebuild nodes vn r) k = tok_node_id (hd (filter (\<lambda>t. tok_node_id t \<noteq> ?p) ?w))"
    using other_token [OF vn n] first_other_filter p vn ne by (auto simp: buddy_rebuild)
  also have "filter (\<lambda>t. tok_node_id t \<noteq> ?p) ?w
      = clockwise (ring (rebuild (AList.delete ?p nodes) vn r)) (hashKey k)"
    by (simp add: ring_delete clockwise_filter)
  finally show ?thesis using vn ne' by (simp add: primary_rebuild)
qed

text \<open>
  Claim C17: with two or more nodes the buddy of a key is a configured node other than its
  primary, namely the owner of the nearest clockwise token among all tokens of other nodes; with
  one node it is the primary itself, and an empty ring gives -1 for both.
\<close>

theorem buddy_is_next_distinct_node:
  assumes "0 < sint vn"
  shows "(nodes = [] \<longrightarrow> getPrimaryNode (rebuild nodes vn r) k = - 1
            \<and> getBuddyNode (rebuild nodes vn r) k = - 1)
       \<and> (\<forall>n. fst ` set nodes = {n} \<longrightarrow> getPrimaryNode (rebuild nodes vn r) k = n
            \<and> getBuddyNode (rebuild nodes vn r) k = n)
       \<and> (\<forall>m \<in> fst ` set nodes. m \<noteq> getPrimaryNode (rebuild nodes vn r) k \<longrightarrow>
            getBuddyNode (rebuild nodes vn r) k \<in> fst ` set nodes
            \<and> getBuddyNode (rebuild nodes vn r) k \<noteq> getPrimaryNode (rebuild nodes vn r) k
            \<and> (\<exists>t \<in> set (ring (rebuild nodes vn r)).
                 getBuddyNode (rebuild nodes vn r) k = tok_node_id t
                 \<and> (\<forall>u \<in> set (ring (rebuild nodes vn r)).
                      tok_node_id u \<noteq> getPrimaryNode (rebuild nodes vn r) k \<longrightarrow> cw_le (hashKey k) t u)))"
proof (intro conjI allI ballI impI)
  let ?r = "rebuild nodes vn r" and ?w = "clockwise (ring (rebuild nodes vn r)) (hashKey k)"
  have vn: "\<not> vn \<le>s 0" using assms by (simp add: positive_count)
  show "getPrimaryNode ?r k = - 1" "getBuddyNode ?r k = - 1" if "nodes = []"
    using that vn by (simp_all add: getPrimaryNode_walk getBuddyNode_walk ring_empty_iff)
  fix n assume n: "fst ` set nodes = {n}"
  then have ne: "nodes \<noteq> []" by auto
  show p: "getPrimaryNode ?r k = n" using primary_in_nodes [OF vn ne] n by auto
  have "\<forall>t \<in> set ?w. tok_node_id t = n"
    using ring_nodes [OF vn, of nodes r] n by auto
  moreover have "hd ?w \<in> set ?w" using vn ne by (simp add: hd_clockwise_in ring_empty_iff)
  ultimately show "getBuddyNode ?r k = n"
    using vn ne by (simp add: buddy_rebuild first_other_same)
next
  let ?r = "rebuild nodes vn r" and ?w = "clockwise (ring (rebuild nodes vn r)) (hashKey k)"
  let ?p = "getPrimaryNode ?r k" and ?b = "getBuddyNode ?r k"
  have vn: "\<not> vn \<le>s 0" using assms by (simp add: positive_count)
  fix m assume m: "m \<in> fst ` set nodes" "m \<noteq> ?p"
  let ?rest = "AList.delete ?p nodes"
  have "m \<in> fst ` set ?rest" using m by (simp only: fst_delete) simp
  then have ne: "?rest \<noteq> []" by force
  note b = buddy_is_next_primary [OF vn m]
  have "?b \<in> fst ` set ?rest" using primary_in_nodes [OF vn ne] b by simp
  then show "?b \<in> fst ` set nodes" "?b \<noteq> ?p" by auto
  have "\<exists>t \<in> set (ring (rebuild ?rest vn r)). ?b = tok_node_id t
      \<and> (\<forall>u \<in> set (ring (rebuild ?rest vn r)). cw_le (hashKey k) t u)"
    using clockwise_owner [OF ne vn, of r k] unfolding b by blast
  then show "\<exists>t \<in> set (ring ?r). ?b = tok_node_id t
      \<and> (\<forall>u \<in> set (ring ?r). tok_node_id u \<noteq> ?p \<longrightarrow> cw_le (hashKey k) t u)"
    by (auto simp: ring_delete)
qed

subsection \<open>Joins, departures and crashes\<close>

lemma primary_in_superset:
  assumes vn: "\<not> vn \<le>s 0" and sub: "fst ` set small \<subseteq> fst ` set big" and ne: "small \<noteq> []"
  shows "getPrimaryNode (rebuild big vn r) k = getPrimaryNode (rebuild small vn r') k
      \<or> getPrimaryNode (rebuild big vn r) k \<in> fst ` set big - fst ` set small"
proof -
  let ?s = "ring (rebuild small vn r')" and ?b = "ring (rebuild big vn r)"
  have ne': "big \<noteq> []" using sub ne by (cases big) auto
  have set: "set ?s \<subseteq> set ?b"
    unfolding set_ring_rebuild if_not_P [OF vn] by (rule UN_mono [OF sub order_refl])
  have "?s \<noteq> []" using vn ne by (simp add: ring_empty_iff)
  from hd_clockwise_superset [OF sorted_rebuild sorted_rebuild this set, of "hashKey k"]
  consider "hd (clockwise ?b (hashKey k)) = hd (clockwise ?s (hashKey k))"
    | "hd (clockwise ?b (hashKey k)) \<in> set ?b - set ?s" by blast
  then show ?thesis
  proof cases
    case 1
    then show ?thesis using vn ne ne' by (simp add: primary_rebuild)
  next
    case 2
    then have "tok_node_id (hd (clockwise ?b (hashKey k))) \<in> fst ` set big - fst ` set small"
      using vn by (auto simp: set_ring_rebuild) (metis image_eqI fst_conv node_of_tokens)+
    then show ?thesis using vn ne' by (simp add: primary_rebuild)
  qed
qed

lemma primary_after_join:
  assumes "\<not> vn \<le>s 0" "nodes \<noteq> []"
  shows "getPrimaryNode (rebuild (AList.update n ep nodes) vn r') k \<in> {getPrimaryNode (rebuild nodes vn r) k, n}"
proof -
  have "fst ` set (AList.update n ep nodes) = insert n (fst ` set nodes)"
    using dom_update [of n ep nodes] by (simp add: dom_map_of_conv_image_fst)
  with primary_in_superset [OF assms(1), of nodes "AList.update n ep nodes" r' k r] assms(2) show ?thesis by auto
qed

lemma primary_after_departure:
  assumes vn: "\<not> vn \<le>s 0" and "nodes \<noteq> []" and n: "getPrimaryNode (rebuild nodes vn r) k \<noteq> n"
  shows "getPrimaryNode (rebuild (AList.delete n nodes) vn r') k = getPrimaryNode (rebuild nodes vn r) k"
proof -
  have "getPrimaryNode (rebuild nodes vn r) k \<in> fst ` set (AList.delete n nodes)"
    using primary_in_nodes [OF assms(1,2)] n by (simp only: fst_delete) simp
  then have "AList.delete n nodes \<noteq> []" by force
  with primary_in_superset [OF vn, of "AList.delete n nodes" nodes r k r'] n
  show ?thesis
    using primary_in_nodes [OF assms(1,2), of r k] by (auto simp del: fst_delete simp: fst_delete)
qed

text \<open>
  Claim C18: when a node joins, a key either keeps its primary or moves to the node that joined;
  when a node leaves, only the keys it was the primary of move. This is the minimal movement
  that consistent hashing is chosen for.
\<close>

theorem minimal_movement:
  assumes "0 < sint vn" "nodes \<noteq> []"
  shows "getPrimaryNode (rebuild (AList.update n ep nodes) vn r') k
           \<in> {getPrimaryNode (rebuild nodes vn r) k, n}
       \<and> (getPrimaryNode (rebuild nodes vn r) k \<noteq> n \<longrightarrow>
           getPrimaryNode (rebuild (AList.delete n nodes) vn r') k = getPrimaryNode (rebuild nodes vn r) k)"
  using primary_after_join primary_after_departure assms by (simp add: positive_count)

lemma lookup_ring_only:
  "ring r = ring r' \<Longrightarrow> getPrimaryNode r k = getPrimaryNode r' k \<and> getBuddyNode r k = getBuddyNode r' k"
  by (simp add: getPrimaryNode_walk getBuddyNode_walk)

lemma primary_any_state: "getPrimaryNode (rebuild nodes vn r) k = getPrimaryNode (rebuild nodes vn r') k"
  using lookup_ring_only [of "rebuild nodes vn r" "rebuild nodes vn r'" k] by (simp add: ring_rebuild)

lemma primary_after_crash:
  assumes "\<not> vn \<le>s 0" "n \<in> fst ` set nodes" "n \<noteq> getPrimaryNode (rebuild nodes vn r) k"
  shows "getPrimaryNode (rebuild (AList.delete (getPrimaryNode (rebuild nodes vn r) k) nodes) vn r') k
         = getBuddyNode (rebuild nodes vn r) k"
  using buddy_is_next_primary [OF assms] primary_any_state by metis

lemma buddy_after_join:
  assumes vn: "\<not> vn \<le>s 0" and "nodes \<noteq> []" and n: "n \<notin> fst ` set nodes"
    and "getPrimaryNode (rebuild (AList.update n ep nodes) vn r') k = n"
  shows "getBuddyNode (rebuild (AList.update n ep nodes) vn r') k = getPrimaryNode (rebuild nodes vn r) k"
proof -
  obtain m where m: "m \<in> fst ` set nodes" using assms(2) by (cases nodes) auto
  then have "m \<noteq> n" "m \<in> fst ` set (AList.update n ep nodes)"
    using n by (auto simp: dom_update)
  then have "getBuddyNode (rebuild (AList.update n ep nodes) vn r') k
      = getPrimaryNode (rebuild (AList.delete n (AList.update n ep nodes)) vn r') k"
    using buddy_is_next_primary [OF vn, of m "AList.update n ep nodes" r' k] assms(4) by simp
  also have "AList.delete n (AList.update n ep nodes) = nodes"
    using n by (simp add: delete_update_same delete_idem)
  finally show ?thesis using primary_any_state by simp
qed

text \<open>
  Claim C16: when the primary of a key crashes and the ring is rebuilt without it, the new primary
  of the key is the node that was its buddy, the one that holds the replica.
\<close>

theorem crash_promotes_buddy:
  assumes "0 < sint vn" "lookup nodes n \<noteq> None" "n \<noteq> getPrimaryNode (rebuild nodes vn r) k"
  shows "getPrimaryNode (rebuild (AList.delete (getPrimaryNode (rebuild nodes vn r) k) nodes) vn r') k
         = getBuddyNode (rebuild nodes vn r) k"
  using primary_after_crash [of vn n nodes r k r'] assms by (simp add: positive_count map_of_eq_None_iff)

text \<open>
  When a node joins and takes over a key, the buddy of the key is its previous primary,
  so the read that misses on the new primary falls back to the node that has the value.
\<close>

theorem join_keeps_old_primary_as_buddy:
  assumes "0 < sint vn" "nodes \<noteq> []" "lookup nodes n = None"
    and "getPrimaryNode (rebuild (AList.update n ep nodes) vn r') k = n"
  shows "getBuddyNode (rebuild (AList.update n ep nodes) vn r') k = getPrimaryNode (rebuild nodes vn r) k"
  using buddy_after_join [of vn nodes n ep r' k r] assms by (simp add: positive_count map_of_eq_None_iff)

subsection \<open>Witnesses\<close>

theorem rebuild_contents_witness:
  "length (ring (rebuild [(0, ''10.0.0.1:5000''), (1, ''10.0.0.2:5000'')] 2 (empty_ring 0))) = 4"
  using rebuild_contents [of "[(0, ''10.0.0.1:5000''), (1, ''10.0.0.2:5000'')]" 2 "empty_ring 0"]
  by (simp add: wf_map_def)

theorem ring_order_independent_witness:
  "ring (rebuild [(0, ''a''), (1, ''b'')] 2 (empty_ring 7)) = ring (rebuild [(1, ''c''), (0, ''d'')] 2 (empty_ring 0))"
  by (rule ring_order_independent) (auto simp: wf_map_def split: if_splits)

theorem primary_is_clockwise_owner_witness:
  "\<exists>!t. t \<in> set (ring (rebuild [(0, ''a''), (1, ''b'')] 2 (empty_ring 0)))
     \<and> (\<forall>u \<in> set (ring (rebuild [(0, ''a''), (1, ''b'')] 2 (empty_ring 0))). cw_le (hashKey 42) t u)
     \<and> getPrimaryNode (rebuild [(0, ''a''), (1, ''b'')] 2 (empty_ring 0)) 42 = tok_node_id t"
  by (rule primary_is_clockwise_owner) simp_all

theorem buddy_is_next_distinct_node_witness:
  "getBuddyNode (rebuild [(7, ''a'')] 3 (empty_ring 0)) 42 = 7
   \<and> getBuddyNode (rebuild [(0, ''a''), (1, ''b'')] 2 (empty_ring 0)) 42
       \<noteq> getPrimaryNode (rebuild [(0, ''a''), (1, ''b'')] 2 (empty_ring 0)) 42"
proof
  show "getBuddyNode (rebuild [(7, ''a'')] 3 (empty_ring 0)) 42 = 7"
    using buddy_is_next_distinct_node [of 3 "[(7, ''a'')]" "empty_ring 0" 42] by simp
  let ?r = "rebuild [(0, ''a''), (1, ''b'')] 2 (empty_ring 0)"
  have "getPrimaryNode ?r 42 \<noteq> 0 \<or> getPrimaryNode ?r 42 \<noteq> 1" by auto
  then show "getBuddyNode ?r 42 \<noteq> getPrimaryNode ?r 42"
    using buddy_is_next_distinct_node [of 2 "[(0, ''a''), (1, ''b'')]" "empty_ring 0" 42] by auto
qed

theorem minimal_movement_witness:
  "getPrimaryNode (rebuild [(0, ''a''), (1, ''b''), (2, ''c'')] 2 (empty_ring 0)) 42
     \<in> {getPrimaryNode (rebuild [(0, ''a''), (1, ''b'')] 2 (empty_ring 0)) 42, 2}"
  using minimal_movement [of 2 "[(0, ''a''), (1, ''b'')]" 2 "''c''" "empty_ring 0" 42 "empty_ring 0"]
  by simp

theorem crash_promotes_buddy_witness:
  "getPrimaryNode (rebuild (AList.delete 1 [(0, ''a''), (1, ''b''), (2, ''c'')]) 2 (empty_ring 0)) 3
     = getBuddyNode (rebuild [(0, ''a''), (1, ''b''), (2, ''c'')] 2 (empty_ring 0)) 3"
proof -
  have "getPrimaryNode (rebuild [(0, ''a''), (1, ''b''), (2, ''c'')] 2 (empty_ring 0)) 3 = 1"
    by code_simp
  then show ?thesis
    using crash_promotes_buddy [of 2 "[(0, ''a''), (1, ''b''), (2, ''c'')]" 0 "empty_ring 0" 3 "empty_ring 0"]
    by simp
qed

theorem join_keeps_old_primary_as_buddy_witness:
  "getBuddyNode (rebuild (AList.update 1 ''b'' [(0, ''a''), (2, ''c'')]) 2 (empty_ring 0)) 3
     = getPrimaryNode (rebuild [(0, ''a''), (2, ''c'')] 2 (empty_ring 0)) 3"
  by (rule join_keeps_old_primary_as_buddy) (simp_all, code_simp)

end
