(* ===== verification/KeyRanges.thy ===== *)
theory KeyRanges
  imports RingGuarantees
begin

text \<open>
  The key-range listings of the ring against its lookups, with the ranges read as
  \<^verbatim>\<open>include/ConsistentHashRing.hpp\<close> says: the start is inclusive, the end exclusive, and a range whose
  start is not below its end wraps past \<^verbatim>\<open>UINT32_MAX\<close>. The listing names for every hash the primary and
  the buddy that the lookups return, up to two effects of \<^verbatim>\<open>UINT32_MAX\<close> as the end of a range, which
  are determined exactly.
\<close>

definition in_range :: "u32 \<Rightarrow> KeyRange \<Rightarrow> bool" where
  "in_range h kr \<longleftrightarrow>
     (if range_start kr < range_end kr then range_start kr \<le> h \<and> h < range_end kr
      else range_start kr \<le> h \<or> h < range_end kr)"

definition ranges_between :: "u32 \<Rightarrow> u32 \<Rightarrow> bool \<Rightarrow> KeyRange list" where
  "ranges_between p c single =
     (if p + 1 < c + 1 then [\<lparr>range_start = p + 1, range_end = c + 1\<rparr>]
      else if c + 1 < p + 1 then
        \<lparr>range_start = p + 1, range_end = UINT32_MAX\<rparr>
          # (if 0 < c + 1 then [\<lparr>range_start = 0, range_end = c + 1\<rparr>] else [])
      else (if single then [\<lparr>range_start = 0, range_end = UINT32_MAX\<rparr>] else []))"

lemma token_ranges_between:
  "token_ranges ts i = ranges_between (tok_position (ts ! ((i + length ts - 1) mod length ts)))
     (tok_position (ts ! i)) (length ts = 1)"
  by (simp add: token_ranges_def ranges_between_def Let_def)

subsection \<open>Ranges between two positions\<close>

lemma unat_plus1: "(c :: u32) \<noteq> - 1 \<Longrightarrow> unat (c + 1) = Suc (unat c)"
  by (metis add.commute add_eq_0_iff unatSuc)

lemma unat_max: "unat (- 1 :: u32) = 4294967295"
  by (simp add: unsigned_minus_1_eq_mask mask_eq_exp_minus_1)

lemma not_max: "(h :: u32) \<noteq> - 1 \<longleftrightarrow> unat h < 4294967295"
proof -
  have "unat h = 4294967295 \<longleftrightarrow> h = - 1"
    by (metis unat_max word_unat_eq_iff)
  then show ?thesis using unat_u32 [of h] by linarith
qed

lemma below_max: "h < (- 1 :: u32) \<longleftrightarrow> h \<noteq> - 1"
  by (metis not_max unat_max word_less_nat_alt)

lemma next_le: "p \<noteq> - 1 \<Longrightarrow> (p :: u32) + 1 \<le> h \<longleftrightarrow> p < h"
  by (simp add: word_le_nat_alt word_less_nat_alt unat_plus1 Suc_le_eq)

lemma less_next: "c \<noteq> - 1 \<Longrightarrow> h < (c :: u32) + 1 \<longleftrightarrow> h \<le> c"
  by (simp add: word_le_nat_alt word_less_nat_alt unat_plus1 less_Suc_eq_le)

lemma next_less_next: "p \<noteq> - 1 \<Longrightarrow> c \<noteq> - 1 \<Longrightarrow> (p :: u32) + 1 < c + 1 \<longleftrightarrow> p < c"
  by (simp add: word_less_nat_alt unat_plus1)

lemma next_positive: "(c :: u32) \<noteq> - 1 \<longleftrightarrow> 0 < c + 1"
  by (metis add_eq_0_iff2 word_gt_0)

lemma max_greatest: "\<not> (- 1 :: u32) < h"
  using unat_u32 [of h] by (simp add: word_less_nat_alt not_less unat_max)

lemma next_is_max: "(p :: u32) + 1 = - 1 \<longleftrightarrow> p = - 2"
  using eq_diff_eq [of p "- 1" 1] by simp

lemma unat_before_max: "unat (- 2 :: u32) = 4294967294"
  by simp

lemma before_max: "(x :: u32) \<noteq> - 1 \<Longrightarrow> - 2 \<le> x \<longleftrightarrow> x = - 2"
  using not_max [of x] by (auto simp: word_le_nat_alt unat_before_max word_unat_eq_iff)

lemma at_most_max: "(h :: u32) \<le> - 1"
  using max_greatest [of h] by (simp add: not_less)

lemma max_at_most: "(- 1 :: u32) \<le> c \<longleftrightarrow> c = - 1"
  using below_max [of c] by (auto simp: not_less [symmetric])

lemma beyond_before_max: "(- 2 :: u32) < h \<longleftrightarrow> h = - 1"
  using before_max [of h] by (cases "h = - 1") (auto simp: less_le)

text \<open>
  The range from \<open>p\<close> to \<open>c\<close>, and one more: with \<open>p\<close> at \<^verbatim>\<open>UINT32_MAX - 1\<close> the range that should hold
  \<^verbatim>\<open>UINT32_MAX\<close> alone starts where it ends, so it wraps around the whole space.
\<close>

lemma ranges_between_count:
  assumes "p \<noteq> c"
  shows "length (filter (in_range h) (ranges_between p c b)) =
    (if h \<noteq> UINT32_MAX \<and> (if p < c then p < h \<and> h \<le> c else p < h \<or> h \<le> c) then 1 else 0)
    + (if p = - 2 then 1 else 0)"
proof (cases "p = - 1 \<or> c = - 1")
  case True
  with assms consider "p = - 1" "c \<noteq> - 1" | "c = - 1" "p \<noteq> - 1" by auto
  then show ?thesis
  proof cases
    case 1
    then have "0 < c + 1" using next_positive by blast
    with 1 show ?thesis
      by (auto simp: ranges_between_def in_range_def less_next at_most_max max_at_most max_greatest)
  next
    case 2
    then have "0 < p + 1" "p < - 1" using next_positive below_max by blast+
    with 2 show ?thesis
      by (auto simp: ranges_between_def in_range_def next_le below_max next_is_max at_most_max max_at_most
          beyond_before_max)
  qed
next
  case False
  then have c0: "0 < c + 1" "0 < p + 1" using next_positive by blast+
  show ?thesis
  proof (cases "p < c")
    case True
    then have "p \<noteq> - 2" using False before_max [of c] by auto
    moreover have "h \<le> c \<Longrightarrow> h \<noteq> - 1" using False by (auto simp: max_at_most)
    ultimately show ?thesis
      using True False by (auto simp: ranges_between_def in_range_def next_le less_next next_less_next)
  next
    case outer: False
    then have "c < p" using assms by simp
    with False c0 show ?thesis
      by (auto simp: ranges_between_def in_range_def next_le less_next next_less_next below_max next_is_max at_most_max
          max_at_most beyond_before_max)
  qed
qed

lemma ranges_between_same: "ranges_between p p False = []"
  by (simp add: ranges_between_def)

subsection \<open>The token that owns a position\<close>

definition owner :: "Token list \<Rightarrow> u32 \<Rightarrow> nat" where
  "owner ts h = (let it = lower_bound ts h in if it = length ts then 0 else it)"

lemma findToken_owner: "findToken r h = owner (ring r) h"
  by (simp add: findToken_def owner_def)

lemma sorted_position: "sorted ts \<Longrightarrow> j \<le> i \<Longrightarrow> i < length ts \<Longrightarrow> tok_position (ts ! j) \<le> tok_position (ts ! i)"
  by (simp add: sorted_nth_mono token_le_position)

lemma lower_bound_at:
  assumes "i < length ts"
  shows "lower_bound ts h = i \<longleftrightarrow> h \<le> tok_position (ts ! i) \<and> (\<forall>j < i. tok_position (ts ! j) < h)"
proof
  assume lb: "lower_bound ts h = i"
  then show "h \<le> tok_position (ts ! i) \<and> (\<forall>j < i. tok_position (ts ! j) < h)"
    using assms nth_length_takeWhile [of "\<lambda>t. tok_position t < h" ts]
    by (auto simp: lower_bound_def not_less)
      (metis (no_types, lifting) nth_mem set_takeWhileD takeWhile_nth)
next
  assume "h \<le> tok_position (ts ! i) \<and> (\<forall>j < i. tok_position (ts ! j) < h)"
  then have "takeWhile (\<lambda>t. tok_position t < h) ts = take i ts"
    by (intro takeWhile_eq_take_P_nth) (auto simp: not_less)
  then show "lower_bound ts h = i" using assms by (simp add: lower_bound_def)
qed

lemma owner_inner:
  assumes "sorted ts" "0 < i" "i < length ts"
  shows "owner ts h = i \<longleftrightarrow> tok_position (ts ! (i - 1)) < h \<and> h \<le> tok_position (ts ! i)"
proof -
  have "(\<forall>j < i. tok_position (ts ! j) < h) \<longleftrightarrow> tok_position (ts ! (i - 1)) < h"
  proof (intro iffI allI impI)
    fix j assume "tok_position (ts ! (i - 1)) < h" "j < i"
    then have "tok_position (ts ! j) \<le> tok_position (ts ! (i - 1))"
      using assms by (intro sorted_position) auto
    with \<open>tok_position (ts ! (i - 1)) < h\<close> show "tok_position (ts ! j) < h" by simp
  qed (use assms in simp)
  moreover have "owner ts h = i \<longleftrightarrow> lower_bound ts h = i"
    using assms by (auto simp: owner_def Let_def)
  ultimately show ?thesis using lower_bound_at [OF assms(3), of h] by auto
qed

lemma owner_first:
  assumes "sorted ts" "ts \<noteq> []"
  shows "owner ts h = 0 \<longleftrightarrow> tok_position (ts ! (length ts - 1)) < h \<or> h \<le> tok_position (ts ! 0)"
proof -
  have "lower_bound ts h = length ts \<longleftrightarrow> tok_position (ts ! (length ts - 1)) < h"
  proof
    assume "lower_bound ts h = length ts"
    then have "takeWhile (\<lambda>t. tok_position t < h) ts = ts"
      by (metis lower_bound_def takeWhile_eq_take take_all order_refl)
    moreover have "ts ! (length ts - 1) \<in> set ts" using assms(2) by simp
    ultimately show "tok_position (ts ! (length ts - 1)) < h" by (metis set_takeWhileD)
  next
    assume l: "tok_position (ts ! (length ts - 1)) < h"
    have "tok_position t < h" if t: "t \<in> set ts" for t
    proof -
      from t obtain j where "j < length ts" "t = ts ! j" by (auto simp: in_set_conv_nth)
      then show ?thesis
        using sorted_position [OF assms(1), of j "length ts - 1"] assms(2) l by fastforce
    qed
    then show "lower_bound ts h = length ts" by (simp add: lower_bound_def takeWhile_idem_all)
  qed
  moreover have "lower_bound ts h = 0 \<longleftrightarrow> h \<le> tok_position (ts ! 0)"
    using lower_bound_at [of 0 ts h] assms(2) by simp
  ultimately show ?thesis by (auto simp: owner_def Let_def)
qed

text \<open>A ring with tokens at two positions or more, and one with a token just before \<^verbatim>\<open>UINT32_MAX\<close>.\<close>

definition spread :: "Token list \<Rightarrow> bool" where
  "spread ts \<longleftrightarrow> ts \<noteq> [] \<and> tok_position (ts ! 0) \<noteq> tok_position (ts ! (length ts - 1))"

definition before_end :: "Token list \<Rightarrow> bool" where
  "before_end ts \<longleftrightarrow> list_ex (\<lambda>t. tok_position t = UINT32_MAX - 1) ts"

lemma before_end_nth: "before_end ts \<longleftrightarrow> (\<exists>j < length ts. tok_position (ts ! j) = - 2)"
  by (simp add: before_end_def list_ex_iff) (metis in_set_conv_nth)

lemma max_owner_inner:
  assumes "sorted ts" "0 < i" "i < length ts"
  shows "before_end ts \<and> owner ts UINT32_MAX = i
    \<longleftrightarrow> tok_position (ts ! (i - 1)) = - 2 \<and> tok_position (ts ! (i - 1)) \<noteq> tok_position (ts ! i)"
    (is "?l \<longleftrightarrow> ?r")
proof
  let ?p = "tok_position (ts ! (i - 1))" and ?c = "tok_position (ts ! i)"
  note o = owner_inner [OF assms, of UINT32_MAX, unfolded below_max max_at_most]
  assume l: ?l
  then obtain j where j: "j < length ts" "tok_position (ts ! j) = - 2" by (auto simp: before_end_nth)
  have "j < i"
  proof (rule ccontr)
    assume "\<not> j < i"
    then have "?c \<le> tok_position (ts ! j)" using sorted_position [OF assms(1), of i j] j(1) by simp
    with l o j(2) show False by (simp add: max_at_most)
  qed
  then have "- 2 \<le> ?p" using sorted_position [OF assms(1), of j "i - 1"] assms(3) j(2) by simp
  with l o before_max [of ?p] show ?r by simp
next
  let ?p = "tok_position (ts ! (i - 1))" and ?c = "tok_position (ts ! i)"
  assume r: ?r
  have "?p \<le> ?c" using sorted_position [OF assms(1)] assms(3) by simp
  with r have "?c = - 1" using before_max [of ?c] by metis
  with r owner_inner [OF assms, of UINT32_MAX] assms(3) show ?l
    by (auto simp: before_end_nth below_max max_at_most intro: exI [of _ "i - 1"])
qed

lemma max_owner_first:
  assumes "sorted ts" "spread ts"
  shows "before_end ts \<and> owner ts UINT32_MAX = 0 \<longleftrightarrow> tok_position (ts ! (length ts - 1)) = - 2" (is "?l \<longleftrightarrow> ?r")
proof -
  let ?p = "tok_position (ts ! (length ts - 1))" and ?c = "tok_position (ts ! 0)"
  have ne: "ts \<noteq> []" and pc: "?c \<noteq> ?p" using assms(2) by (auto simp: spread_def)
  note o = owner_first [OF assms(1) ne, of UINT32_MAX, unfolded below_max max_at_most]
  have last: "tok_position (ts ! j) \<le> ?p" "?c \<le> tok_position (ts ! j)" if "j < length ts" for j
    using sorted_position [OF assms(1), of j "length ts - 1"] sorted_position [OF assms(1), of 0 j] that by simp_all
  show ?thesis
  proof
    assume l: ?l
    then obtain j where j: "j < length ts" "tok_position (ts ! j) = - 2" by (auto simp: before_end_nth)
    then have "- 2 \<le> ?p" using last(1) [of j] by simp
    moreover have "?c \<noteq> - 1" using last(2) [of j] j by (auto simp: max_at_most)
    ultimately show ?r using l o before_max [of ?p] by simp
  next
    assume r: ?r
    moreover have "before_end ts" using r ne by (auto simp: before_end_nth intro: exI [of _ "length ts - 1"])
    ultimately show ?l using o by simp
  qed
qed

lemma token_ranges_owner:
  assumes ts: "sorted ts" "spread ts" and i: "i < length ts"
  shows "length (filter (in_range h) (token_ranges ts i)) =
    (if h \<noteq> UINT32_MAX \<and> i = owner ts h then 1 else 0) + (if before_end ts \<and> i = owner ts UINT32_MAX then 1 else 0)"
proof (cases "0 < i")
  case True
  let ?p = "tok_position (ts ! (i - 1))" and ?c = "tok_position (ts ! i)"
  have idx: "(i + length ts - 1) mod length ts = i - 1"
    using True i by (metis Nat.add_diff_assoc2 One_nat_def Suc_leI less_imp_diff_less mod_add_self2 mod_less)
  have one: "(length ts = 1) = False" using True i by simp
  have "?p \<le> ?c" using sorted_position [OF ts(1)] i by simp
  note o = owner_inner [OF ts(1) True i, of h] max_owner_inner [OF ts(1) True i]
  show ?thesis
  proof (cases "?p = ?c")
    case True
    then have "i \<noteq> owner ts h" "\<not> (before_end ts \<and> i = owner ts UINT32_MAX)" using o by (metis not_le, metis)
    then show ?thesis unfolding token_ranges_between idx one True ranges_between_same by simp
  next
    case False
    with \<open>?p \<le> ?c\<close> have "?p < ?c" by simp
    moreover have "i = owner ts h \<longleftrightarrow> ?p < h \<and> h \<le> ?c" "before_end ts \<and> i = owner ts UINT32_MAX \<longleftrightarrow> ?p = - 2"
      using o False by metis+
    ultimately show ?thesis
      using ranges_between_count [OF False, of h False] unfolding token_ranges_between idx one by simp
  qed
next
  case False
  then have i0: "i = 0" by simp
  let ?p = "tok_position (ts ! (length ts - 1))" and ?c = "tok_position (ts ! 0)"
  have ne: "ts \<noteq> []" using i by auto
  have idx: "(0 + length ts - 1) mod length ts = length ts - 1" using i by simp
  have "?c \<noteq> ?p" using ts(2) by (simp add: spread_def)
  moreover have "?c \<le> ?p" using sorted_position [OF ts(1)] i by simp
  ultimately have less: "?c < ?p" by simp
  have one: "(length ts = 1) = False" using \<open>?c \<noteq> ?p\<close> by auto
  have "0 = owner ts h \<longleftrightarrow> ?p < h \<or> h \<le> ?c" "before_end ts \<and> 0 = owner ts UINT32_MAX \<longleftrightarrow> ?p = - 2"
    using owner_first [OF ts(1) ne, of h] max_owner_first [OF ts] by metis+
  moreover have "\<not> ?p < ?c" "?p \<noteq> ?c" using less by auto
  ultimately show ?thesis
    using ranges_between_count [of ?p ?c h False] unfolding i0 token_ranges_between idx one by (simp only: if_False simp_thms)
qed

subsection \<open>The listings against the lookups\<close>

lemma find_map: "find P (map f xs) = map_option f (find (\<lambda>x. P (f x)) xs)"
  by (induction xs) auto

lemma rotation:
  assumes "i < length ts"
  shows "drop i ts @ take i ts = map (\<lambda>j. ts ! ((i + j) mod length ts)) [0..<length ts]"
proof -
  have "drop i ts @ take i ts = rotate i ts" using assms by (simp add: rotate_drop_take)
  then show ?thesis by (simp only:) (rule nth_equalityI; simp add: nth_rotate)
qed

lemma range_buddy_first_other:
  assumes i: "i < length ts"
  shows "range_buddy ts i = first_other (drop i ts @ take i ts)"
proof -
  let ?P = "\<lambda>t. tok_node_id t \<noteq> tok_node_id (ts ! i)"
  have "0 < length ts" using i by linarith
  then have upt: "[0..<length ts] = 0 # [1..<length ts]" by (simp only: upt_conv_Cons One_nat_def)
  have hd: "hd (drop i ts @ take i ts) = ts ! i" using i by (simp add: hd_append hd_drop_conv_nth)
  have "find ?P (drop i ts @ take i ts)
      = map_option (\<lambda>j. ts ! ((i + j) mod length ts))
          (find (\<lambda>j. ?P (ts ! ((i + j) mod length ts))) [1..<length ts])"
    using i by (simp add: rotation find_map upt)
  then show ?thesis
    by (auto simp: range_buddy_def first_other_def hd Let_def split: option.split)
qed

lemma owner_less: "ts \<noteq> [] \<Longrightarrow> owner ts h < length ts"
  by (auto simp: owner_def Let_def le_neq_implies_less)

lemma concat_single:
  "k < n \<Longrightarrow> concat (map (\<lambda>i. if i = k then [x i] else []) [0..<n]) = [x k]"
proof (induction n)
  case (Suc n)
  show ?case
  proof (cases "k = n")
    case True
    have "concat (map (\<lambda>i. if i = n then [x i] else []) [0..<n]) = []" by simp
    with True show ?thesis by simp
  qed (use Suc in auto)
qed simp

lemma map_const_length: "map (\<lambda>_. x) xs = replicate (length xs) x"
  by (simp add: map_replicate_const)

lemma mset_two:
  fixes f :: "nat \<Rightarrow> 'b"
  assumes "x1 < n" "x2 < n"
  shows "mset (concat (map (\<lambda>i. replicate ((if P \<and> i = x1 then 1 else 0) + (if Q \<and> i = x2 then 1 else 0)) (f i)) [0..<n]))
    = (if P then {#f x1#} else {#}) + (if Q then {#f x2#} else {#})"
proof -
  have plus: "replicate_mset (a + b) x = replicate_mset a x + replicate_mset b x" for a b :: nat and x :: 'b
    by (induction a) simp_all
  have one: "(\<Sum>i \<leftarrow> [0..<n]. replicate_mset (if R \<and> i = x then 1 else 0) (f i)) = (if R then {#f x#} else {#})"
    if "x < n" for R x
  proof -
    have "(\<Sum>i \<leftarrow> [0..<n]. replicate_mset (if R \<and> i = x then 1 else 0) (f i))
        = (\<Sum>i = 0..<n. if i = x then (if R then {#f x#} else {#}) else {#})"
      unfolding interv_sum_list_conv_sum_set_nat by (intro sum.cong) auto
    also have "\<dots> = (if R then {#f x#} else {#})" using that by (simp add: sum.delta)
    finally show ?thesis .
  qed
  have "mset (concat (map (\<lambda>i. replicate ((if P \<and> i = x1 then 1 else 0) + (if Q \<and> i = x2 then 1 else 0)) (f i)) [0..<n]))
      = (\<Sum>i \<leftarrow> [0..<n]. replicate_mset (if P \<and> i = x1 then 1 else 0) (f i) + replicate_mset (if Q \<and> i = x2 then 1 else 0) (f i))"
    by (simp only: mset_concat map_map o_def mset_replicate plus)
  also have "\<dots> = (if P then {#f x1#} else {#}) + (if Q then {#f x2#} else {#})"
    unfolding sum_list_addf one [OF assms(1)] one [OF assms(2)] ..
  finally show ?thesis .
qed

text \<open>What a hash is listed with, and what the lookups give for it.\<close>

definition listed :: "ConsistentHashRing \<Rightarrow> u32 \<Rightarrow> (node_id \<times> node_id) list" where
  "listed r h = map (\<lambda>a. (primary_node_id a, buddy_node_id a))
     (filter (\<lambda>a. in_range h (assigned_range a)) (getKeyRangeAssignments r))"

definition walked :: "Token list \<Rightarrow> u32 \<Rightarrow> node_id \<times> node_id" where
  "walked ts h = (tok_node_id (hd (clockwise ts h)), first_other (clockwise ts h))"

lemma listed_walked:
  assumes ts: "sorted (ring r)" "spread (ring r)"
  shows "mset (listed r h) = (if h \<noteq> UINT32_MAX then {#walked (ring r) h#} else {#})
    + (if before_end (ring r) then {#walked (ring r) UINT32_MAX#} else {#})"
proof -
  let ?ts = "ring r"
  let ?x = "\<lambda>i. (tok_node_id (?ts ! i), range_buddy ?ts i)"
  have ne: "?ts \<noteq> []" using ts(2) by (simp add: spread_def)
  have "listed r h = concat (map (\<lambda>i. replicate (length (filter (in_range h) (token_ranges ?ts i))) (?x i)) [0..<length ?ts])"
    by (simp add: listed_def getKeyRangeAssignments_def token_assignments_def filter_concat map_concat o_def filter_map
        map_const_length)
  also have "\<dots> = concat (map (\<lambda>i. replicate ((if h \<noteq> UINT32_MAX \<and> i = owner ?ts h then 1 else 0)
      + (if before_end ?ts \<and> i = owner ?ts UINT32_MAX then 1 else 0)) (?x i)) [0..<length ?ts])"
    by (intro arg_cong [of _ _ concat] map_cong refl) (simp only: token_ranges_owner [OF ts] atLeastLessThan_iff set_upt)
  finally have l: "listed r h = concat (map (\<lambda>i. replicate ((if h \<noteq> UINT32_MAX \<and> i = owner ?ts h then 1 else 0)
      + (if before_end ?ts \<and> i = owner ?ts UINT32_MAX then 1 else 0)) (?x i)) [0..<length ?ts])" .
  have "mset (listed r h) = (if h \<noteq> UINT32_MAX then {#?x (owner ?ts h)#} else {#})
      + (if before_end ?ts then {#?x (owner ?ts UINT32_MAX)#} else {#})"
    unfolding l by (rule mset_two [OF owner_less [OF ne] owner_less [OF ne], where f = ?x])
  moreover have "?x (owner ?ts g) = walked ?ts g" for g
    using owner_less [OF ne, of g] hd_clockwise [OF ne, of g]
    by (simp add: walked_def range_buddy_first_other clockwise_findToken [OF ne] findToken_owner)
  ultimately show ?thesis by simp
qed

lemma spread_rebuild:
  assumes "wf_map nodes" "nodes \<noteq> []" "1 < sint vn"
  shows "spread (ring (rebuild nodes vn r))"
proof -
  let ?ts = "ring (rebuild nodes vn r)"
  have vn: "\<not> vn \<le>s 0" using assms(3) by (simp add: positive_count)
  obtain n where n: "n \<in> fst ` set nodes" using assms(2) by (cases nodes) auto
  have two: "0 < nat (sint vn)" "1 < nat (sint vn)" using assms(3) by auto
  define a b where "a = Token (token_position vn n 0) n" and "b = Token (token_position vn n 1) n"
  have "a \<in> set (node_tokens vn n)" "b \<in> set (node_tokens vn n)"
    using two by (auto simp: a_def b_def node_tokens_def)
  then have "a \<in> set ?ts" "b \<in> set ?ts" using n vn by (auto simp: set_ring_rebuild)
  then obtain i j where ij: "i < length ?ts" "?ts ! i = a" "j < length ?ts" "?ts ! j = b"
    by (metis in_set_conv_nth)
  have pos: "tok_position a \<noteq> tok_position b"
    using token_position_inj [of vn 0 1 n] two assms(3) by (auto simp: a_def b_def)
  have "tok_position (?ts ! 0) \<le> tok_position (?ts ! k) \<and> tok_position (?ts ! k) \<le> tok_position (?ts ! (length ?ts - 1))"
    if "k < length ?ts" for k
    using that sorted_position [OF sorted_rebuild, of 0 k nodes vn r]
      sorted_position [OF sorted_rebuild, of k "length ?ts - 1" nodes vn r] by simp
  from this [OF ij(1)] this [OF ij(3)] pos ij show ?thesis
    unfolding spread_def by (metis order_antisym list.size(3) not_less_zero)
qed

lemma hash_of_max_key: "hashKey (- 912985086) = UINT32_MAX"
  by code_simp

text \<open>
  Claim C19: the ranges the server lists, against the lookups, for every key. With at least two tokens
  per node (the default), each key is listed exactly once, with the primary and the buddy the lookups
  return for it, with two exceptions, both from \<^verbatim>\<open>UINT32_MAX\<close> as the exclusive end of a range. A key
  whose hash is \<^verbatim>\<open>UINT32_MAX\<close>, such as -912985086, is in no range, although the lookups do give it a
  node. And when a token is at \<^verbatim>\<open>UINT32_MAX - 1\<close>, one of the ranges is the one from \<^verbatim>\<open>UINT32_MAX\<close> to
  \<^verbatim>\<open>UINT32_MAX\<close>, which by the header wraps around the whole space: then every key is listed once more,
  with the nodes of the key -912985086.
\<close>

theorem key_ranges_against_lookups:
  assumes "wf_map nodes" "nodes \<noteq> []" "1 < sint vn" "r' = rebuild nodes vn r"
  shows "mset (listed r' (hashKey k)) =
         (if hashKey k \<noteq> UINT32_MAX then {#(getPrimaryNode r' k, getBuddyNode r' k)#} else {#})
       + (if before_end (ring r') then {#(getPrimaryNode r' (- 912985086), getBuddyNode r' (- 912985086))#} else {#})
     \<and> hashKey (- 912985086) = UINT32_MAX"
proof -
  have vn: "\<not> vn \<le>s 0" using assms(3) by (simp add: positive_count)
  have "walked (ring r') (hashKey key) = (getPrimaryNode r' key, getBuddyNode r' key)" for key
    using vn assms(2) by (simp add: walked_def assms(4) primary_rebuild buddy_rebuild)
  from this [of k] this [of "- 912985086"] show ?thesis
    using listed_walked [OF sorted_rebuild spread_rebuild [OF assms(1-3)], of r "hashKey k"]
    by (simp add: assms(4) hash_of_max_key)
qed

text \<open>
  The node ids 29510 and 87967 have the same hash, so with one token per node the two
  tokens coincide; every key has a primary, but no key range is listed at all.
\<close>

theorem key_ranges_collision:
  "hashNodeId 29510 = hashNodeId 87967
   \<and> getKeyRangeAssignments (new_ring [(29510, ''a''), (87967, ''b'')] 1) = []
   \<and> getPrimaryNode (new_ring [(29510, ''a''), (87967, ''b'')] 1) 42 = 29510
   \<and> getBuddyNode (new_ring [(29510, ''a''), (87967, ''b'')] 1) 42 = 87967"
  by (intro conjI; code_simp)

subsection \<open>The listing per node\<close>

lemma getKeyRanges_fold:
  "getKeyRanges r = foldl (\<lambda>m a. push_range (primary_node_id a) m (assigned_range a)) []
     (getKeyRangeAssignments r)"
proof -
  have inner: "foldl (\<lambda>m a. push_range (primary_node_id a) m (assigned_range a)) m
        (map (\<lambda>kr. \<lparr>assigned_range = kr, primary_node_id = p, buddy_node_id = b\<rparr>) krs)
      = foldl (push_range p) m krs" for m p b krs
    by (induction krs arbitrary: m) auto
  have "foldl (\<lambda>m i. foldl (push_range (tok_node_id (ring r ! i))) m (token_ranges (ring r) i)) m is
      = foldl (\<lambda>m a. push_range (primary_node_id a) m (assigned_range a)) m
          (concat (map (token_assignments (ring r)) is))" for m "is"
    by (induction "is" arbitrary: m) (auto simp: inner token_assignments_def)
  then show ?thesis by (simp add: getKeyRanges_def getKeyRangeAssignments_def)
qed

text \<open>
  \<^verbatim>\<open>getKeyRanges\<close> groups the ranges of \<^verbatim>\<open>getKeyRangeAssignments\<close> by primary node, in
  order, and has no entry for a node without a range.
\<close>

theorem getKeyRanges_groups_assignments:
  "lookup (getKeyRanges r) n =
     (let krs = map assigned_range (filter (\<lambda>a. primary_node_id a = n) (getKeyRangeAssignments r))
      in if krs = [] then None else Some krs)"
proof -
  have "lookup (foldl (\<lambda>m a. push_range (primary_node_id a) m (assigned_range a)) [] as) n =
     (let krs = map assigned_range (filter (\<lambda>a. primary_node_id a = n) as)
      in if krs = [] then None else Some krs)" for as
    by (induction as rule: rev_induct) (auto simp: push_range_def map_simps Let_def)
  then show ?thesis unfolding getKeyRanges_fold .
qed

text \<open>The node id 86626056 has a token at \<^verbatim>\<open>UINT32_MAX - 1\<close> with two tokens per node.\<close>

theorem key_ranges_against_lookups_witness:
  "listed (rebuild [(0, ''a''), (1, ''b'')] 2 (empty_ring 0)) (hashKey 42)
     = [(getPrimaryNode (rebuild [(0, ''a''), (1, ''b'')] 2 (empty_ring 0)) 42,
         getBuddyNode (rebuild [(0, ''a''), (1, ''b'')] 2 (empty_ring 0)) 42)]
   \<and> size (mset (listed (rebuild [(0, ''a''), (86626056, ''b'')] 2 (empty_ring 0)) (hashKey 42))) = 2"
proof -
  have h: "hashKey 42 \<noteq> UINT32_MAX" by code_simp
  have b: "\<not> before_end (ring (rebuild [(0, ''a''), (1, ''b'')] 2 (empty_ring 0)))"
    "before_end (ring (rebuild [(0, ''a''), (86626056, ''b'')] 2 (empty_ring 0)))" by code_simp+
  have "wf_map [(0 :: node_id, ''a''), (n, ''b'')]" if "n \<noteq> 0" for n using that by (simp add: wf_map_def)
  moreover have "[(0 :: node_id, ''a''), (n, ''b'')] \<noteq> []" "1 < sint (2 :: cint)" for n by simp_all
  ultimately show ?thesis
    using key_ranges_against_lookups [of "[(0, ''a''), (1, ''b'')]" 2, OF _ _ _ refl, of "empty_ring 0" 42]
      key_ranges_against_lookups [of "[(0, ''a''), (86626056, ''b'')]" 2, OF _ _ _ refl, of "empty_ring 0" 42] h b
    by simp
qed

end
