(* ===== verification/HashGuarantees.thy ===== *)
theory HashGuarantees
  imports HashRing
begin

text \<open>
  The properties of the hash functions as the ring uses them: the reference the 32-bit hash is
  equal to, memory safety of the three variants, invertible finalisers, and the absence of
  collisions between keys of one length that differ in one block.
\<close>

text \<open>
  Claim C23: \<^verbatim>\<open>MurmurHash3_x86_32\<close>, with its loop over negative block indices and its
  fall-through tail, is the fold of the block mixer over the little-endian 4-byte blocks of the
  key, followed by the tail, the length and the finaliser; bytes behind the key have no effect.
\<close>

theorem murmur_x86_32_is_block_fold:
  "MurmurHash3_x86_32 (bs @ post) (length bs) seed
     = fmix32 (absorb (foldl mix_h1 seed (blocks_of bs)) (rest_of bs) XOR of_nat (length bs))"
  by (simp add: MurmurHash3_x86_32_spec murmur_spec_def)

text \<open>
  The three hash functions read only the \<^verbatim>\<open>len\<close> bytes of the key: on buffers that
  agree there, whatever lies behind, they return the same values.
\<close>

theorem murmur_reads_only_key:
  assumes "\<forall>i < len. xs ! i = ys ! i"
  shows "MurmurHash3_x86_32 xs len seed = MurmurHash3_x86_32 ys len seed
       \<and> MurmurHash3_x86_128 xs len seed = MurmurHash3_x86_128 ys len seed
       \<and> MurmurHash3_x64_128 xs len seed = MurmurHash3_x64_128 ys len seed"
proof -
  have ag: "agree len xs ys" using assms by (simp add: agree_def)
  have l4: "4 * (len div 4) \<le> len div 4 * 4" "len div 4 * 4 \<le> len" "len div 4 * 4 + len mod 4 \<le> len"
    by simp_all
  have l16: "16 * (len div 16) \<le> len div 16 * 16" "len div 16 * 16 \<le> len"
    "len div 16 * 16 + len mod 16 \<le> len" "16 * (0 + len div 16) \<le> len"
    by simp_all
  show ?thesis
    unfolding MurmurHash3_x86_32_def MurmurHash3_x86_128_def MurmurHash3_x64_128_def Let_def
    by (simp only: body_x86_32_agree [OF ag l4(1,2)] body_x86_128_agree [OF ag l16(1,2)]
        body_x64_128_agree [OF ag l16(4)] tail_agree(1) [OF ag l4(3)] tail_agree(2) [OF ag l16(3)]
        tail_agree(3) [OF ag l16(3)])
qed

theorem murmur_reads_only_key_witness:
  "MurmurHash3_x86_32 [104, 105] 1 0 = MurmurHash3_x86_32 [104, 7] 1 0"
  using murmur_reads_only_key [of 1 "[104, 105]" "[104, 7]" 0] by simp

text \<open>
  The two finalisers lose no information: each is a bijection on its words, with an
  explicit inverse.
\<close>

theorem finalisers_invertible:
  "unfmix32 (fmix32 h) = h \<and> fmix32 (unfmix32 h) = h \<and> unfmix64 (fmix64 k) = k \<and> fmix64 (unfmix64 k) = k"
  by simp

text \<open>
  Two keys of one length that differ only inside one aligned 4-byte block, or only in
  the tail behind the last block, never have the same 32-bit hash, for any seed.
\<close>

theorem murmur_no_collision_in_block:
  assumes "length pre mod 4 = 0" "length ys = length ys'" "length ys \<le> 4"
    and "length ys = 4 \<or> post = []" and "ys \<noteq> ys'"
  shows "murmur3_32 (pre @ ys @ post) (length (pre @ ys @ post)) seed
       \<noteq> murmur3_32 (pre @ ys' @ post) (length (pre @ ys' @ post)) seed"
  using murmur_spec_block_change [OF assms(1-4)] assms(5) by (auto simp only: murmur3_32_spec)

theorem murmur_no_collision_in_block_witness:
  "murmur3_32 [1, 2, 3, 4, 5] 5 7 \<noteq> murmur3_32 [1, 2, 3, 4, 6] 5 7"
  using murmur_no_collision_in_block [of "[1, 2, 3, 4]" "[5]" "[6]" "[]" 7]
  by (simp add: eval_nat_numeral)

lemma of_char_byte_inj: "(of_char c :: u8) = of_char d \<longleftrightarrow> c = d"
proof
  assume eq: "(of_char c :: u8) = of_char d"
  have "unat (of_char e :: u8) = (of_char e :: nat)" for e :: char
  proof -
    have "(of_char e :: u8) = of_nat (of_char e)" by (rule of_nat_of_char [symmetric])
    moreover have "(of_char e :: nat) mod 256 = of_char e" by (rule of_char_mod_256)
    ultimately show ?thesis by (simp add: unat_of_nat)
  qed
  with eq have "(of_char c :: nat) = of_char d" by metis
  then show "c = d" by simp
qed simp

lemma bytes_of_inj: "bytes_of s = bytes_of t \<longleftrightarrow> s = t"
  unfolding bytes_of_def by (rule inj_map_eq_map) (simp add: inj_def of_char_byte_inj)

lemma hash_text_short:
  assumes "length s = length t" "length s \<le> 4" "murmur3_32 (bytes_of s) (length s) 0 = murmur3_32 (bytes_of t) (length t) 0"
  shows "s = t"
proof -
  have len: "length s = length (bytes_of s)" "length t = length (bytes_of t)"
    by (simp_all add: bytes_of_def)
  have "murmur_spec ([] @ bytes_of s @ []) 0 = murmur_spec ([] @ bytes_of t @ []) 0"
    using assms(3) unfolding len murmur3_32_spec by simp
  then have "bytes_of s = bytes_of t"
    using murmur_spec_block_change [of "[]" "bytes_of s" "bytes_of t" "[]" 0] assms(1,2) len
    by simp
  then show ?thesis by (simp add: bytes_of_inj)
qed

text \<open>
  Node ids (and keys) whose decimal texts have the same length, at most four
  characters, never collide: 0 to 9, 10 to 99, 100 to 999, 1000 to 9999 and so on have pairwise
  different base positions on the ring.
\<close>

theorem short_ids_never_collide:
  assumes "length (to_string i) = length (to_string j)" "length (to_string i) \<le> 4"
  shows "(hashNodeId i = hashNodeId j \<longleftrightarrow> i = j) \<and> (hashKey i = hashKey j \<longleftrightarrow> i = j)"
  using hash_text_short [OF assms] by (auto simp: hashNodeId_def hashKey_def Let_def)

theorem short_ids_never_collide_witness: "hashNodeId 12 \<noteq> hashNodeId 99"
proof -
  have "length (to_string 12) = length (to_string 99)" "length (to_string 12) \<le> 4"
    by code_simp+
  from short_ids_never_collide [OF this] show ?thesis by simp
qed

text \<open>Published test vectors, evaluated.\<close>

lemma murmur_vectors:
  "murmur3_32 (bytes_of ''hello'') 5 0 = 0x248bfa47"
  "MurmurHash3_x64_128 (bytes_of ''hello'') 5 0 = (0xcbd8a7b341bd9b02, 0x5b1e906a48ae1d19)"
  by code_simp+

end
