(* ===== verification/KvStore.thy ===== *)
theory KvStore
  imports Prelude
begin

text \<open>
  \<^verbatim>\<open>src/KVStore.cpp\<close> and \<^verbatim>\<open>include/KVStore.hpp\<close>: the store of one node. The data live in a
  managed segment of Boost.Interprocess, in shared memory (\<^verbatim>\<open>MEMORY\<close>) or in a mapped file
  (\<^verbatim>\<open>PERSISTENT\<close>), so the state has two parts: the \<^verbatim>\<open>KvStore\<close> object of a process and the part of
  the operating system that outlives it (names of shared memory objects and mutexes, files,
  segments, the images of the files on disk, and the write-backs that have been requested). Two
  processes that open one name share the segment. A file on disk lags behind its mapping: \<^verbatim>\<open>flush()\<close>
  of a managed mapped file is asynchronous by default, so it only asks for the pages to be written
  back, and it reports a failure in a result which the code never reads.

  Boost itself is not part of the repository. What the code relies on enters as the record
  \<open>boost\<close>: the sizes it reports and the errors it raises are arbitrary functions, and an error is
  the text of the exception. \<^verbatim>\<open>boost::unordered_map<int, string>\<close> is a container with the
  semantics of \<^verbatim>\<open>std::unordered_map\<close>. The mutex serialises the operations, so each of them is one
  atomic step. An operation returns the line it reports (\<open>report\<close>) and the state it leaves.
\<close>

subsection \<open>State\<close>

datatype StorageMode = MEMORY | PERSISTENT

datatype ConnectionMode = SERVER | CLIENT

definition MB :: u64 where
  "MB = 1024 * 1024"

definition DEFAULT_MEMORY_SIZE :: u64 where
  "DEFAULT_MEMORY_SIZE = 500 * MB"

type_synonym seg_id = nat

text \<open>A managed segment: its size and the object named \<^verbatim>\<open>SharedMap\<close>, once constructed.\<close>

record segment =
  seg_size :: u64
  shared_map :: "string int_map option"

record os =
  shm_objects :: "string \<rightharpoonup> seg_id"
  files :: "(string \<times> seg_id) list"
  segments :: "seg_id \<Rightarrow> segment"
  disk :: "seg_id \<Rightarrow> segment"
  flush_requested :: "seg_id set"
  mutexes :: "string set"
  next_seg :: seg_id

record kv_store =
  persistent_file_path :: string
  mutex_name :: string
  shm_name :: string
  total_memory_size :: u64
  storage_mode :: StorageMode
  conn_mode :: ConnectionMode
  memory_storage :: "seg_id option"
  file_storage :: "seg_id option"
  memory_map_ptr :: "seg_id option"
  persistent_map_ptr :: "seg_id option"

record boost =
  get_free_memory :: "segment \<Rightarrow> u64"
  get_size :: "segment \<Rightarrow> u64"
  missing_text :: "string \<Rightarrow> string"
  exists_text :: "string \<Rightarrow> string"
  open_error :: "string \<Rightarrow> segment \<Rightarrow> string option"
  create_error :: "string \<Rightarrow> u64 \<Rightarrow> string option"
  construct_error :: "segment \<Rightarrow> string option"
  alloc_error :: "segment \<Rightarrow> string \<Rightarrow> string option"
  mutex_error :: "string \<Rightarrow> string option"
  remove_error :: "string \<Rightarrow> string option"
  flush_fails :: "segment \<Rightarrow> bool"

text \<open>\<^verbatim>\<open>bad_alloc\<close> of Boost is a subclass of \<^verbatim>\<open>interprocess_exception\<close>.\<close>

fun is_interprocess :: "exn \<Rightarrow> bool" where
  "is_interprocess (interprocess_exception s) = True"
| "is_interprocess (bad_alloc s) = True"
| "is_interprocess _ = False"

subsection \<open>Segments, files and mutexes\<close>

definition set_map :: "seg_id \<Rightarrow> string int_map option \<Rightarrow> os \<Rightarrow> os" where
  "set_map i m \<sigma> = \<sigma>\<lparr>segments := (segments \<sigma>)(i := (segments \<sigma> i)\<lparr>shared_map := m\<rparr>)\<rparr>"

text \<open>
  \<^verbatim>\<open>flush()\<close>, with the default arguments: whether the request was accepted, and the system after it.
\<close>

definition flush :: "boost \<Rightarrow> seg_id \<Rightarrow> os \<Rightarrow> bool \<times> os" where
  "flush b i \<sigma> =
     (if flush_fails b (segments \<sigma> i) then (False, \<sigma>)
      else (True, \<sigma>\<lparr>flush_requested := insert i (flush_requested \<sigma>)\<rparr>))"

text \<open>
  The operating system writes the pages of files back, when it chooses; what is written is what the
  mapping holds at that moment.
\<close>

definition write_back :: "seg_id set \<Rightarrow> os \<Rightarrow> os" where
  "write_back I \<sigma> =
     \<sigma>\<lparr>disk := (\<lambda>i. if i \<in> I then segments \<sigma> i else disk \<sigma> i), flush_requested := flush_requested \<sigma> - I\<rparr>"

text \<open>A path under the working directory and the name of the directory entry.\<close>

definition file_name :: "string \<Rightarrow> string" where
  "file_name path = (if take 2 path = ''./'' then drop 2 path else path)"

definition open_segment :: "boost \<Rightarrow> string \<Rightarrow> seg_id option \<Rightarrow> os \<Rightarrow> exn + seg_id" where
  "open_segment b name found \<sigma> =
     (case found of
        None \<Rightarrow> Inl (interprocess_exception (missing_text b name))
      | Some i \<Rightarrow>
          (case open_error b name (segments \<sigma> i) of
             Some e \<Rightarrow> Inl (interprocess_exception e)
           | None \<Rightarrow> Inr i))"

definition open_shm :: "boost \<Rightarrow> string \<Rightarrow> os \<Rightarrow> exn + seg_id" where
  "open_shm b name \<sigma> = open_segment b name (shm_objects \<sigma> name) \<sigma>"

definition open_file :: "boost \<Rightarrow> string \<Rightarrow> os \<Rightarrow> exn + seg_id" where
  "open_file b path \<sigma> = open_segment b path (map_of (files \<sigma>) (file_name path)) \<sigma>"

definition new_segment :: "u64 \<Rightarrow> os \<Rightarrow> seg_id \<times> os" where
  "new_segment sz \<sigma> =
     (next_seg \<sigma>,
      \<sigma>\<lparr>segments := (segments \<sigma>)(next_seg \<sigma> := \<lparr>seg_size = sz, shared_map = None\<rparr>),
        disk := (disk \<sigma>)(next_seg \<sigma> := \<lparr>seg_size = sz, shared_map = None\<rparr>),
        next_seg := Suc (next_seg \<sigma>)\<rparr>)"

definition create_shm :: "boost \<Rightarrow> string \<Rightarrow> u64 \<Rightarrow> os \<Rightarrow> exn + seg_id \<times> os" where
  "create_shm b name sz \<sigma> =
     (if shm_objects \<sigma> name \<noteq> None then Inl (interprocess_exception (exists_text b name))
      else case create_error b name sz of
        Some e \<Rightarrow> Inl (interprocess_exception e)
      | None \<Rightarrow>
          (let (i, \<sigma>) = new_segment sz \<sigma>
           in Inr (i, \<sigma>\<lparr>shm_objects := (shm_objects \<sigma>)(name \<mapsto> i)\<rparr>)))"

definition create_file :: "boost \<Rightarrow> string \<Rightarrow> u64 \<Rightarrow> os \<Rightarrow> exn + seg_id \<times> os" where
  "create_file b path sz \<sigma> =
     (if map_of (files \<sigma>) (file_name path) \<noteq> None then Inl (interprocess_exception (exists_text b path))
      else case create_error b path sz of
        Some e \<Rightarrow> Inl (interprocess_exception e)
      | None \<Rightarrow>
          (let (i, \<sigma>) = new_segment sz \<sigma>
           in Inr (i, \<sigma>\<lparr>files := AList.update (file_name path) i (files \<sigma>)\<rparr>)))"

definition remove_shm :: "string \<Rightarrow> os \<Rightarrow> os" where
  "remove_shm name \<sigma> = \<sigma>\<lparr>shm_objects := (shm_objects \<sigma>)(name := None)\<rparr>"

text \<open>\<^verbatim>\<open>std::filesystem::remove\<close>, which may throw; removing a missing file does nothing.\<close>

definition remove_file :: "boost \<Rightarrow> string \<Rightarrow> os \<Rightarrow> exn + os" where
  "remove_file b name \<sigma> =
     (case remove_error b name of
        Some e \<Rightarrow> Inl (filesystem_error e)
      | None \<Rightarrow> Inr (\<sigma>\<lparr>files := AList.delete name (files \<sigma>)\<rparr>))"

definition remove_mutex :: "string \<Rightarrow> os \<Rightarrow> os" where
  "remove_mutex name \<sigma> = \<sigma>\<lparr>mutexes := mutexes \<sigma> - {name}\<rparr>"

definition open_or_create_mutex :: "boost \<Rightarrow> string \<Rightarrow> os \<Rightarrow> exn + os" where
  "open_or_create_mutex b name \<sigma> =
     (case mutex_error b name of
        Some e \<Rightarrow> Inl (interprocess_exception e)
      | None \<Rightarrow> Inr (\<sigma>\<lparr>mutexes := insert name (mutexes \<sigma>)\<rparr>))"

subsection \<open>The current segment and its memory\<close>

definition storage :: "kv_store \<Rightarrow> seg_id option" where
  "storage s = (case storage_mode s of MEMORY \<Rightarrow> memory_storage s | PERSISTENT \<Rightarrow> file_storage s)"

definition map_ptr :: "kv_store \<Rightarrow> seg_id option" where
  "map_ptr s = (case storage_mode s of MEMORY \<Rightarrow> memory_map_ptr s | PERSISTENT \<Rightarrow> persistent_map_ptr s)"

text \<open>The entries behind a map pointer.\<close>

definition map_at :: "seg_id \<Rightarrow> os \<Rightarrow> string int_map" where
  "map_at p \<sigma> = (case shared_map (segments \<sigma> p) of None \<Rightarrow> [] | Some m \<Rightarrow> m)"

text \<open>The result of \<^verbatim>\<open>flush()\<close> is not read.\<close>

definition Sync :: "boost \<Rightarrow> kv_store \<Rightarrow> os \<Rightarrow> os" where
  "Sync b s \<sigma> =
     (case storage_mode s of
        MEMORY \<Rightarrow> \<sigma>
      | PERSISTENT \<Rightarrow> (case file_storage s of None \<Rightarrow> \<sigma> | Some i \<Rightarrow> snd (flush b i \<sigma>)))"

record MemoryStats =
  total_size :: u64
  used_memory :: u64
  free_memory :: u64

text \<open>The statistics without the percentage, a \<^verbatim>\<open>double\<close> that is only printed.\<close>

definition GetMemoryStats :: "boost \<Rightarrow> kv_store \<Rightarrow> os \<Rightarrow> MemoryStats" where
  "GetMemoryStats b s \<sigma> =
     (case storage s of
        None \<Rightarrow> \<lparr>total_size = 0, used_memory = 0, free_memory = 0\<rparr>
      | Some i \<Rightarrow>
          (let total = get_size b (segments \<sigma> i); free = get_free_memory b (segments \<sigma> i)
           in \<lparr>total_size = total, used_memory = total - free, free_memory = free\<rparr>))"

definition GetFreeMemory :: "boost \<Rightarrow> kv_store \<Rightarrow> os \<Rightarrow> u64" where
  "GetFreeMemory b s \<sigma> = (case storage s of None \<Rightarrow> 0 | Some i \<Rightarrow> get_free_memory b (segments \<sigma> i))"

definition GetUsedMemory :: "boost \<Rightarrow> kv_store \<Rightarrow> os \<Rightarrow> u64" where
  "GetUsedMemory b s \<sigma> = total_memory_size s - GetFreeMemory b s \<sigma>"

definition hasEnoughMemory :: "boost \<Rightarrow> kv_store \<Rightarrow> os \<Rightarrow> u64 \<Rightarrow> bool" where
  "hasEnoughMemory b s \<sigma> needed_bytes \<longleftrightarrow> needed_bytes * 2 \<le> GetFreeMemory b s \<sigma>"

subsection \<open>Insert, update, delete, find\<close>

text \<open>The line an operation prints before it returns.\<close>

datatype report =
    MapNotFound
  | NotEnoughMemory
  | KeyExists
  | KeyNotFound
  | Inserted
  | Updated
  | Deleted
  | Failed exn

text \<open>\<^verbatim>\<open>value.c_str()\<close>: what a constructor from a C string reads.\<close>

definition c_str :: "string \<Rightarrow> string" where
  "c_str v = takeWhile (\<lambda>c. c \<noteq> CHR 0x00) v"

definition string_size :: "string \<Rightarrow> u64" where
  "string_size v = of_nat (length v)"

definition mutex_missing :: "boost \<Rightarrow> kv_store \<Rightarrow> exn" where
  "mutex_missing b s = interprocess_exception (missing_text b (mutex_name s))"

definition Insert :: "boost \<Rightarrow> kv_store \<Rightarrow> key \<Rightarrow> string \<Rightarrow> os \<Rightarrow> report \<times> os" where
  "Insert b s key v \<sigma> =
     (case map_ptr s of
        None \<Rightarrow> (MapNotFound, \<sigma>)
      | Some p \<Rightarrow>
          if mutex_name s \<notin> mutexes \<sigma> then (Failed (mutex_missing b s), \<sigma>)
          else if \<not> hasEnoughMemory b s \<sigma> (string_size v + 4 + 64) then (NotEnoughMemory, \<sigma>)
          else if lookup (map_at p \<sigma>) key \<noteq> None then (KeyExists, \<sigma>)
          else case alloc_error b (segments \<sigma> p) (c_str v) of
            Some e \<Rightarrow> (Failed (bad_alloc e), \<sigma>)
          | None \<Rightarrow> (Inserted, Sync b s (set_map p (Some (AList.update key (c_str v) (map_at p \<sigma>))) \<sigma>)))"

definition Update :: "boost \<Rightarrow> kv_store \<Rightarrow> key \<Rightarrow> string \<Rightarrow> os \<Rightarrow> report \<times> os" where
  "Update b s key new_value \<sigma> =
     (case map_ptr s of
        None \<Rightarrow> (MapNotFound, \<sigma>)
      | Some p \<Rightarrow>
          if mutex_name s \<notin> mutexes \<sigma> then (Failed (mutex_missing b s), \<sigma>)
          else case lookup (map_at p \<sigma>) key of
            None \<Rightarrow> (KeyNotFound, \<sigma>)
          | Some old \<Rightarrow>
              (let old_size = string_size (c_str old); new_size = string_size new_value;
                   size_diff = (if old_size < new_size then new_size - old_size else 0)
               in if 0 < size_diff \<and> \<not> hasEnoughMemory b s \<sigma> size_diff then (NotEnoughMemory, \<sigma>)
                  else case alloc_error b (segments \<sigma> p) (c_str new_value) of
                    Some e \<Rightarrow> (Failed (bad_alloc e), \<sigma>)
                  | None \<Rightarrow>
                      (Updated,
                       Sync b s (set_map p (Some (AList.update key (c_str new_value) (map_at p \<sigma>))) \<sigma>))))"

definition Delete :: "boost \<Rightarrow> kv_store \<Rightarrow> key \<Rightarrow> os \<Rightarrow> report \<times> os" where
  "Delete b s key \<sigma> =
     (case map_ptr s of
        None \<Rightarrow> (MapNotFound, \<sigma>)
      | Some p \<Rightarrow>
          if mutex_name s \<notin> mutexes \<sigma> then (Failed (mutex_missing b s), \<sigma>)
          else case lookup (map_at p \<sigma>) key of
            None \<Rightarrow> (KeyNotFound, \<sigma>)
          | Some _ \<Rightarrow> (Deleted, Sync b s (set_map p (Some (AList.delete key (map_at p \<sigma>))) \<sigma>)))"

definition Find :: "boost \<Rightarrow> kv_store \<Rightarrow> key \<Rightarrow> os \<Rightarrow> string" where
  "Find b s key \<sigma> =
     (case map_ptr s of
        None \<Rightarrow> ''Map not found''
      | Some p \<Rightarrow>
          if mutex_name s \<notin> mutexes \<sigma> then ''Error: '' @ what (mutex_missing b s)
          else case lookup (map_at p \<sigma>) key of
            None \<Rightarrow> ''key not found''
          | Some v \<Rightarrow> c_str v)"

definition GetMapSize :: "kv_store \<Rightarrow> os \<Rightarrow> u64" where
  "GetMapSize s \<sigma> =
     (case map_ptr s of
        None \<Rightarrow> 0
      | Some p \<Rightarrow> if mutex_name s \<notin> mutexes \<sigma> then 0 else of_nat (length (map_at p \<sigma>)))"

text \<open>The pairs that are listed, or \<open>None\<close> where only an error is printed.\<close>

definition ListAllKeys :: "kv_store \<Rightarrow> os \<Rightarrow> (key \<times> string) list option" where
  "ListAllKeys s \<sigma> =
     (case map_ptr s of
        None \<Rightarrow> None
      | Some p \<Rightarrow>
          if mutex_name s \<notin> mutexes \<sigma> then None
          else Some (map (\<lambda>(k, v). (k, c_str v)) (map_at p \<sigma>)))"

end
