(* ===== verification/StoreContract.thy ===== *)
theory StoreContract
  imports KvStore
begin

text \<open>
  What a key-value store promises to whoever uses it: an abstract machine over a finite map whose
  steps are labelled with the command and the reported outcome, and the interface \<open>key_value_store\<close>
  of an implementation that simulates it. The client lemmas are proved once, inside the interface.
\<close>

subsection \<open>The abstract machine\<close>

datatype kv_command =
    InsertCmd key string
  | UpdateCmd key string
  | DeleteCmd key

fun command_key :: "kv_command \<Rightarrow> key" where
  "command_key (InsertCmd k v) = k"
| "command_key (UpdateCmd k v) = k"
| "command_key (DeleteCmd k) = k"

inductive kv_step :: "(key \<rightharpoonup> string) \<Rightarrow> kv_command \<Rightarrow> report \<Rightarrow> (key \<rightharpoonup> string) \<Rightarrow> bool" where
  insert_new: "m k = None \<Longrightarrow> kv_step m (InsertCmd k v) Inserted (m(k \<mapsto> c_str v))"
| insert_exists: "m k \<noteq> None \<Longrightarrow> kv_step m (InsertCmd k v) KeyExists m"
| insert_no_memory: "kv_step m (InsertCmd k v) NotEnoughMemory m"
| insert_failed: "m k = None \<Longrightarrow> kv_step m (InsertCmd k v) (Failed e) m"
| update_known: "m k \<noteq> None \<Longrightarrow> kv_step m (UpdateCmd k v) Updated (m(k \<mapsto> c_str v))"
| update_unknown: "m k = None \<Longrightarrow> kv_step m (UpdateCmd k v) KeyNotFound m"
| update_no_memory: "m k \<noteq> None \<Longrightarrow> kv_step m (UpdateCmd k v) NotEnoughMemory m"
| update_failed: "m k \<noteq> None \<Longrightarrow> kv_step m (UpdateCmd k v) (Failed e) m"
| delete_known: "m k \<noteq> None \<Longrightarrow> kv_step m (DeleteCmd k) Deleted (m(k := None))"
| delete_unknown: "m k = None \<Longrightarrow> kv_step m (DeleteCmd k) KeyNotFound m"

inductive_cases kv_step_InsertE: "kv_step m (InsertCmd k v) r m'"
inductive_cases kv_step_UpdateE: "kv_step m (UpdateCmd k v) r m'"
inductive_cases kv_step_DeleteE: "kv_step m (DeleteCmd k) r m'"

inductive_simps kv_step_Inserted: "kv_step m c Inserted m'"
inductive_simps kv_step_Updated: "kv_step m c Updated m'"
inductive_simps kv_step_Deleted: "kv_step m c Deleted m'"

inductive kv_run :: "(key \<rightharpoonup> string) \<Rightarrow> (kv_command \<times> report) list \<Rightarrow> (key \<rightharpoonup> string) \<Rightarrow> bool" where
  run_nil: "kv_run m [] m"
| run_cons: "kv_step m c r m' \<Longrightarrow> kv_run m' tr m'' \<Longrightarrow> kv_run m ((c, r) # tr) m''"

inductive_simps kv_run_Nil [simp]: "kv_run m [] m'"
inductive_simps kv_run_Cons: "kv_run m (x # tr) m'"

text \<open>The effect of an accepted command on the map.\<close>

fun effect :: "kv_command \<times> report \<Rightarrow> (key \<rightharpoonup> string) \<Rightarrow> (key \<rightharpoonup> string)" where
  "effect (InsertCmd k v, Inserted) m = m(k \<mapsto> c_str v)"
| "effect (UpdateCmd k v, Updated) m = m(k \<mapsto> c_str v)"
| "effect (DeleteCmd k, Deleted) m = m(k := None)"
| "effect _ m = m"

lemma kv_step_effect: "kv_step m c r m' \<Longrightarrow> m' = effect (c, r) m"
  by (induction rule: kv_step.induct) auto

lemma kv_run_effect: "kv_run m tr m' \<Longrightarrow> m' = fold effect tr m"
  by (induction rule: kv_run.induct) (auto dest: kv_step_effect)

lemma effect_other: "command_key (fst x) \<noteq> k \<Longrightarrow> effect x m k = m k"
  by (cases x; induction x m rule: effect.induct) auto

lemma fold_effect_other: "k \<notin> command_key ` fst ` set tr \<Longrightarrow> fold effect tr m k = m k"
  by (induction tr arbitrary: m) (auto simp: effect_other)

text \<open>The abstract machine is deterministic in the outcome it reports.\<close>

lemma kv_step_deterministic: "kv_step m c r m1 \<Longrightarrow> kv_step m c r m2 \<Longrightarrow> m1 = m2"
  by (metis kv_step_effect)

subsection \<open>The interface\<close>

fun run_commands :: "(kv_command \<Rightarrow> 'w \<Rightarrow> report \<times> 'w) \<Rightarrow> kv_command list \<Rightarrow> 'w \<Rightarrow> report list \<times> 'w" where
  "run_commands ex [] w = ([], w)"
| "run_commands ex (c # cs) w =
     (let (r, w') = ex c w; (rs, w'') = run_commands ex cs w' in (r # rs, w''))"

locale key_value_store =
  fixes inv :: "'w \<Rightarrow> bool"
    and contents :: "'w \<Rightarrow> key \<Rightarrow> string option"
    and exec :: "kv_command \<Rightarrow> 'w \<Rightarrow> report \<times> 'w"
    and fnd :: "key \<Rightarrow> 'w \<Rightarrow> string"
  assumes exec_inv: "inv w \<Longrightarrow> inv (snd (exec c w))"
    and exec_step: "inv w \<Longrightarrow> kv_step (contents w) c (fst (exec c w)) (contents (snd (exec c w)))"
    and fnd_contents: "inv w \<Longrightarrow> fnd k w = (case contents w k of None \<Rightarrow> ''key not found'' | Some v \<Rightarrow> v)"
begin

lemma run_inv: "inv w \<Longrightarrow> inv (snd (run_commands exec cs w))"
proof (induction cs arbitrary: w)
  case (Cons c cs)
  have "inv (snd (exec c w))" using Cons.prems by (rule exec_inv)
  from Cons.IH [OF this] show ?case by (auto simp: Let_def split: prod.split)
qed simp

lemma run_refines:
  "inv w \<Longrightarrow> kv_run (contents w) (zip cs (fst (run_commands exec cs w))) (contents (snd (run_commands exec cs w)))"
proof (induction cs arbitrary: w)
  case (Cons c cs)
  obtain r w' where ex: "exec c w = (r, w')" by (cases "exec c w")
  from exec_inv [OF Cons.prems, of c] exec_step [OF Cons.prems, of c] ex
  have "inv w'" "kv_step (contents w) c r (contents w')" by simp_all
  with Cons.IH [of w'] ex show ?case
    by (auto simp: Let_def kv_run_Cons split: prod.split)
qed simp

lemma run_contents:
  "inv w \<Longrightarrow> contents (snd (run_commands exec cs w)) = fold effect (zip cs (fst (run_commands exec cs w))) (contents w)"
  by (rule kv_run_effect [OF run_refines])

lemma run_frame:
  assumes "inv w" "k \<notin> command_key ` set cs"
  shows "fnd k (snd (run_commands exec cs w)) = fnd k w"
proof -
  have "k \<notin> command_key ` fst ` set (zip cs (fst (run_commands exec cs w)))"
    using assms(2) by (auto dest: set_zip_leftD)
  from fold_effect_other [OF this, of "contents w"] show ?thesis
    using assms(1) by (simp add: fnd_contents run_inv run_contents)
qed

lemma write_then_find:
  assumes "inv w" "fst (exec c w) = Inserted \<and> c = InsertCmd k v \<or> fst (exec c w) = Updated \<and> c = UpdateCmd k v"
    and "k \<notin> command_key ` set cs"
  shows "fnd k (snd (run_commands exec cs (snd (exec c w)))) = c_str v"
proof -
  have i: "inv (snd (exec c w))" using assms(1) by (rule exec_inv)
  have "contents (snd (exec c w)) k = Some (c_str v)"
    using exec_step [OF assms(1), of c] assms(2) by (auto simp: kv_step_Inserted kv_step_Updated)
  with i run_frame [OF i assms(3)] show ?thesis by (simp add: fnd_contents)
qed

end

end
