(* ===== verification/KvLifecycle.thy ===== *)
theory KvLifecycle
  imports KvStore
begin

text \<open>
  The life of a store in \<^verbatim>\<open>src/KVStore.cpp\<close>: the constructor with its two levels of recovery,
  the four ways to create or open the storage, \<^verbatim>\<open>cleanupStorage\<close>, the destructor and the singleton
  \<^verbatim>\<open>get_instance\<close>. A step changes the object and the operating system and may throw.
\<close>

type_synonym world = "kv_store \<times> os"
type_synonym 'a step = "world \<Rightarrow> (exn + 'a) \<times> world"

definition andThen :: "'a step \<Rightarrow> 'b step \<Rightarrow> 'b step" where
  "andThen f g w = (case f w of (Inl e, w') \<Rightarrow> (Inl e, w') | (Inr _, w') \<Rightarrow> g w')"

text \<open>\<^verbatim>\<open>try { f } catch(const interprocess_exception &e) { h }\<close>\<close>

definition catch_interprocess :: "'a step \<Rightarrow> (exn \<Rightarrow> 'a step) \<Rightarrow> 'a step" where
  "catch_interprocess f h w =
     (case f w of
        (Inl e, w') \<Rightarrow> if is_interprocess e then h e w' else (Inl e, w')
      | (Inr x, w') \<Rightarrow> (Inr x, w'))"

subsection \<open>Names\<close>

definition default_file_path :: string where
  "default_file_path = ''./kvstore_persistent.dat''"

definition initial_store :: "u64 \<Rightarrow> StorageMode \<Rightarrow> ConnectionMode \<Rightarrow> kv_store" where
  "initial_store sz mode conn =
     \<lparr>persistent_file_path = default_file_path, mutex_name = ''SharedMapMutex'', shm_name = ''Project'',
      total_memory_size = sz, storage_mode = mode, conn_mode = conn,
      memory_storage = None, file_storage = None, memory_map_ptr = None, persistent_map_ptr = None\<rparr>"

definition tag_names :: "string \<Rightarrow> kv_store \<Rightarrow> kv_store" where
  "tag_names node_tag s =
     (if node_tag = [] then s
      else s\<lparr>shm_name := ''Project_'' @ node_tag,
             persistent_file_path := ''./kvstore_persistent_'' @ node_tag @ ''.dat'',
             mutex_name := ''SharedMapMutex_'' @ node_tag\<rparr>)"

subsection \<open>Creating and connecting\<close>

text \<open>
  The probe of an existing shared memory only prints, and its exception is caught; then the name
  is removed. The segment survives a failed construction of the map.
\<close>

definition createMemoryStorage :: "boost \<Rightarrow> u64 \<Rightarrow> unit step" where
  "createMemoryStorage b sz w =
     (let (s, \<sigma>) = w; \<sigma> = remove_shm (shm_name s) \<sigma> in
      case create_shm b (shm_name s) sz \<sigma> of
        Inl e \<Rightarrow> (Inl e, (s, \<sigma>))
      | Inr (i, \<sigma>) \<Rightarrow>
          (let s = s\<lparr>memory_storage := Some i\<rparr> in
           case construct_error b (segments \<sigma> i) of
             Some e \<Rightarrow> (Inl (bad_alloc e), (s, \<sigma>))
           | None \<Rightarrow> (Inr (), (s\<lparr>memory_map_ptr := Some i\<rparr>, set_map i (Some []) \<sigma>))))"

definition createNewFile :: "boost \<Rightarrow> u64 \<Rightarrow> unit step" where
  "createNewFile b sz w =
     (let (s, \<sigma>) = w in
      case create_file b (persistent_file_path s) sz \<sigma> of
        Inl e \<Rightarrow> (Inl e, (s, \<sigma>))
      | Inr (i, \<sigma>) \<Rightarrow>
          (let s = s\<lparr>file_storage := Some i\<rparr> in
           case construct_error b (segments \<sigma> i) of
             Some e \<Rightarrow> (Inl (bad_alloc e), (s, \<sigma>))
           | None \<Rightarrow>
               (Inr (), (s\<lparr>persistent_map_ptr := Some i\<rparr>, snd (flush b i (set_map i (Some []) \<sigma>))))))"

text \<open>The existing map of the file, where it opens and has one.\<close>

definition existing_map :: "boost \<Rightarrow> kv_store \<Rightarrow> os \<Rightarrow> seg_id option" where
  "existing_map b s \<sigma> =
     (case open_file b (persistent_file_path s) \<sigma> of
        Inl e \<Rightarrow> None
      | Inr i \<Rightarrow> (case shared_map (segments \<sigma> i) of None \<Rightarrow> None | Some m \<Rightarrow> Some i))"

definition createPersistentStorage :: "boost \<Rightarrow> u64 \<Rightarrow> unit step" where
  "createPersistentStorage b sz w =
     (let (s, \<sigma>) = w; file_exists = (map_of (files \<sigma>) (file_name (persistent_file_path s)) \<noteq> None) in
      case (if file_exists then existing_map b s \<sigma> else None) of
        Some i \<Rightarrow> (Inr (), (s\<lparr>file_storage := Some i, persistent_map_ptr := Some i\<rparr>, \<sigma>))
      | None \<Rightarrow>
          if file_exists then
            (let s = s\<lparr>file_storage := None\<rparr> in
             case remove_file b (file_name (persistent_file_path s)) \<sigma> of
               Inl e \<Rightarrow> (Inl e, (s, \<sigma>))
             | Inr \<sigma> \<Rightarrow> createNewFile b sz (s, \<sigma>))
          else createNewFile b sz (s, \<sigma>))"

definition connectToMemoryStorage :: "boost \<Rightarrow> unit step" where
  "connectToMemoryStorage b w =
     (let (s, \<sigma>) = w in
      case open_shm b (shm_name s) \<sigma> of
        Inl e \<Rightarrow> (Inl e, (s, \<sigma>))
      | Inr i \<Rightarrow>
          (let s = s\<lparr>memory_storage := Some i\<rparr> in
           if shared_map (segments \<sigma> i) \<noteq> None then (Inr (), (s\<lparr>memory_map_ptr := Some i\<rparr>, \<sigma>))
           else (Inl (interprocess_exception ''SharedMap not found in existing shared memory''), (s, \<sigma>))))"

definition connectToPersistentStorage :: "boost \<Rightarrow> unit step" where
  "connectToPersistentStorage b w =
     (let (s, \<sigma>) = w in
      if map_of (files \<sigma>) (file_name (persistent_file_path s)) = None
      then (Inl (interprocess_exception ''Persistent file does not exist''), (s, \<sigma>))
      else case open_file b (persistent_file_path s) \<sigma> of
        Inl e \<Rightarrow> (Inl e, (s, \<sigma>))
      | Inr i \<Rightarrow>
          (let s = s\<lparr>file_storage := Some i\<rparr> in
           if shared_map (segments \<sigma> i) \<noteq> None then (Inr (), (s\<lparr>persistent_map_ptr := Some i\<rparr>, \<sigma>))
           else (Inl (interprocess_exception ''SharedMap not found in existing persistent storage''), (s, \<sigma>))))"

subsection \<open>Cleaning up\<close>

definition ends_with :: "string \<Rightarrow> string \<Rightarrow> bool" where
  "ends_with p s \<longleftrightarrow> length p \<le> length s \<and> drop (length s - length p) s = p"

definition local_store_file :: "string \<Rightarrow> bool" where
  "local_store_file f \<longleftrightarrow> starts_with ''local_store_node_'' f \<and> ends_with ''.dat'' f"

text \<open>
  Removes the files that are there, up to the first error, which is caught: what was removed
  before it stays removed.
\<close>

fun remove_until_error :: "boost \<Rightarrow> string list \<Rightarrow> os \<Rightarrow> os" where
  "remove_until_error b [] \<sigma> = \<sigma>"
| "remove_until_error b (f # fs) \<sigma> =
     (if map_of (files \<sigma>) f \<noteq> None then
        (case remove_file b f \<sigma> of Inl e \<Rightarrow> \<sigma> | Inr \<sigma> \<Rightarrow> remove_until_error b fs \<sigma>)
      else remove_until_error b fs \<sigma>)"

definition cleanupStorage :: "boost \<Rightarrow> unit step" where
  "cleanupStorage b w =
     (let (s, \<sigma>) = w in
      case storage_mode s of
        MEMORY \<Rightarrow>
          (let \<sigma> = remove_shm (shm_name s) \<sigma>;
               listed = filter local_store_file (map fst (files \<sigma>))
           in (Inr (), (s, remove_until_error b (''mappings.txt'' # ''local_store_node_0.dat'' # listed) \<sigma>)))
      | PERSISTENT \<Rightarrow>
          (let f = file_name (persistent_file_path s) in
           if map_of (files \<sigma>) f \<noteq> None then
             (case remove_file b f \<sigma> of Inl e \<Rightarrow> (Inl e, (s, \<sigma>)) | Inr \<sigma> \<Rightarrow> (Inr (), (s, \<sigma>)))
           else (Inr (), (s, \<sigma>))))"

subsection \<open>The constructor\<close>

definition open_mutex_step :: "boost \<Rightarrow> unit step" where
  "open_mutex_step b w =
     (let (s, \<sigma>) = w in
      case open_or_create_mutex b (mutex_name s) \<sigma> of
        Inl e \<Rightarrow> (Inl e, (s, \<sigma>))
      | Inr \<sigma> \<Rightarrow> (Inr (), (s, \<sigma>)))"

definition remove_mutex_step :: "unit step" where
  "remove_mutex_step w = (let (s, \<sigma>) = w in (Inr (), (s, remove_mutex (mutex_name s) \<sigma>)))"

definition create_storage :: "boost \<Rightarrow> u64 \<Rightarrow> unit step" where
  "create_storage b sz w =
     (case storage_mode (fst w) of
        MEMORY \<Rightarrow> createMemoryStorage b sz w
      | PERSISTENT \<Rightarrow> createPersistentStorage b sz w)"

definition connect_storage :: "boost \<Rightarrow> unit step" where
  "connect_storage b w =
     (case storage_mode (fst w) of
        MEMORY \<Rightarrow> connectToMemoryStorage b w
      | PERSISTENT \<Rightarrow> connectToPersistentStorage b w)"

definition try_block :: "boost \<Rightarrow> u64 \<Rightarrow> ConnectionMode \<Rightarrow> unit step" where
  "try_block b sz conn =
     (case conn of
        SERVER \<Rightarrow> andThen (create_storage b sz) (andThen remove_mutex_step (open_mutex_step b))
      | CLIENT \<Rightarrow> andThen (connect_storage b) (open_mutex_step b))"

text \<open>The inner \<^verbatim>\<open>try\<close>: opens what exists; the map pointer stays null where there is no map.\<close>

definition reopen_existing :: "boost \<Rightarrow> unit step" where
  "reopen_existing b w =
     (let (s, \<sigma>) = w in
      case storage_mode s of
        MEMORY \<Rightarrow>
          (case open_shm b (shm_name s) \<sigma> of
             Inl e \<Rightarrow> (Inl e, (s, \<sigma>))
           | Inr i \<Rightarrow>
               (Inr (), (s\<lparr>memory_storage := Some i,
                  memory_map_ptr := (if shared_map (segments \<sigma> i) = None then None else Some i)\<rparr>, \<sigma>)))
      | PERSISTENT \<Rightarrow>
          (case open_file b (persistent_file_path s) \<sigma> of
             Inl e \<Rightarrow> (Inl e, (s, \<sigma>))
           | Inr i \<Rightarrow>
               (Inr (), (s\<lparr>file_storage := Some i,
                  persistent_map_ptr := (if shared_map (segments \<sigma> i) = None then None else Some i)\<rparr>, \<sigma>))))"

definition recreate_all :: "boost \<Rightarrow> u64 \<Rightarrow> unit step" where
  "recreate_all b sz =
     andThen (cleanupStorage b) (andThen remove_mutex_step (andThen (create_storage b sz) (open_mutex_step b)))"

definition recover :: "boost \<Rightarrow> u64 \<Rightarrow> ConnectionMode \<Rightarrow> exn \<Rightarrow> unit step" where
  "recover b sz conn e w =
     (case conn of
        CLIENT \<Rightarrow> (Inl e, w)
      | SERVER \<Rightarrow> catch_interprocess (reopen_existing b) (\<lambda>e2. recreate_all b sz) w)"

definition new_store :: "boost \<Rightarrow> u64 \<Rightarrow> StorageMode \<Rightarrow> ConnectionMode \<Rightarrow> string \<Rightarrow> os \<Rightarrow> (exn + kv_store) \<times> os" where
  "new_store b sz mode conn node_tag \<sigma> =
     (case catch_interprocess (try_block b sz conn) (recover b sz conn)
             (tag_names node_tag (initial_store sz mode conn), \<sigma>) of
        (Inl e, (s, \<sigma>)) \<Rightarrow> (Inl e, \<sigma>)
      | (Inr _, (s, \<sigma>)) \<Rightarrow> (Inr s, \<sigma>))"

text \<open>The static instance is constructed by the first call; later calls ignore their arguments.\<close>

definition get_instance ::
  "boost \<Rightarrow> kv_store option \<Rightarrow> u64 \<Rightarrow> StorageMode \<Rightarrow> ConnectionMode \<Rightarrow> string \<Rightarrow> os \<Rightarrow> (exn + kv_store) \<times> os" where
  "get_instance b inst sz mode conn node_tag \<sigma> =
     (case inst of
        Some s \<Rightarrow> (Inr s, \<sigma>)
      | None \<Rightarrow> new_store b (if 0 < sz then sz else DEFAULT_MEMORY_SIZE) mode conn node_tag \<sigma>)"

subsection \<open>The destructor\<close>

text \<open>The operating system after \<^verbatim>\<open>~KvStore\<close>; exceptions are caught inside.\<close>

definition destroy_store :: "boost \<Rightarrow> kv_store \<Rightarrow> os \<Rightarrow> os" where
  "destroy_store b s \<sigma> =
     (case conn_mode s of
        CLIENT \<Rightarrow> \<sigma>
      | SERVER \<Rightarrow>
          (let \<sigma> = (case storage_mode s of
                MEMORY \<Rightarrow>
                  (case memory_storage s of
                     None \<Rightarrow> \<sigma>
                   | Some i \<Rightarrow>
                       (let \<sigma> = (if memory_map_ptr s \<noteq> None then set_map i None \<sigma> else \<sigma>)
                        in snd (snd (cleanupStorage b (s, \<sigma>)))))
              | PERSISTENT \<Rightarrow>
                  (case file_storage s of
                     None \<Rightarrow> \<sigma>
                   | Some i \<Rightarrow> (if persistent_map_ptr s \<noteq> None then set_map i None (snd (flush b i \<sigma>)) else \<sigma>)))
           in remove_mutex (mutex_name s) \<sigma>))"

end
