(* ===== verification/KvLife.thy ===== *)
theory KvLife
  imports KvGuarantees
begin

text \<open>
  What the constructor, the destructor and a crash do to the entries of a store, evaluated once
  for each way of starting, on a system where Boost and the file system raise no error
  (\<open>reliable\<close>; the sizes it reports and the failures of allocations stay arbitrary).
\<close>

definition reliable :: "boost \<Rightarrow> bool" where
  "reliable b \<longleftrightarrow> (\<forall>n g. open_error b n g = None) \<and> (\<forall>n z. create_error b n z = None)
     \<and> (\<forall>g. construct_error b g = None) \<and> (\<forall>n. mutex_error b n = None) \<and> (\<forall>n. remove_error b n = None)"

definition named_store :: "u64 \<Rightarrow> StorageMode \<Rightarrow> ConnectionMode \<Rightarrow> string \<Rightarrow> kv_store" where
  "named_store sz mode conn tag = tag_names tag (initial_store sz mode conn)"

lemma named_store_simps [simp]:
  "storage_mode (named_store sz mode conn tag) = mode"
  "conn_mode (named_store sz mode conn tag) = conn"
  "memory_storage (named_store sz mode conn tag) = None"
  "file_storage (named_store sz mode conn tag) = None"
  "memory_map_ptr (named_store sz mode conn tag) = None"
  "persistent_map_ptr (named_store sz mode conn tag) = None"
  by (simp_all add: named_store_def tag_names_def initial_store_def)

definition data_file :: "string \<Rightarrow> string" where
  "data_file tag = file_name (persistent_file_path (named_store 0 PERSISTENT SERVER tag))"

definition shm_of :: "string \<Rightarrow> string" where
  "shm_of tag = shm_name (named_store 0 MEMORY SERVER tag)"

definition mutex_of :: "string \<Rightarrow> string" where
  "mutex_of tag = mutex_name (named_store 0 MEMORY SERVER tag)"

lemma names_named_store [simp]:
  "file_name (persistent_file_path (named_store sz mode conn tag)) = data_file tag"
  "shm_name (named_store sz mode conn tag) = shm_of tag"
  "mutex_name (named_store sz mode conn tag) = mutex_of tag"
  by (simp_all add: data_file_def shm_of_def mutex_of_def named_store_def tag_names_def initial_store_def)

lemma new_store_named:
  "new_store b sz mode conn tag \<sigma> =
     (case catch_interprocess (try_block b sz conn) (recover b sz conn) (named_store sz mode conn tag, \<sigma>) of
        (Inl e, (s, \<sigma>)) \<Rightarrow> (Inl e, \<sigma>)
      | (Inr _, (s, \<sigma>)) \<Rightarrow> (Inr s, \<sigma>))"
  by (simp add: new_store_def named_store_def)

lemmas start_defs = new_store_named catch_interprocess_def try_block_def andThen_def create_storage_def
  connect_storage_def remove_mutex_step_def open_mutex_step_def open_or_create_mutex_def remove_mutex_def

lemma shm_open_reliable:
  "reliable b \<Longrightarrow> open_shm b n \<sigma> =
     (case shm_objects \<sigma> n of None \<Rightarrow> Inl (interprocess_exception (missing_text b n)) | Some i \<Rightarrow> Inr i)"
  by (simp add: open_shm_def open_segment_def reliable_def split: option.split)

lemma file_open_reliable:
  "reliable b \<Longrightarrow> open_file b n \<sigma> =
     (case map_of (files \<sigma>) (file_name n) of
        None \<Rightarrow> Inl (interprocess_exception (missing_text b n)) | Some i \<Rightarrow> Inr i)"
  by (simp add: open_file_def open_segment_def reliable_def split: option.split)

subsection \<open>Starting a server\<close>

definition fresh_memory :: "u64 \<Rightarrow> string \<Rightarrow> os \<Rightarrow> os" where
  "fresh_memory sz tag \<sigma> =
     \<sigma>\<lparr>shm_objects := (shm_objects \<sigma>)(shm_of tag \<mapsto> next_seg \<sigma>),
       segments := (segments \<sigma>)(next_seg \<sigma> := \<lparr>seg_size = sz, shared_map = Some []\<rparr>),
       disk := (disk \<sigma>)(next_seg \<sigma> := \<lparr>seg_size = sz, shared_map = None\<rparr>),
       mutexes := insert (mutex_of tag) (mutexes \<sigma>), next_seg := Suc (next_seg \<sigma>)\<rparr>"

lemma new_memory_server:
  "reliable b \<Longrightarrow> new_store b sz MEMORY SERVER tag \<sigma> =
     (Inr ((named_store sz MEMORY SERVER tag)
        \<lparr>memory_storage := Some (next_seg \<sigma>), memory_map_ptr := Some (next_seg \<sigma>)\<rparr>),
      fresh_memory sz tag \<sigma>)"
  by (simp add: start_defs createMemoryStorage_def Let_def create_shm_def remove_shm_def new_segment_def
      reliable_def set_map_def fresh_memory_def)

definition fresh_file :: "boost \<Rightarrow> u64 \<Rightarrow> string \<Rightarrow> os \<Rightarrow> os" where
  "fresh_file b sz tag \<sigma> =
     snd (flush b (next_seg \<sigma>)
       (\<sigma>\<lparr>files := AList.update (data_file tag) (next_seg \<sigma>) (AList.delete (data_file tag) (files \<sigma>)),
          segments := (segments \<sigma>)(next_seg \<sigma> := \<lparr>seg_size = sz, shared_map = Some []\<rparr>),
          disk := (disk \<sigma>)(next_seg \<sigma> := \<lparr>seg_size = sz, shared_map = None\<rparr>),
          mutexes := insert (mutex_of tag) (mutexes \<sigma>), next_seg := Suc (next_seg \<sigma>)\<rparr>))"

lemma new_persistent_fresh:
  assumes "reliable b"
    and "\<And>i. map_of (files \<sigma>) (data_file tag) = Some i \<Longrightarrow> shared_map (segments \<sigma> i) = None"
  shows "new_store b sz PERSISTENT SERVER tag \<sigma> =
     (Inr ((named_store sz PERSISTENT SERVER tag)
        \<lparr>file_storage := Some (next_seg \<sigma>), persistent_map_ptr := Some (next_seg \<sigma>)\<rparr>),
      fresh_file b sz tag \<sigma>)"
proof (cases "map_of (files \<sigma>) (data_file tag)")
  case None
  then have "data_file tag \<notin> fst ` set (files \<sigma>)" by (simp add: map_of_eq_None_iff)
  then have "AList.delete (data_file tag) (files \<sigma>) = files \<sigma>" by (rule delete_id)
  with None assms(1) show ?thesis
    by (simp add: start_defs createPersistentStorage_def Let_def createNewFile_def create_file_def new_segment_def
        reliable_def set_map_def flush_def fresh_file_def)
next
  case (Some j)
  with assms have "shared_map (segments \<sigma> j) = None" by simp
  with Some assms(1) have "existing_map b (named_store sz PERSISTENT SERVER tag) \<sigma> = None"
    by (simp add: existing_map_def file_open_reliable)
  with Some assms(1) show ?thesis
    by (simp add: start_defs createPersistentStorage_def Let_def createNewFile_def create_file_def new_segment_def
        remove_file_def reliable_def set_map_def flush_def fresh_file_def delete_conv')
qed

lemma new_persistent_existing:
  assumes "reliable b" "map_of (files \<sigma>) (data_file tag) = Some i" "shared_map (segments \<sigma> i) \<noteq> None"
  shows "new_store b sz PERSISTENT SERVER tag \<sigma> =
     (Inr ((named_store sz PERSISTENT SERVER tag)\<lparr>file_storage := Some i, persistent_map_ptr := Some i\<rparr>),
      \<sigma>\<lparr>mutexes := insert (mutex_of tag) (mutexes \<sigma>)\<rparr>)"
proof -
  have "existing_map b (named_store sz PERSISTENT SERVER tag) \<sigma> = Some i"
    using assms by (auto simp: existing_map_def file_open_reliable)
  with assms show ?thesis
    by (simp add: start_defs createPersistentStorage_def Let_def reliable_def)
qed

subsection \<open>Connecting a client\<close>

lemma new_memory_client:
  assumes "reliable b" "shm_objects \<sigma> (shm_of tag) = Some i" "shared_map (segments \<sigma> i) \<noteq> None"
  shows "new_store b sz MEMORY CLIENT tag \<sigma> =
     (Inr ((named_store sz MEMORY CLIENT tag)\<lparr>memory_storage := Some i, memory_map_ptr := Some i\<rparr>),
      \<sigma>\<lparr>mutexes := insert (mutex_of tag) (mutexes \<sigma>)\<rparr>)"
  using assms
  by (simp add: start_defs connectToMemoryStorage_def Let_def shm_open_reliable) (simp add: reliable_def)

lemma new_persistent_client:
  assumes "reliable b" "map_of (files \<sigma>) (data_file tag) = Some i" "shared_map (segments \<sigma> i) \<noteq> None"
  shows "new_store b sz PERSISTENT CLIENT tag \<sigma> =
     (Inr ((named_store sz PERSISTENT CLIENT tag)\<lparr>file_storage := Some i, persistent_map_ptr := Some i\<rparr>),
      \<sigma>\<lparr>mutexes := insert (mutex_of tag) (mutexes \<sigma>)\<rparr>)"
  using assms
  by (simp add: start_defs connectToPersistentStorage_def Let_def file_open_reliable) (simp add: reliable_def)

subsection \<open>The file on disk\<close>

text \<open>
  The image of a segment on disk is up to date, or a write-back of it has been requested. A server
  that works on its data file is \<open>backed\<close> when the file is linked in the directory and this holds.
\<close>

definition synced :: "seg_id \<Rightarrow> os \<Rightarrow> bool" where
  "synced i \<sigma> \<longleftrightarrow> disk \<sigma> i = segments \<sigma> i \<or> i \<in> flush_requested \<sigma>"

definition backed :: "string \<Rightarrow> kv_store \<Rightarrow> os \<Rightarrow> bool" where
  "backed tag s \<sigma> \<longleftrightarrow>
     storage_mode s = PERSISTENT \<and> attached s \<sigma>
     \<and> map_of (files \<sigma>) (data_file tag) = file_storage s
     \<and> (case file_storage s of None \<Rightarrow> False | Some i \<Rightarrow> synced i \<sigma>)"

text \<open>What a start may find: no data file, or one with these properties.\<close>

definition sound_file :: "string \<Rightarrow> os \<Rightarrow> bool" where
  "sound_file tag \<sigma> \<longleftrightarrow>
     (case map_of (files \<sigma>) (data_file tag) of
        None \<Rightarrow> True
      | Some i \<Rightarrow> synced i \<sigma> \<and> (case shared_map (segments \<sigma> i) of None \<Rightarrow> True | Some m \<Rightarrow> wf_map m))"

definition flush_works :: "boost \<Rightarrow> bool" where
  "flush_works b \<longleftrightarrow> (\<forall>g. \<not> flush_fails b g)"

lemma backedE:
  assumes "backed tag s \<sigma>"
  obtains i m where "storage_mode s = PERSISTENT" "file_storage s = Some i" "persistent_map_ptr s = Some i"
    "map_of (files \<sigma>) (data_file tag) = Some i" "synced i \<sigma>"
    "shared_map (segments \<sigma> i) = Some m" "wf_map m" "attached s \<sigma>"
  using assms
  by (auto simp: backed_def attached_def map_ptr_def storage_def split: option.splits)

lemma backed_sound: "backed tag s \<sigma> \<Longrightarrow> sound_file tag \<sigma>"
  by (elim backedE) (simp add: sound_file_def)

lemma backed_write_map:
  assumes "flush_works b" "backed tag s \<sigma>" "wf_map m"
  shows "backed tag s (write_map b s m \<sigma>)"
  using assms attached_write_map [of s \<sigma> m b]
  by (elim backedE)
    (simp add: backed_def write_map_def map_ptr_def, simp add: Sync_def flush_def flush_works_def set_map_def synced_def)

lemma backed_exec: "flush_works b \<Longrightarrow> backed tag s \<sigma> \<Longrightarrow> backed tag s (snd (exec b s c \<sigma>))"
proof -
  assume d: "flush_works b" "backed tag s \<sigma>"
  then have "attached s \<sigma>" by (simp add: backed_def)
  from exec_shape [OF this, of b c] show ?thesis using d(2) backed_write_map [OF d] by metis
qed

lemma backed_run: "flush_works b \<Longrightarrow> backed tag s \<sigma> \<Longrightarrow> backed tag s (snd (run_commands (exec b s) cs \<sigma>))"
proof (induction cs arbitrary: \<sigma>)
  case (Cons c cs)
  from Cons.IH [OF Cons.prems(1) backed_exec [OF Cons.prems, of c]] show ?case
    by (auto simp: Let_def split: prod.split)
qed simp

lemma write_back_simps [simp]:
  "segments (write_back I \<sigma>) = segments \<sigma>" "mutexes (write_back I \<sigma>) = mutexes \<sigma>"
  "files (write_back I \<sigma>) = files \<sigma>" "shm_objects (write_back I \<sigma>) = shm_objects \<sigma>"
  "contents s (write_back I \<sigma>) = contents s \<sigma>" "attached s (write_back I \<sigma>) = attached s \<sigma>"
  by (simp_all add: write_back_def contents_def attached_def map_at_def fun_eq_iff cong: option.case_cong)

lemma synced_write_back: "synced i \<sigma> \<Longrightarrow> synced i (write_back I \<sigma>)"
  by (auto simp: synced_def write_back_def)

lemma backed_write_back: "backed tag s \<sigma> \<Longrightarrow> backed tag s (write_back I \<sigma>)"
  by (auto simp: backed_def synced_write_back split: option.splits)

lemma disk_requests_done: "synced i \<sigma> \<Longrightarrow> disk (write_back (flush_requested \<sigma>) \<sigma>) i = segments \<sigma> i"
  by (auto simp: synced_def write_back_def)

text \<open>The operations of a server leave the images on disk alone.\<close>

lemma disk_flush [simp]: "disk (snd (flush b i \<sigma>)) = disk \<sigma>" "segments (snd (flush b i \<sigma>)) = segments \<sigma>"
  by (simp_all add: flush_def)

lemma disk_write_map [simp]: "disk (write_map b s m \<sigma>) = disk \<sigma>" "files (write_map b s m \<sigma>) = files \<sigma>"
  by (simp_all add: write_map_def Sync_def set_map_def flush_def split: option.split StorageMode.split)

lemma disk_exec: "attached s \<sigma> \<Longrightarrow> disk (snd (exec b s c \<sigma>)) = disk \<sigma>"
  using exec_shape [of s \<sigma> b c] by auto

lemma disk_run: "attached s \<sigma> \<Longrightarrow> disk (snd (run_commands (exec b s) cs \<sigma>)) = disk \<sigma>"
proof (induction cs arbitrary: \<sigma>)
  case (Cons c cs)
  from Cons.IH [OF store.exec_inv [OF Cons.prems], of b c] disk_exec [OF Cons.prems, of b c] show ?case
    by (auto simp: Let_def split: prod.split)
qed simp

lemma files_exec: "attached s \<sigma> \<Longrightarrow> files (snd (exec b s c \<sigma>)) = files \<sigma>"
  using exec_shape [of s \<sigma> b c] by auto

lemma files_run: "attached s \<sigma> \<Longrightarrow> files (snd (run_commands (exec b s) cs \<sigma>)) = files \<sigma>"
proof (induction cs arbitrary: \<sigma>)
  case (Cons c cs)
  from Cons.IH [OF store.exec_inv [OF Cons.prems], of b c] files_exec [OF Cons.prems, of b c] show ?case
    by (auto simp: Let_def split: prod.split)
qed simp

subsection \<open>The history of a data file\<close>

text \<open>Operations of the server, between which the operating system writes images back.\<close>

datatype file_event = Operation kv_command | WrittenBack "seg_id set"

fun play :: "boost \<Rightarrow> kv_store \<Rightarrow> file_event \<Rightarrow> os \<Rightarrow> os" where
  "play b s (Operation c) \<sigma> = snd (exec b s c \<sigma>)"
| "play b s (WrittenBack I) \<sigma> = write_back I \<sigma>"

lemma backed_play: "flush_works b \<Longrightarrow> backed tag s \<sigma> \<Longrightarrow> backed tag s (fold (play b s) evs \<sigma>)"
proof (induction evs arbitrary: \<sigma>)
  case (Cons ev evs)
  then show ?case by (cases ev) (simp_all add: backed_exec backed_write_back)
qed simp

subsection \<open>Crash of the machine\<close>

text \<open>
  A crash of the machine: shared memory, mutexes and pending write-backs are gone, and the files are
  their images on disk. The entries of the directory are taken as written when they are made.
\<close>

definition machine_crash :: "os \<Rightarrow> os" where
  "machine_crash \<sigma> = \<sigma>\<lparr>shm_objects := Map.empty, segments := disk \<sigma>, flush_requested := {}, mutexes := {}\<rparr>"

lemma restart_on_map:
  assumes "reliable b" "map_of (files \<sigma>) (data_file tag) = Some i" "shared_map (segments \<sigma> i) = Some m" "wf_map m"
  shows "\<exists>s' \<sigma>'. new_store b sz PERSISTENT SERVER tag \<sigma> = (Inr s', \<sigma>')
     \<and> attached s' \<sigma>' \<and> contents s' \<sigma>' = (\<lambda>k. map_option c_str (lookup m k))"
  using new_persistent_existing [OF assms(1,2), of sz] assms(3,4)
  by (simp add: attached_def contents_def map_ptr_def storage_def map_at_def fun_eq_iff)

lemma restart_without_map:
  assumes "reliable b" "\<And>i. map_of (files \<sigma>) (data_file tag) = Some i \<Longrightarrow> shared_map (segments \<sigma> i) = None"
  shows "\<exists>s' \<sigma>'. new_store b sz PERSISTENT SERVER tag \<sigma> = (Inr s', \<sigma>') \<and> attached s' \<sigma>' \<and> contents s' \<sigma>' = Map.empty"
  using new_persistent_fresh [OF assms, where sz = sz]
  by (simp add: attached_def contents_def map_ptr_def storage_def fresh_file_def flush_def map_at_def fun_eq_iff)

lemma contents_of_map:
  "persistent_map_ptr s = Some i \<Longrightarrow> storage_mode s = PERSISTENT \<Longrightarrow> shared_map (segments \<sigma> i) = Some m \<Longrightarrow>
   contents s \<sigma> = (\<lambda>k. map_option c_str (lookup m k))"
  by (simp add: contents_def map_ptr_def map_at_def fun_eq_iff)

text \<open>A restart of the server on the running machine, and after a crash of it.\<close>

lemma restart_same_file:
  assumes "reliable b" "backed tag s \<sigma>"
  shows "\<exists>s2 \<sigma>2. new_store b sz PERSISTENT SERVER tag \<sigma> = (Inr s2, \<sigma>2) \<and> attached s2 \<sigma>2 \<and> contents s2 \<sigma>2 = contents s \<sigma>"
  using assms(2) by (elim backedE) (simp add: contents_of_map restart_on_map [OF assms(1)])

lemma restart_after_crash:
  assumes "reliable b" "backed tag s \<sigma>"
    and "\<sigma>' = snd (run_commands (exec b s) cs (write_back (flush_requested \<sigma>) \<sigma>))"
  shows "\<exists>s2 \<sigma>2. new_store b sz PERSISTENT SERVER tag (machine_crash \<sigma>') = (Inr s2, \<sigma>2)
     \<and> attached s2 \<sigma>2 \<and> contents s2 \<sigma>2 = contents s \<sigma>"
proof -
  from assms(2) obtain i m where *: "storage_mode s = PERSISTENT" "persistent_map_ptr s = Some i"
      "map_of (files \<sigma>) (data_file tag) = Some i" "synced i \<sigma>" "shared_map (segments \<sigma> i) = Some m" "wf_map m" "attached s \<sigma>"
    by (elim backedE)
  have "disk \<sigma>' i = segments \<sigma> i" "files \<sigma>' = files \<sigma>"
    using disk_run [of s "write_back (flush_requested \<sigma>) \<sigma>" b cs] files_run [of s "write_back (flush_requested \<sigma>) \<sigma>" b cs]
      disk_requests_done [OF *(4)] *(7) by (simp_all add: assms(3))
  then show ?thesis
    using restart_on_map [OF assms(1), of "machine_crash \<sigma>'" tag i m sz] *
    by (simp add: machine_crash_def contents_of_map)
qed

end
