(* ===== verification/KvClaims.thy ===== *)
theory KvClaims
  imports KvLife
begin

text \<open>
  The properties of the store of a node, each with a witness on a concrete Boost: sizes that are
  large enough and no errors (\<open>roomy\<close>), an empty system (\<open>empty_os\<close>).
\<close>

definition roomy :: boost where
  "roomy = \<lparr>get_free_memory = (\<lambda>g. 1000), get_size = seg_size, missing_text = id, exists_text = id,
     open_error = (\<lambda>n g. None), create_error = (\<lambda>n z. None), construct_error = (\<lambda>g. None),
     alloc_error = (\<lambda>g v. None), mutex_error = (\<lambda>n. None), remove_error = (\<lambda>n. None),
     flush_fails = (\<lambda>g. False)\<rparr>"

definition empty_os :: os where
  "empty_os = \<lparr>shm_objects = Map.empty, files = [], segments = (\<lambda>i. \<lparr>seg_size = 0, shared_map = None\<rparr>),
     disk = (\<lambda>i. \<lparr>seg_size = 0, shared_map = None\<rparr>), flush_requested = {}, mutexes = {}, next_seg = 0\<rparr>"

lemma reliable_roomy [simp]: "reliable roomy"
  by (simp add: reliable_def roomy_def)

lemma flush_works_roomy [simp]: "flush_works roomy"
  by (simp add: flush_works_def roomy_def)

definition memory_server :: "u64 \<Rightarrow> string \<Rightarrow> os \<Rightarrow> kv_store" where
  "memory_server sz tag \<sigma> = (named_store sz MEMORY SERVER tag)
     \<lparr>memory_storage := Some (next_seg \<sigma>), memory_map_ptr := Some (next_seg \<sigma>)\<rparr>"

lemma attached_fresh: "attached (memory_server sz tag \<sigma>) (fresh_memory sz tag \<sigma>)"
  by (simp add: attached_def map_ptr_def storage_def memory_server_def fresh_memory_def)

lemma contents_fresh: "contents (memory_server sz tag \<sigma>) (fresh_memory sz tag \<sigma>) = Map.empty"
  by (simp add: contents_def map_ptr_def memory_server_def fresh_memory_def map_at_def fun_eq_iff)

text \<open>
  Claim C24: an attached store simulates the abstract key-value machine. Over any sequence of
  \<^verbatim>\<open>Insert\<close>, \<^verbatim>\<open>Update\<close> and \<^verbatim>\<open>Delete\<close>, whatever memory sizes and allocation failures Boost reports, the
  store stays attached, the reported outcomes and the changes of its entries are those of a run of
  the machine, and \<^verbatim>\<open>Find\<close> reads the resulting map.
\<close>

theorem store_refines_map:
  assumes "attached s \<sigma>"
  shows "case run_commands (exec b s) cs \<sigma> of (rs, \<sigma>') \<Rightarrow>
           attached s \<sigma>' \<and> kv_run (contents s \<sigma>) (zip cs rs) (contents s \<sigma>')
           \<and> (\<forall>k. Find b s k \<sigma>' = (case contents s \<sigma>' k of None \<Rightarrow> ''key not found'' | Some v \<Rightarrow> v))"
  using store.run_inv [OF assms] store.run_refines [OF assms] store.fnd_contents [OF store.run_inv [OF assms]]
  by (simp add: split_beta)

theorem store_refines_map_witness:
  "case run_commands (exec roomy (memory_server 9 ''n'' empty_os)) [InsertCmd 1 ''a'', DeleteCmd 2]
          (fresh_memory 9 ''n'' empty_os) of (rs, \<sigma>') \<Rightarrow>
     attached (memory_server 9 ''n'' empty_os) \<sigma>'
     \<and> kv_run (contents (memory_server 9 ''n'' empty_os) (fresh_memory 9 ''n'' empty_os))
         (zip [InsertCmd 1 ''a'', DeleteCmd 2] rs) (contents (memory_server 9 ''n'' empty_os) \<sigma>')
     \<and> (\<forall>k. Find roomy (memory_server 9 ''n'' empty_os) k \<sigma>'
          = (case contents (memory_server 9 ''n'' empty_os) \<sigma>' k of None \<Rightarrow> ''key not found'' | Some v \<Rightarrow> v))"
  by (rule store_refines_map [OF attached_fresh])

text \<open>
  After \<^verbatim>\<open>Insert\<close> or \<^verbatim>\<open>Update\<close> reports success, and after any further operations on
  other keys, \<^verbatim>\<open>Find\<close> returns what \<^verbatim>\<open>c_str()\<close> keeps of the value: all of it when it has no NUL
  character, otherwise the part before the first one.
\<close>

theorem find_after_write:
  assumes "attached s \<sigma>"
    and "fst (Insert b s k v \<sigma>) = Inserted \<and> \<sigma>' = snd (Insert b s k v \<sigma>)
       \<or> fst (Update b s k v \<sigma>) = Updated \<and> \<sigma>' = snd (Update b s k v \<sigma>)"
    and "k \<notin> command_key ` set cs"
  shows "Find b s k (snd (run_commands (exec b s) cs \<sigma>')) = c_str v \<and> (CHR 0x00 \<notin> set v \<longrightarrow> c_str v = v)"
  using assms(2)
    store.write_then_find [OF assms(1) _ assms(3), of b "InsertCmd k v" v]
    store.write_then_find [OF assms(1) _ assms(3), of b "UpdateCmd k v" v]
  by (auto simp: c_str_id)

lemma Insert_fresh_roomy:
  "fst (Insert roomy (memory_server 9 ''n'' empty_os) 1 ''ab'' (fresh_memory 9 ''n'' empty_os)) = Inserted"
  by (subst Insert_cases [OF attached_fresh])
    (simp add: contents_fresh, simp add: hasEnoughMemory_def GetFreeMemory_def
      storage_def memory_server_def roomy_def string_size_def)

theorem find_after_write_witness:
  "Find roomy (memory_server 9 ''n'' empty_os) 1
     (snd (run_commands (exec roomy (memory_server 9 ''n'' empty_os)) [DeleteCmd 2]
        (snd (Insert roomy (memory_server 9 ''n'' empty_os) 1 ''ab'' (fresh_memory 9 ''n'' empty_os)))))
   = c_str ''ab''"
  using find_after_write [OF attached_fresh, of roomy 9 "''n''" empty_os 1 "''ab''" _ "[DeleteCmd 2]"]
  by (simp add: Insert_fresh_roomy)

text \<open>
  Claim C25: for values shorter than 2^62 bytes the memory test of \<^verbatim>\<open>Insert\<close> does not wrap: the
  insertion is refused for lack of memory exactly when less than twice the value's size plus 68
  bytes are free, and this is tested before the key is looked up. In particular nothing is written
  when it is refused.
\<close>

theorem insert_memory_bound:
  assumes "attached s \<sigma>" "length v < 2 ^ 62"
  shows "(fst (Insert b s k v \<sigma>) = NotEnoughMemory \<longleftrightarrow> unat (GetFreeMemory b s \<sigma>) < 2 * (length v + 68))
       \<and> (fst (Insert b s k v \<sigma>) \<noteq> Inserted \<longrightarrow> snd (Insert b s k v \<sigma>) = \<sigma>)"
proof -
  have l: "2 * (length v + 68) < 2 ^ 64" using assms(2) by simp
  have "(string_size v + 4 + 64) * 2 = of_nat (2 * (length v + 68))"
    by (simp add: string_size_def)
  then have "unat ((string_size v + 4 + 64) * 2) = 2 * (length v + 68)"
    using l by (simp only: unat_of_nat) simp
  then have "hasEnoughMemory b s \<sigma> (string_size v + 4 + 64) \<longleftrightarrow> 2 * (length v + 68) \<le> unat (GetFreeMemory b s \<sigma>)"
    by (simp add: hasEnoughMemory_def word_le_nat_alt)
  then show ?thesis
    by (auto simp: Insert_cases [OF assms(1)] split: option.splits)
qed

theorem insert_memory_bound_witness:
  "fst (Insert roomy (memory_server 9 ''n'' empty_os) 1 (replicate 500 CHR ''x'') (fresh_memory 9 ''n'' empty_os))
     = NotEnoughMemory"
  using insert_memory_bound [OF attached_fresh, of "replicate 500 CHR ''x''" roomy 9 "''n''" empty_os 1]
  by (simp add: GetFreeMemory_def storage_def memory_server_def roomy_def)

subsection \<open>Crash, shutdown, restart\<close>

definition persistent_server :: "u64 \<Rightarrow> string \<Rightarrow> os \<Rightarrow> kv_store" where
  "persistent_server sz tag \<sigma> = (named_store sz PERSISTENT SERVER tag)
     \<lparr>file_storage := Some (next_seg \<sigma>), persistent_map_ptr := Some (next_seg \<sigma>)\<rparr>"

lemma fresh_attached: "attached (persistent_server sz tag \<sigma>) (fresh_file b sz tag \<sigma>)"
  by (simp add: attached_def map_ptr_def storage_def persistent_server_def fresh_file_def flush_def)

lemma fresh_contents: "contents (persistent_server sz tag \<sigma>) (fresh_file b sz tag \<sigma>) = Map.empty"
  by (simp add: contents_def map_ptr_def persistent_server_def fresh_file_def flush_def map_at_def fun_eq_iff)

lemma fresh_files [simp]: "map_of (files (fresh_file b sz tag \<sigma>)) (data_file tag) = Some (next_seg \<sigma>)"
  by (simp add: fresh_file_def flush_def update_conv')

lemma started_fresh:
  assumes "reliable b" "map_of (files \<sigma>\<^sub>0) (data_file tag) = None"
    and "new_store b sz PERSISTENT SERVER tag \<sigma>\<^sub>0 = (Inr s, \<sigma>)"
  shows "s = persistent_server sz tag \<sigma>\<^sub>0 \<and> \<sigma> = fresh_file b sz tag \<sigma>\<^sub>0"
  using new_persistent_fresh [OF assms(1), of \<sigma>\<^sub>0 tag sz] assms(2,3) by (auto simp: persistent_server_def)

text \<open>However it finds its data file, a server that starts on it is backed by it.\<close>

lemma started_backed:
  assumes "reliable b" "flush_works b" "sound_file tag \<sigma>\<^sub>0" "new_store b sz PERSISTENT SERVER tag \<sigma>\<^sub>0 = (Inr s, \<sigma>)"
  shows "backed tag s \<sigma> \<and> conn_mode s = SERVER"
proof (cases "\<exists>i m. map_of (files \<sigma>\<^sub>0) (data_file tag) = Some i \<and> shared_map (segments \<sigma>\<^sub>0 i) = Some m")
  case True
  then obtain i m where i: "map_of (files \<sigma>\<^sub>0) (data_file tag) = Some i" "shared_map (segments \<sigma>\<^sub>0 i) = Some m" by blast
  then show ?thesis
    using new_persistent_existing [OF assms(1) i(1), of sz] assms(3,4)
    by (auto simp: backed_def sound_file_def attached_def map_ptr_def storage_def synced_def)
next
  case False
  then have "s = persistent_server sz tag \<sigma>\<^sub>0" "\<sigma> = fresh_file b sz tag \<sigma>\<^sub>0"
    using new_persistent_fresh [OF assms(1), of \<sigma>\<^sub>0 tag sz] assms(4) by (auto simp: persistent_server_def)
  then show ?thesis
    using fresh_attached [of sz tag \<sigma>\<^sub>0 b] assms(2)
    by (simp add: backed_def) (simp add: persistent_server_def synced_def fresh_file_def flush_def flush_works_def)
qed

text \<open>
  Claim C26: what a crash of the machine leaves of a persistent store. A server starts without a data
  file or on a sound one; it executes any operations, while the system writes images back whenever it
  chooses, and no request to do so is refused. Every operation it has completed is then in the mapping
  and its write-back is requested: once the system has carried the requests out, a crash of the machine
  and a restart give exactly the entries of that moment. Operations that complete after it without
  being written back are lost in the crash, although they have reported success.
\<close>

theorem crash_keeps_written_back:
  assumes "reliable b" "flush_works b" "sound_file tag \<sigma>\<^sub>0"
    and "new_store b sz PERSISTENT SERVER tag \<sigma>\<^sub>0 = (Inr s, \<sigma>)" "\<sigma>1 = fold (play b s) evs \<sigma>"
    and "\<sigma>2 = snd (run_commands (exec b s) cs (write_back (flush_requested \<sigma>1) \<sigma>1))"
  shows "\<exists>s3 \<sigma>3. new_store b sz2 PERSISTENT SERVER tag (machine_crash \<sigma>2) = (Inr s3, \<sigma>3)
     \<and> attached s3 \<sigma>3 \<and> contents s3 \<sigma>3 = contents s \<sigma>1"
proof -
  have "backed tag s \<sigma>1"
    unfolding assms(5) using backed_play [OF assms(2)] started_backed [OF assms(1-4)] by blast
  then show ?thesis by (rule restart_after_crash [OF assms(1) _ assms(6)])
qed

lemma fresh_start:
  "new_store roomy 9 PERSISTENT SERVER ''n'' empty_os = (Inr (persistent_server 9 ''n'' empty_os), fresh_file roomy 9 ''n'' empty_os)"
  unfolding persistent_server_def
  by (rule new_persistent_fresh) (simp_all add: empty_os_def)

definition written_once :: os where
  "written_once = fold (play roomy (persistent_server 9 ''n'' empty_os)) [Operation (InsertCmd 1 ''a''), WrittenBack {}]
     (fresh_file roomy 9 ''n'' empty_os)"

theorem crash_keeps_written_back_witness:
  "\<exists>s3 \<sigma>3. new_store roomy 7 PERSISTENT SERVER ''n''
       (machine_crash (snd (run_commands (exec roomy (persistent_server 9 ''n'' empty_os)) [DeleteCmd 1]
          (write_back (flush_requested written_once) written_once)))) = (Inr s3, \<sigma>3)
     \<and> attached s3 \<sigma>3 \<and> contents s3 \<sigma>3 = contents (persistent_server 9 ''n'' empty_os) written_once"
  by (rule crash_keeps_written_back [OF reliable_roomy flush_works_roomy _ fresh_start written_once_def refl])
    (simp add: sound_file_def empty_os_def)

lemma destroy_backed:
  assumes "backed tag s \<sigma>" "conn_mode s = SERVER"
  obtains i where "map_of (files (destroy_store b s \<sigma>)) (data_file tag) = Some i"
    "shared_map (segments (destroy_store b s \<sigma>) i) = None"
  using assms(1) by (elim backedE) (simp add: destroy_store_def assms(2) remove_mutex_def set_map_def flush_def)

text \<open>
  The destructor of a persistent server destroys the map inside the file it has just flushed: the
  next server on the same file finds no map, replaces the file and starts empty.
\<close>

lemma restart_after_destroy:
  assumes "reliable b" "backed tag s \<sigma>" "conn_mode s = SERVER"
  shows "\<exists>s2 \<sigma>2. new_store b sz2 PERSISTENT SERVER tag (destroy_store b s \<sigma>) = (Inr s2, \<sigma>2)
     \<and> attached s2 \<sigma>2 \<and> contents s2 \<sigma>2 = Map.empty"
  using destroy_backed [OF assms(2,3), of b] by (intro restart_without_map [OF assms(1)]) force

subsection \<open>Refused requests\<close>

text \<open>Two systems that differ at most in the images on disk and the requests for them.\<close>

definition same_running :: "os \<Rightarrow> os \<Rightarrow> bool" where
  "same_running \<sigma> \<sigma>' \<longleftrightarrow> segments \<sigma> = segments \<sigma>' \<and> mutexes \<sigma> = mutexes \<sigma>'"

lemma same_running_views:
  "same_running \<sigma> \<sigma>' \<Longrightarrow> contents s \<sigma> = contents s \<sigma>' \<and> attached s \<sigma> = attached s \<sigma>' \<and> entries s \<sigma> = entries s \<sigma>'"
  unfolding same_running_def contents_def attached_def entries_def map_at_def by (simp cong: option.case_cong)

lemma same_running_write:
  "same_running \<sigma> \<sigma>' \<Longrightarrow> same_running (write_map b s m \<sigma>) (write_map b' s m \<sigma>')"
  by (auto simp: same_running_def write_map_def set_map_def split: option.split)

definition no_flush :: "boost \<Rightarrow> boost" where
  "no_flush b = b\<lparr>flush_fails := (\<lambda>g. True)\<rparr>"

lemma no_flush_simps [simp]:
  "reliable (no_flush b) = reliable b" "alloc_error (no_flush b) = alloc_error b"
  "get_free_memory (no_flush b) = get_free_memory b" "flush (no_flush b) i \<sigma> = (False, \<sigma>)"
  by (simp_all add: no_flush_def reliable_def flush_def)

lemma same_running_exec:
  assumes "same_running \<sigma> \<sigma>'" "attached s \<sigma>"
  shows "fst (exec (no_flush b) s c \<sigma>) = fst (exec b s c \<sigma>')
    \<and> same_running (snd (exec (no_flush b) s c \<sigma>)) (snd (exec b s c \<sigma>'))"
proof -
  note v = same_running_views [OF assms(1), of s]
  have a: "attached s \<sigma>'" using assms(2) v by simp
  have m: "hasEnoughMemory (no_flush b) s \<sigma> n = hasEnoughMemory b s \<sigma>' n" "segments \<sigma> = segments \<sigma>'" for n
    using assms(1) by (simp_all add: hasEnoughMemory_def GetFreeMemory_def same_running_def split: option.split)
  show ?thesis
    using assms(1) v m same_running_write [OF assms(1)]
    by (cases c) (simp_all add: Insert_cases Update_cases Delete_cases assms(2) a split: option.split)
qed

lemma same_running_run:
  assumes "same_running \<sigma> \<sigma>'" "attached s \<sigma>"
  shows "fst (run_commands (exec (no_flush b) s) cs \<sigma>) = fst (run_commands (exec b s) cs \<sigma>')
    \<and> same_running (snd (run_commands (exec (no_flush b) s) cs \<sigma>)) (snd (run_commands (exec b s) cs \<sigma>'))"
  using assms
proof (induction cs arbitrary: \<sigma> \<sigma>')
  case (Cons c cs)
  from same_running_exec [OF Cons.prems, of b c]
    Cons.IH [OF _ store.exec_inv [OF Cons.prems(2), of "no_flush b" c], of "snd (exec b s c \<sigma>')"]
  show ?case by (auto simp: Let_def split: prod.split)
qed simp

lemma requests_unflushed:
  assumes "attached s \<sigma>"
  shows "flush_requested (snd (run_commands (exec (no_flush b) s) cs \<sigma>)) = flush_requested \<sigma>"
  using assms
proof (induction cs arbitrary: \<sigma>)
  case (Cons c cs)
  have "flush_requested (write_map (no_flush b) s m \<sigma>) = flush_requested \<sigma>" for m
    by (simp add: write_map_def Sync_def set_map_def split: option.split StorageMode.split)
  then have "flush_requested (snd (exec (no_flush b) s c \<sigma>)) = flush_requested \<sigma>"
    using exec_shape [OF Cons.prems, of "no_flush b" c] by auto
  with Cons.IH [OF store.exec_inv [OF Cons.prems, of "no_flush b" c]] show ?case by (auto simp: Let_def split: prod.split)
qed simp

text \<open>
  A refused flush goes unnoticed. On a system that refuses every request to write back, a
  server that starts on a new data file reports for every operation exactly what it reports on a system
  that accepts them, and shows the same entries; but when the machine crashes before the system has
  written anything of its own accord, a restart finds none of them.
\<close>

theorem refused_flush_unnoticed:
  assumes "reliable b" "map_of (files \<sigma>\<^sub>0) (data_file tag) = None" "next_seg \<sigma>\<^sub>0 \<notin> flush_requested \<sigma>\<^sub>0"
    and "new_store (no_flush b) sz PERSISTENT SERVER tag \<sigma>\<^sub>0 = (Inr s, \<sigma>)"
    and "run_commands (exec (no_flush b) s) cs \<sigma> = (reports, \<sigma>1)"
  shows "(\<exists>\<sigma>' \<sigma>1'. new_store b sz PERSISTENT SERVER tag \<sigma>\<^sub>0 = (Inr s, \<sigma>')
         \<and> run_commands (exec b s) cs \<sigma>' = (reports, \<sigma>1') \<and> contents s \<sigma>1 = contents s \<sigma>1')
     \<and> (\<exists>s2 \<sigma>2. new_store b sz2 PERSISTENT SERVER tag (machine_crash (write_back (flush_requested \<sigma>1) \<sigma>1)) = (Inr s2, \<sigma>2)
         \<and> attached s2 \<sigma>2 \<and> contents s2 \<sigma>2 = Map.empty)"
proof -
  let ?\<sigma>' = "fresh_file b sz tag \<sigma>\<^sub>0"
  have s: "s = persistent_server sz tag \<sigma>\<^sub>0" "\<sigma> = fresh_file (no_flush b) sz tag \<sigma>\<^sub>0"
    using started_fresh [OF _ assms(2,4)] assms(1) by auto
  have n: "new_store b sz PERSISTENT SERVER tag \<sigma>\<^sub>0 = (Inr s, ?\<sigma>')"
    using new_persistent_fresh [OF assms(1), of \<sigma>\<^sub>0 tag sz] assms(2) by (simp add: s persistent_server_def)
  have a: "attached s \<sigma>" unfolding s by (rule fresh_attached)
  have same: "same_running \<sigma> ?\<sigma>'" by (simp add: same_running_def s fresh_file_def flush_def)
  obtain \<sigma>1' where r: "run_commands (exec b s) cs ?\<sigma>' = (reports, \<sigma>1')" "same_running \<sigma>1 \<sigma>1'"
    using same_running_run [OF same a, of b cs] assms(5) by (metis fst_conv prod.collapse snd_conv)
  then have first: "new_store b sz PERSISTENT SERVER tag \<sigma>\<^sub>0 = (Inr s, ?\<sigma>')
      \<and> run_commands (exec b s) cs ?\<sigma>' = (reports, \<sigma>1') \<and> contents s \<sigma>1 = contents s \<sigma>1'"
    using n same_running_views by blast
  have \<sigma>1: "\<sigma>1 = snd (run_commands (exec (no_flush b) s) cs \<sigma>)" using assms(5) by simp
  have "next_seg \<sigma>\<^sub>0 \<notin> flush_requested \<sigma>1" "disk \<sigma>1 (next_seg \<sigma>\<^sub>0) = \<lparr>seg_size = sz, shared_map = None\<rparr>"
      "map_of (files \<sigma>1) (data_file tag) = Some (next_seg \<sigma>\<^sub>0)"
    using requests_unflushed [OF a, of b cs] disk_run [OF a, of "no_flush b" cs] files_run [OF a, of "no_flush b" cs] assms(3)
    by (simp_all add: \<sigma>1 s(2)) (simp_all add: fresh_file_def)
  then have "\<exists>s2 \<sigma>2. new_store b sz2 PERSISTENT SERVER tag (machine_crash (write_back (flush_requested \<sigma>1) \<sigma>1)) = (Inr s2, \<sigma>2)
       \<and> attached s2 \<sigma>2 \<and> contents s2 \<sigma>2 = Map.empty"
    by (intro restart_without_map [OF assms(1)]) (auto simp: machine_crash_def write_back_def)
  with first show ?thesis by blast
qed

lemma Insert_fresh_file:
  "fst (Insert (no_flush roomy) (persistent_server 9 ''n'' empty_os) 1 ''ab'' (fresh_file (no_flush roomy) 9 ''n'' empty_os)) = Inserted"
  by (subst Insert_cases [OF fresh_attached])
    (simp add: fresh_contents, simp add: hasEnoughMemory_def GetFreeMemory_def
      storage_def persistent_server_def roomy_def string_size_def)

theorem refused_flush_unnoticed_witness:
  "fst (run_commands (exec (no_flush roomy) (persistent_server 9 ''n'' empty_os)) [InsertCmd 1 ''ab'']
       (fresh_file (no_flush roomy) 9 ''n'' empty_os)) = [Inserted]
   \<and> (\<exists>s2 \<sigma>2. new_store roomy 9 PERSISTENT SERVER ''n''
        (machine_crash (write_back
          (flush_requested (snd (run_commands (exec (no_flush roomy) (persistent_server 9 ''n'' empty_os)) [InsertCmd 1 ''ab'']
             (fresh_file (no_flush roomy) 9 ''n'' empty_os))))
          (snd (run_commands (exec (no_flush roomy) (persistent_server 9 ''n'' empty_os)) [InsertCmd 1 ''ab'']
             (fresh_file (no_flush roomy) 9 ''n'' empty_os))))) = (Inr s2, \<sigma>2)
      \<and> contents s2 \<sigma>2 = Map.empty)"
proof -
  have "new_store (no_flush roomy) 9 PERSISTENT SERVER ''n'' empty_os =
      (Inr (persistent_server 9 ''n'' empty_os), fresh_file (no_flush roomy) 9 ''n'' empty_os)"
    unfolding persistent_server_def by (rule new_persistent_fresh) (simp_all add: empty_os_def)
  from refused_flush_unnoticed [OF reliable_roomy _ _ this surjective_pairing, of "[InsertCmd 1 ''ab'']" 9]
  have "\<exists>s2 \<sigma>2. new_store roomy 9 PERSISTENT SERVER ''n''
        (machine_crash (write_back
          (flush_requested (snd (run_commands (exec (no_flush roomy) (persistent_server 9 ''n'' empty_os)) [InsertCmd 1 ''ab'']
             (fresh_file (no_flush roomy) 9 ''n'' empty_os))))
          (snd (run_commands (exec (no_flush roomy) (persistent_server 9 ''n'' empty_os)) [InsertCmd 1 ''ab'']
             (fresh_file (no_flush roomy) 9 ''n'' empty_os))))) = (Inr s2, \<sigma>2)
      \<and> contents s2 \<sigma>2 = Map.empty"
    by (simp add: empty_os_def) blast
  with Insert_fresh_file show ?thesis by (simp add: Let_def case_prod_unfold)
qed

subsection \<open>Starting and connecting\<close>

text \<open>
  A server in \<^verbatim>\<open>MEMORY\<close> mode always starts with an empty map in a segment of its own,
  whatever an earlier process has left under its name; no file, no other shared memory object and
  no existing segment is touched, so a process still attached to the old segment keeps its entries.
\<close>

theorem memory_server_starts_empty:
  assumes "reliable b"
  shows "\<exists>s \<sigma>'. new_store b sz MEMORY SERVER tag \<sigma> = (Inr s, \<sigma>')
     \<and> attached s \<sigma>' \<and> contents s \<sigma>' = Map.empty \<and> files \<sigma>' = files \<sigma>
     \<and> (\<forall>n. n \<noteq> shm_of tag \<longrightarrow> shm_objects \<sigma>' n = shm_objects \<sigma> n)
     \<and> (\<forall>i. i < next_seg \<sigma> \<longrightarrow> segments \<sigma>' i = segments \<sigma> i)"
  using new_memory_server [OF assms, of sz tag \<sigma>] attached_fresh [of sz tag \<sigma>] contents_fresh [of sz tag \<sigma>]
  by (auto simp: memory_server_def fresh_memory_def)

theorem memory_server_starts_empty_witness:
  "\<exists>s \<sigma>'. new_store roomy 9 MEMORY SERVER ''n'' (fresh_memory 9 ''n'' empty_os) = (Inr s, \<sigma>')
     \<and> attached s \<sigma>' \<and> contents s \<sigma>' = Map.empty"
  using memory_server_starts_empty [OF reliable_roomy, of 9 "''n''" "fresh_memory 9 ''n'' empty_os"] by blast

definition linked :: "string \<Rightarrow> kv_store \<Rightarrow> os \<Rightarrow> bool" where
  "linked tag s \<sigma> \<longleftrightarrow> attached s \<sigma> \<and> mutex_name s = mutex_of tag
     \<and> (case storage_mode s of
          MEMORY \<Rightarrow> shm_objects \<sigma> (shm_of tag) = memory_storage s
        | PERSISTENT \<Rightarrow> map_of (files \<sigma>) (data_file tag) = file_storage s)"

lemma linked_fresh: "linked tag (memory_server sz tag \<sigma>) (fresh_memory sz tag \<sigma>)"
  using attached_fresh [of sz tag \<sigma>] by (simp add: linked_def) (simp add: memory_server_def fresh_memory_def)

lemma client_attaches:
  assumes "reliable b" "linked tag s \<sigma>"
  shows "\<exists>c. new_store b sz (storage_mode s) CLIENT tag \<sigma> = (Inr c, \<sigma>\<lparr>mutexes := insert (mutex_of tag) (mutexes \<sigma>)\<rparr>)
     \<and> map_ptr c = map_ptr s \<and> storage c = storage s \<and> mutex_name c = mutex_name s
     \<and> storage_mode c = storage_mode s \<and> conn_mode c = CLIENT"
proof -
  from assms(2) obtain p m where p: "map_ptr s = Some p" "storage s = Some p"
      "shared_map (segments \<sigma> p) = Some m" "wf_map m" "mutex_name s = mutex_of tag"
    unfolding linked_def by (metis attachedE)
  then show ?thesis
    using assms(2) new_memory_client [OF assms(1), of \<sigma> tag p sz] new_persistent_client [OF assms(1), of \<sigma> tag p sz]
    by (cases "storage_mode s") (auto simp: linked_def map_ptr_def storage_def)
qed

text \<open>
  Claim C28: a client that connects under the tag of a running server shares its entries: it sees
  what the server has stored, the server's next operations are visible to it and its own to the
  server, and its destructor leaves everything in place.
\<close>

theorem client_shares_entries:
  assumes "reliable b" "linked tag s \<sigma>"
  shows "\<exists>c \<sigma>'. new_store b sz (storage_mode s) CLIENT tag \<sigma> = (Inr c, \<sigma>')
     \<and> (\<forall>cs. let \<sigma>2 = snd (run_commands (exec b s) cs \<sigma>') in attached c \<sigma>2 \<and> contents c \<sigma>2 = contents s \<sigma>2)
     \<and> (\<forall>cs. let \<sigma>2 = snd (run_commands (exec b c) cs \<sigma>') in attached s \<sigma>2 \<and> contents s \<sigma>2 = contents c \<sigma>2)
     \<and> contents s \<sigma>' = contents s \<sigma> \<and> destroy_store b c \<sigma>' = \<sigma>'"
proof -
  let ?\<sigma> = "\<sigma>\<lparr>mutexes := insert (mutex_of tag) (mutexes \<sigma>)\<rparr>"
  from assms(2) obtain p m where p: "map_ptr s = Some p" "storage s = Some p"
      "shared_map (segments \<sigma> p) = Some m" "wf_map m" "mutex_name s = mutex_of tag"
    unfolding linked_def by (metis attachedE)
  obtain c where c: "new_store b sz (storage_mode s) CLIENT tag \<sigma> = (Inr c, ?\<sigma>)"
      "map_ptr c = Some p" "storage c = Some p" "mutex_name c = mutex_of tag" "conn_mode c = CLIENT"
    using client_attaches [OF assms, of sz] p by auto
  have same: "attached c \<tau> = attached s \<tau>" "contents c \<tau> = contents s \<tau>" for \<tau>
    using p c by (simp_all add: attached_def contents_def fun_eq_iff)
  have "attached s ?\<sigma>" "contents s ?\<sigma> = contents s \<sigma>"
    using p by (simp_all add: attached_def contents_def map_at_def fun_eq_iff)
  then have "attached s (snd (run_commands (exec b s) cs ?\<sigma>))" "attached c (snd (run_commands (exec b c) cs ?\<sigma>))" for cs
    using store.run_inv [of s ?\<sigma>] store.run_inv [of c ?\<sigma>] same by simp_all
  then show ?thesis
    using c(1,5) \<open>contents s ?\<sigma> = contents s \<sigma>\<close> same by (auto simp: Let_def destroy_store_def)
qed

theorem client_shares_entries_witness:
  "\<exists>c \<sigma>'. new_store roomy 5 MEMORY CLIENT ''n'' (fresh_memory 9 ''n'' empty_os) = (Inr c, \<sigma>')
     \<and> contents (memory_server 9 ''n'' empty_os) \<sigma>' = Map.empty \<and> destroy_store roomy c \<sigma>' = \<sigma>'"
  using client_shares_entries [OF reliable_roomy linked_fresh, of 5 9 "''n''" empty_os] contents_fresh
  by (auto simp: memory_server_def)

text \<open>
  When the segment is created but the map cannot be constructed in it (it is too small),
  the recovery of the server constructor opens that segment, finds no map and goes on: the
  constructor succeeds, and the store then refuses every operation with \<^verbatim>\<open>Map not found\<close>.
\<close>

theorem recovery_serves_without_map:
  assumes "construct_error b \<lparr>seg_size = sz, shared_map = None\<rparr> = Some e"
    and "create_error b (shm_of tag) sz = None" "\<forall>g. open_error b (shm_of tag) g = None"
  shows "\<exists>s \<sigma>'. new_store b sz MEMORY SERVER tag \<sigma> = (Inr s, \<sigma>')
     \<and> (\<forall>k v \<tau>. Insert b s k v \<tau> = (MapNotFound, \<tau>) \<and> Find b s k \<tau> = ''Map not found'')"
  using assms
  by (simp add: start_defs createMemoryStorage_def Let_def create_shm_def remove_shm_def new_segment_def
      recover_def reopen_existing_def open_shm_def open_segment_def Insert_def Find_def map_ptr_def)

definition cramped :: boost where
  "cramped = roomy\<lparr>construct_error := (\<lambda>g. Some ''bad_alloc'')\<rparr>"

theorem recovery_serves_without_map_witness:
  "\<exists>s \<sigma>'. new_store cramped 9 MEMORY SERVER ''n'' empty_os = (Inr s, \<sigma>')
     \<and> Find cramped s 1 \<sigma>' = ''Map not found''"
proof -
  have "construct_error cramped \<lparr>seg_size = 9, shared_map = None\<rparr> = Some ''bad_alloc''"
    "create_error cramped (shm_of ''n'') 9 = None" "\<forall>g. open_error cramped (shm_of ''n'') g = None"
    by (simp_all add: cramped_def roomy_def)
  from recovery_serves_without_map [OF this, of empty_os] show ?thesis by blast
qed

end
