(* ===== verification/Gossip.thy ===== *)
theory Gossip
  imports Decimal "HOL-Library.Product_Lexorder"
begin

text \<open>
  \<^verbatim>\<open>src/GossipMembership.cpp\<close> and its header: the member table of a node and the operations on it.
  Each operation runs under the mutex of the object and is one function of the state. The clock is
  an argument: \<open>clk i\<close> is the reading taken for the \<open>i\<close>-th record of a message. The exchange RPC
  and the random number are arguments of the operations that use them. An operation that may call
  the change callback returns the table of live nodes it passes, if it calls it.
\<close>

subsection \<open>Records\<close>

datatype NodeStatus = ALIVE | SUSPECT | DEAD

fun status_code :: "NodeStatus \<Rightarrow> nat" where
  "status_code ALIVE = 0"
| "status_code SUSPECT = 1"
| "status_code DEAD = 2"

lemma status_code_inj: "status_code s = status_code t \<longleftrightarrow> s = t"
  by (cases s; cases t) simp_all

instantiation NodeStatus :: linorder
begin

definition less_NodeStatus :: "NodeStatus \<Rightarrow> NodeStatus \<Rightarrow> bool" where
  "less_NodeStatus s t = (status_code s < status_code t)"

definition less_eq_NodeStatus :: "NodeStatus \<Rightarrow> NodeStatus \<Rightarrow> bool" where
  "less_eq_NodeStatus s t = (status_code s \<le> status_code t)"

instance
  by standard (auto simp: less_NodeStatus_def less_eq_NodeStatus_def status_code_inj)

end

record MemberRecord =
  mr_node_id :: node_id
  mr_endpoint :: endpoint
  mr_status :: NodeStatus
  mr_heartbeat :: u64
  mr_generation :: u32

record MemberEntry =
  entry_record :: MemberRecord
  last_updated_ms :: u64

record gossip =
  self_node_id :: node_id
  self_endpoint :: endpoint
  seed_nodes :: "endpoint list"
  suspect_threshold_ms :: cint
  dead_threshold_ms :: cint
  member_table :: "MemberEntry int_map"
  running :: bool
  has_callback :: bool
  last_alive_set :: "node_id set"
  self_generation :: u32

type_synonym live_nodes = "endpoint int_map"

subsection \<open>The generation file\<close>

definition generationFilePath :: "node_id \<Rightarrow> string" where
  "generationFilePath n = ''generation_'' @ to_string n @ ''.dat''"

definition loadGeneration :: "node_id \<Rightarrow> (string \<rightharpoonup> string) \<Rightarrow> u32" where
  "loadGeneration n fs = (case fs (generationFilePath n) of None \<Rightarrow> 0 | Some text \<Rightarrow> extract_u32 text)"

text \<open>
  What becomes of the write: the file gets the number, or it is not opened, or it is opened, which
  empties it, and only some characters reach it. The code does not look at the state of the stream.
\<close>

datatype file_write = Written | NotOpened | CutOff nat

definition saveGeneration :: "file_write \<Rightarrow> node_id \<Rightarrow> u32 \<Rightarrow> (string \<rightharpoonup> string) \<Rightarrow> (string \<rightharpoonup> string)" where
  "saveGeneration w n gen fs =
     (case w of
        Written \<Rightarrow> fs(generationFilePath n \<mapsto> u32_string gen)
      | NotOpened \<Rightarrow> fs
      | CutOff k \<Rightarrow> fs(generationFilePath n \<mapsto> take k (u32_string gen)))"

definition new_membership ::
  "file_write \<Rightarrow> node_id \<Rightarrow> endpoint \<Rightarrow> endpoint list \<Rightarrow> cint \<Rightarrow> cint \<Rightarrow> u64 \<Rightarrow> (string \<rightharpoonup> string) \<Rightarrow> gossip \<times> (string \<rightharpoonup> string)" where
  "new_membership w n ep seeds suspect dead now fs =
     (let gen = loadGeneration n fs + 1;
          self = \<lparr>mr_node_id = n, mr_endpoint = ep, mr_status = ALIVE, mr_heartbeat = 0, mr_generation = gen\<rparr>
      in (\<lparr>self_node_id = n, self_endpoint = ep, seed_nodes = seeds,
           suspect_threshold_ms = suspect, dead_threshold_ms = dead,
           member_table = [(n, \<lparr>entry_record = self, last_updated_ms = now\<rparr>)],
           running = False, has_callback = False, last_alive_set = {}, self_generation = gen\<rparr>,
          saveGeneration w n gen fs))"

definition setChangeCallback :: "gossip \<Rightarrow> gossip" where
  "setChangeCallback g = g\<lparr>has_callback := True\<rparr>"

subsection \<open>Views and notification\<close>

definition getMemberView :: "gossip \<Rightarrow> MemberRecord list" where
  "getMemberView g = map (entry_record \<circ> snd) (member_table g)"

definition alive_entries :: "MemberEntry int_map \<Rightarrow> MemberEntry int_map" where
  "alive_entries t = filter (\<lambda>p. mr_status (entry_record (snd p)) = ALIVE) t"

definition current_alive :: "MemberEntry int_map \<Rightarrow> node_id set" where
  "current_alive t = fst ` set (alive_entries t)"

definition live_endpoints :: "MemberEntry int_map \<Rightarrow> live_nodes" where
  "live_endpoints t = map (\<lambda>(n, e). (n, mr_endpoint (entry_record e))) (alive_entries t)"

definition notifyChange :: "gossip \<Rightarrow> gossip \<times> live_nodes option" where
  "notifyChange g =
     (if \<not> has_callback g then (g, None)
      else if current_alive (member_table g) = last_alive_set g then (g, None)
      else (g\<lparr>last_alive_set := current_alive (member_table g)\<rparr>, Some (live_endpoints (member_table g))))"

definition notify_if :: "bool \<Rightarrow> gossip \<Rightarrow> gossip \<times> live_nodes option" where
  "notify_if changed g = (if changed then notifyChange g else (g, None))"

subsection \<open>Merging\<close>

text \<open>One iteration of the loop of \<^verbatim>\<open>mergeView\<close>: the table and the flag \<^verbatim>\<open>changed\<close>.\<close>

definition merge_record ::
  "node_id \<Rightarrow> u64 \<Rightarrow> MemberRecord \<Rightarrow> MemberEntry int_map \<times> bool \<Rightarrow> MemberEntry int_map \<times> bool" where
  "merge_record self now r tc =
     (let (t, changed) = tc in
      if mr_node_id r = self then (t, changed)
      else case lookup t (mr_node_id r) of
        None \<Rightarrow> (AList.update (mr_node_id r) \<lparr>entry_record = r, last_updated_ms = now\<rparr> t, True)
      | Some local \<Rightarrow>
          (let l = entry_record local in
           if mr_generation l < mr_generation r then
             (AList.update (mr_node_id r) (local\<lparr>entry_record := r, last_updated_ms := now\<rparr>) t, True)
           else if mr_generation r < mr_generation l then (t, changed)
           else if mr_heartbeat l < mr_heartbeat r then
             (AList.update (mr_node_id r)
                (local\<lparr>entry_record := l\<lparr>mr_heartbeat := mr_heartbeat r, mr_status := mr_status r\<rparr>,
                       last_updated_ms := now\<rparr>) t, True)
           else if mr_heartbeat r = mr_heartbeat l \<and> status_code (mr_status l) < status_code (mr_status r) then
             (AList.update (mr_node_id r)
                (local\<lparr>entry_record := l\<lparr>mr_status := mr_status r\<rparr>, last_updated_ms := now\<rparr>) t, True)
           else (t, changed)))"

text \<open>The loop over a message, with the merge of one record as an argument.\<close>

fun merge_all ::
  "(u64 \<Rightarrow> MemberRecord \<Rightarrow> MemberEntry int_map \<times> bool \<Rightarrow> MemberEntry int_map \<times> bool)
     \<Rightarrow> (nat \<Rightarrow> u64) \<Rightarrow> nat \<Rightarrow> MemberRecord list \<Rightarrow> MemberEntry int_map \<times> bool \<Rightarrow> MemberEntry int_map \<times> bool" where
  "merge_all f clk i [] tc = tc"
| "merge_all f clk i (r # rs) tc = merge_all f clk (Suc i) rs (f (clk i) r tc)"

definition mergeView ::
  "(nat \<Rightarrow> u64) \<Rightarrow> MemberRecord list \<Rightarrow> gossip \<Rightarrow> gossip \<times> live_nodes option \<times> MemberRecord list" where
  "mergeView clk incoming g =
     (let (t, changed) = merge_all (merge_record (self_node_id g)) clk 0 incoming (member_table g, False);
          g = g\<lparr>member_table := t\<rparr>;
          response = getMemberView g;
          (g, live) = notify_if changed g
      in (g, live, response))"

text \<open>One iteration of the loop of \<^verbatim>\<open>doGossipRound\<close> over the response.\<close>

definition newer :: "MemberRecord \<Rightarrow> MemberRecord \<Rightarrow> bool" where
  "newer r l \<longleftrightarrow>
     mr_generation l < mr_generation r
     \<or> mr_generation r = mr_generation l \<and> mr_heartbeat l < mr_heartbeat r
     \<or> mr_generation r = mr_generation l \<and> mr_heartbeat r = mr_heartbeat l
       \<and> status_code (mr_status l) < status_code (mr_status r)"

definition round_record ::
  "node_id \<Rightarrow> u64 \<Rightarrow> MemberRecord \<Rightarrow> MemberEntry int_map \<times> bool \<Rightarrow> MemberEntry int_map \<times> bool" where
  "round_record self now r tc =
     (let (t, changed) = tc in
      if mr_node_id r = self then (t, changed)
      else case lookup t (mr_node_id r) of
        None \<Rightarrow> (AList.update (mr_node_id r) \<lparr>entry_record = r, last_updated_ms = now\<rparr> t, True)
      | Some local \<Rightarrow>
          if newer r (entry_record local) then
            (AList.update (mr_node_id r) (local\<lparr>entry_record := r, last_updated_ms := now\<rparr>) t, True)
          else (t, changed))"

definition round_response :: "(nat \<Rightarrow> u64) \<Rightarrow> MemberRecord list \<Rightarrow> gossip \<Rightarrow> gossip \<times> live_nodes option" where
  "round_response clk response g =
     (let (t, changed) = merge_all (round_record (self_node_id g)) clk 0 response (member_table g, False)
      in notify_if changed (g\<lparr>member_table := t\<rparr>))"

subsection \<open>Rounds\<close>

definition alive_peers :: "gossip \<Rightarrow> endpoint list" where
  "alive_peers g =
     map (mr_endpoint \<circ> entry_record \<circ> snd)
       (filter (\<lambda>(n, e). n \<noteq> self_node_id g \<and> mr_status (entry_record e) = ALIVE) (member_table g))"

definition pickRandomPeer :: "(nat \<Rightarrow> nat) \<Rightarrow> gossip \<Rightarrow> endpoint" where
  "pickRandomPeer randomInt g =
     (let ps = alive_peers g in if ps = [] then [] else ps ! randomInt (length ps))"

text \<open>The RPC: what the peer answers to the view it is sent, or the exception it ends with.\<close>

type_synonym exchange = "endpoint \<Rightarrow> MemberRecord list \<Rightarrow> exn + MemberRecord list"

definition doGossipRound :: "exchange \<Rightarrow> (nat \<Rightarrow> nat) \<Rightarrow> (nat \<Rightarrow> u64) \<Rightarrow> gossip \<Rightarrow> gossip \<times> live_nodes option" where
  "doGossipRound sendGossipExchange randomInt clk g =
     (let peer = pickRandomPeer randomInt g in
      if peer = [] then (g, None)
      else case sendGossipExchange peer (getMemberView g) of
        Inl e \<Rightarrow> (g, None)
      | Inr response \<Rightarrow> round_response clk response g)"

text \<open>The loop body of \<^verbatim>\<open>detectFailures\<close> on one entry, then the loop.\<close>

definition age_entry :: "gossip \<Rightarrow> u64 \<Rightarrow> MemberEntry \<Rightarrow> MemberEntry \<times> bool" where
  "age_entry g now entry =
     (let age = now - last_updated_ms entry;
          (entry, changed) =
            (if mr_status (entry_record entry) = ALIVE \<and> scast (suspect_threshold_ms g) < age
             then (entry\<lparr>entry_record := (entry_record entry)\<lparr>mr_status := SUSPECT\<rparr>\<rparr>, True)
             else (entry, False))
      in if mr_status (entry_record entry) = SUSPECT \<and> scast (dead_threshold_ms g) < age
         then (entry\<lparr>entry_record := (entry_record entry)\<lparr>mr_status := DEAD\<rparr>\<rparr>, True)
         else (entry, changed))"

definition age_member :: "gossip \<Rightarrow> u64 \<Rightarrow> node_id \<times> MemberEntry \<Rightarrow> node_id \<times> MemberEntry" where
  "age_member g now p = (if fst p = self_node_id g then p else (fst p, fst (age_entry g now (snd p))))"

definition aged :: "gossip \<Rightarrow> u64 \<Rightarrow> node_id \<times> MemberEntry \<Rightarrow> bool" where
  "aged g now p \<longleftrightarrow> fst p \<noteq> self_node_id g \<and> snd (age_entry g now (snd p))"

definition detectFailures :: "u64 \<Rightarrow> gossip \<Rightarrow> gossip \<times> live_nodes option" where
  "detectFailures now g =
     notify_if (list_ex (aged g now) (member_table g))
       (g\<lparr>member_table := map (age_member g now) (member_table g)\<rparr>)"

definition update_self :: "(MemberEntry \<Rightarrow> MemberEntry) \<Rightarrow> gossip \<Rightarrow> gossip" where
  "update_self f g =
     (case lookup (member_table g) (self_node_id g) of
        None \<Rightarrow> g
      | Some e \<Rightarrow> g\<lparr>member_table := AList.update (self_node_id g) (f e) (member_table g)\<rparr>)"

definition beat :: "u64 \<Rightarrow> MemberEntry \<Rightarrow> MemberEntry" where
  "beat now e = e\<lparr>entry_record := (entry_record e)\<lparr>mr_heartbeat := mr_heartbeat (entry_record e) + 1\<rparr>,
                  last_updated_ms := now\<rparr>"

text \<open>The critical section of an iteration of \<^verbatim>\<open>gossipLoop\<close>; a round follows it.\<close>

definition heartbeat_step :: "u64 \<Rightarrow> u64 \<Rightarrow> gossip \<Rightarrow> gossip \<times> live_nodes option" where
  "heartbeat_step now now' g = detectFailures now' (update_self (beat now) g)"

text \<open>An iteration of the loop, with the calls of the callback in order; \<open>None\<close> ends the loop.\<close>

definition gossip_iteration ::
  "exchange \<Rightarrow> (nat \<Rightarrow> nat) \<Rightarrow> u64 \<Rightarrow> u64 \<Rightarrow> (nat \<Rightarrow> u64) \<Rightarrow> gossip \<Rightarrow> (gossip \<times> live_nodes option list) option" where
  "gossip_iteration send randomInt now now' clk g =
     (if \<not> running g then None
      else (let (g, live1) = heartbeat_step now now' g; (g, live2) = doGossipRound send randomInt clk g
            in Some (g, [live1, live2])))"

subsection \<open>Start and stop\<close>

text \<open>
  The response of a seed: \<^verbatim>\<open>member_table_[r.node_id]\<close> creates a missing entry, and for another
  node the record replaces what was there.
\<close>

definition empty_entry :: MemberEntry where
  "empty_entry = \<lparr>entry_record = \<lparr>mr_node_id = 0, mr_endpoint = [], mr_status = ALIVE, mr_heartbeat = 0,
     mr_generation = 0\<rparr>, last_updated_ms = 0\<rparr>"

definition seed_record ::
  "node_id \<Rightarrow> u64 \<Rightarrow> MemberRecord \<Rightarrow> MemberEntry int_map \<times> bool \<Rightarrow> MemberEntry int_map \<times> bool" where
  "seed_record self now r tc =
     (let (t, changed) = tc;
          t = (if lookup t (mr_node_id r) = None then AList.update (mr_node_id r) empty_entry t else t)
      in if mr_node_id r = self then (t, changed)
         else (AList.update (mr_node_id r) \<lparr>entry_record = r, last_updated_ms = now\<rparr> t, changed))"

definition take_seed :: "(nat \<Rightarrow> u64) \<Rightarrow> MemberRecord list \<Rightarrow> gossip \<Rightarrow> gossip" where
  "take_seed clk response g =
     g\<lparr>member_table := fst (merge_all (seed_record (self_node_id g)) clk 0 response (member_table g, False))\<rparr>"

text \<open>
  The loop over the seeds, when nothing else happens meanwhile. The lock is free during each of the
  calls, and the server is already registered, so other gossip can be merged between the answers; the
  events of the server (\<open>ServerMain\<close>) take the answers one by one.
\<close>

fun contact_seeds :: "exchange \<Rightarrow> (nat \<Rightarrow> nat \<Rightarrow> u64) \<Rightarrow> endpoint list \<Rightarrow> gossip \<Rightarrow> gossip" where
  "contact_seeds send clk [] g = g"
| "contact_seeds send clk (seed # seeds) g =
     (if seed = self_endpoint g then contact_seeds send clk seeds g
      else case send seed (getMemberView g) of
        Inl e \<Rightarrow> contact_seeds send clk seeds g
      | Inr response \<Rightarrow> contact_seeds send clk seeds (take_seed (clk (length seeds)) response g))"

definition start :: "exchange \<Rightarrow> (nat \<Rightarrow> nat \<Rightarrow> u64) \<Rightarrow> gossip \<Rightarrow> gossip" where
  "start send clk g = contact_seeds send clk (seed_nodes g) (g\<lparr>running := True\<rparr>)"

definition retire :: "MemberEntry \<Rightarrow> MemberEntry" where
  "retire e = e\<lparr>entry_record := (entry_record e)
     \<lparr>mr_status := DEAD, mr_heartbeat := mr_heartbeat (entry_record e) + 1\<rparr>\<rparr>"

text \<open>The critical section of \<^verbatim>\<open>stop\<close>, which notifies no one; then a last round.\<close>

definition retire_self :: "gossip \<Rightarrow> gossip" where
  "retire_self g = update_self retire (g\<lparr>running := False\<rparr>)"

definition stop :: "exchange \<Rightarrow> (nat \<Rightarrow> nat) \<Rightarrow> (nat \<Rightarrow> u64) \<Rightarrow> gossip \<Rightarrow> gossip \<times> live_nodes option" where
  "stop send randomInt clk g = doGossipRound send randomInt clk (retire_self g)"

end
