(* ===== verification/GossipMerge.thy ===== *)
theory GossipMerge
  imports Gossip
begin

text \<open>
  Merging as a join. What a table knows of a node is ranked by generation, heartbeat and status,
  lexicographically. Both merge loops of the code are instances of one interface: every record
  raises the rank of its node to the maximum and touches no other node, and the node's own entry
  never changes. The consequences (order and repetition do not matter, an exchange makes two tables
  agree, nothing is ever lowered) are proved once, inside the interface.
\<close>

type_synonym rank = "u32 \<times> u64 \<times> NodeStatus"

definition rank_of :: "MemberRecord \<Rightarrow> rank" where
  "rank_of r = (mr_generation r, mr_heartbeat r, mr_status r)"

definition ranks :: "MemberEntry int_map \<Rightarrow> node_id \<Rightarrow> rank option" where
  "ranks t n = map_option (rank_of \<circ> entry_record) (lookup t n)"

text \<open>The join of what is known with a record.\<close>

fun join :: "rank option \<Rightarrow> rank \<Rightarrow> rank option" where
  "join None r = Some r"
| "join (Some l) r = Some (max l r)"

lemma join_commute: "join (join k r) s = join (join k s) r"
  by (cases k) (auto simp: max.commute max.left_commute)

lemma join_idem [simp]: "join (join k r) r = join k r"
  by (cases k) auto

definition joins :: "rank option \<Rightarrow> rank list \<Rightarrow> rank option" where
  "joins k rs = foldl join k rs"

lemma joins_simps [simp]: "joins k [] = k" "joins k (r # rs) = joins (join k r) rs"
  by (simp_all add: joins_def)

lemma joins_join: "joins (join k r) rs = join (joins k rs) r"
  by (induction rs arbitrary: k) (simp_all add: join_commute [of _ r])

lemma joins_append: "joins k (rs @ ss) = joins (joins k rs) ss"
  by (simp add: joins_def)

lemma join_mem: "r \<in> set rs \<Longrightarrow> join (joins k rs) r = joins k rs"
  by (induction rs arbitrary: k) (auto simp: joins_join [symmetric])

lemma joins_Some_Max: "joins (Some l) rs = Some (Max (set (l # rs)))"
proof (induction rs arbitrary: l)
  case (Cons r rs)
  have "Max (insert (max l r) (set rs)) = Max (insert l (insert r (set rs)))"
    by (cases "rs = []") (simp_all add: max.assoc)
  then show ?case using Cons by simp
qed simp

lemma joins_None: "joins None rs = (if rs = [] then None else Some (Max (set rs)))"
  by (cases rs) (simp, simp only: joins_simps join.simps joins_Some_Max list.distinct if_False)

lemma joins_cong: "set rs = set ss \<Longrightarrow> joins k rs = joins k ss"
proof (cases k)
  case None
  assume s: "set rs = set ss"
  then have "rs = [] \<longleftrightarrow> ss = []" by (metis set_empty)
  with None s show ?thesis by (simp add: joins_None)
qed (simp add: joins_Some_Max)

definition known_ge :: "rank option \<Rightarrow> rank option \<Rightarrow> bool" where
  "known_ge k k' \<longleftrightarrow> (case k' of None \<Rightarrow> True | Some l \<Rightarrow> (case k of None \<Rightarrow> False | Some l' \<Rightarrow> l \<le> l'))"

lemma known_ge_refl [simp]: "known_ge k k"
  by (simp add: known_ge_def split: option.split)

lemma known_ge_trans: "known_ge a b \<Longrightarrow> known_ge b c \<Longrightarrow> known_ge a c"
  by (auto simp: known_ge_def split: option.splits)

lemma known_ge_joins: "known_ge (joins k rs) k"
  by (cases k) (auto simp: known_ge_def joins_Some_Max)

subsection \<open>The interface of a merge\<close>

text \<open>The ranks a message carries about a node.\<close>

definition about_node :: "node_id \<Rightarrow> MemberRecord list \<Rightarrow> rank list" where
  "about_node n rs = map rank_of (filter (\<lambda>r. mr_node_id r = n) rs)"

definition keyed :: "MemberEntry int_map \<Rightarrow> bool" where
  "keyed t \<longleftrightarrow> wf_map t \<and> (\<forall>n e. lookup t n = Some e \<longrightarrow> mr_node_id (entry_record e) = n)"

locale join_merge =
  fixes merge1 :: "node_id \<Rightarrow> u64 \<Rightarrow> MemberRecord \<Rightarrow> MemberEntry int_map \<times> bool \<Rightarrow> MemberEntry int_map \<times> bool"
  assumes merge1_rank: "mr_node_id r \<noteq> self \<Longrightarrow>
      ranks (fst (merge1 self now r tc)) = (ranks (fst tc))(mr_node_id r := join (ranks (fst tc) (mr_node_id r)) (rank_of r))"
    and merge1_self: "mr_node_id r = self \<Longrightarrow> merge1 self now r tc = tc"
    and merge1_other: "n \<noteq> mr_node_id r \<Longrightarrow> lookup (fst (merge1 self now r tc)) n = lookup (fst tc) n"
    and merge1_keyed: "keyed (fst tc) \<Longrightarrow> keyed (fst (merge1 self now r tc))"
    and merge1_endpoint: "lookup (fst (merge1 self now r tc)) n = Some e \<Longrightarrow>
      mr_node_id r = n \<and> mr_endpoint (entry_record e) = mr_endpoint r
      \<or> (\<exists>e0. lookup (fst tc) n = Some e0 \<and> mr_endpoint (entry_record e) = mr_endpoint (entry_record e0))"
begin

lemma merge_all_endpoint:
  "lookup (fst (merge_all (merge1 self) clk i rs tc)) n = Some e \<Longrightarrow>
   (\<exists>r \<in> set rs. mr_node_id r = n \<and> mr_endpoint (entry_record e) = mr_endpoint r)
   \<or> (\<exists>e0. lookup (fst tc) n = Some e0 \<and> mr_endpoint (entry_record e) = mr_endpoint (entry_record e0))"
proof (induction rs arbitrary: i tc)
  case (Cons r rs)
  from Cons.IH [of "Suc i" "merge1 self (clk i) r tc"] Cons.prems
  show ?case using merge1_endpoint [of self "clk i" r tc n] by auto
qed simp

lemma merge_all_rank:
  "n \<noteq> self \<Longrightarrow> ranks (fst (merge_all (merge1 self) clk i rs tc)) n = joins (ranks (fst tc) n) (about_node n rs)"
proof (induction rs arbitrary: i tc)
  case (Cons r rs)
  then show ?case
    by (cases "mr_node_id r = self") (auto simp: about_node_def merge1_rank merge1_self)
qed (simp add: about_node_def)

lemma merge_all_self: "lookup (fst (merge_all (merge1 self) clk i rs tc)) self = lookup (fst tc) self"
proof (induction rs arbitrary: i tc)
  case (Cons r rs)
  then show ?case by (cases "mr_node_id r = self") (simp_all add: merge1_self merge1_other)
qed simp

lemma merge_all_keyed: "keyed (fst tc) \<Longrightarrow> keyed (fst (merge_all (merge1 self) clk i rs tc))"
  by (induction rs arbitrary: i tc) (simp_all add: merge1_keyed)

lemma merge_all_monotone: "known_ge (ranks (fst (merge_all (merge1 self) clk i rs tc)) n) (ranks (fst tc) n)"
proof (cases "n = self")
  case True
  then show ?thesis by (simp add: ranks_def merge_all_self)
qed (simp add: merge_all_rank known_ge_joins)

lemma merge_all_absorbs:
  "n \<noteq> self \<Longrightarrow> set ms \<subseteq> set rs \<Longrightarrow>
   ranks (fst (merge_all (merge1 self) clk' j ms (merge_all (merge1 self) clk i rs tc))) n
     = ranks (fst (merge_all (merge1 self) clk i rs tc)) n"
proof -
  assume n: "n \<noteq> self" and s: "set ms \<subseteq> set rs"
  then have "set (about_node n rs @ about_node n ms) = set (about_node n rs)" by (auto simp: about_node_def)
  from joins_cong [OF this, of "ranks (fst tc) n"] n show ?thesis
    by (simp add: merge_all_rank joins_append)
qed

lemma merge_all_order:
  "n \<noteq> self \<Longrightarrow> set rs = set ms \<Longrightarrow>
   ranks (fst (merge_all (merge1 self) clk i rs tc)) n = ranks (fst (merge_all (merge1 self) clk' j ms tc')) n"
  if "ranks (fst tc) n = ranks (fst tc') n"
proof -
  assume "n \<noteq> self" "set rs = set ms"
  then have "set (about_node n rs) = set (about_node n ms)" by (auto simp: about_node_def)
  from joins_cong [OF this] that \<open>n \<noteq> self\<close> show ?thesis by (simp add: merge_all_rank)
qed

end

subsection \<open>Both loops of the code are joins\<close>

lemma ranks_update: "ranks (AList.update n e t) = (ranks t)(n := Some (rank_of (entry_record e)))"
  by (simp add: ranks_def fun_eq_iff map_simps)

lemma keyed_update: "keyed t \<Longrightarrow> mr_node_id (entry_record e) = n \<Longrightarrow> keyed (AList.update n e t)"
  by (auto simp: keyed_def map_simps)

lemma keyed_lookup: "keyed t \<Longrightarrow> lookup t n = Some e \<Longrightarrow> mr_node_id (entry_record e) = n"
  by (simp add: keyed_def)

lemma rank_less: "rank_of l < rank_of r \<longleftrightarrow> newer r l"
  by (auto simp: rank_of_def newer_def less_prod_def' less_NodeStatus_def)

lemma max_newer: "max (rank_of l) (rank_of r) = (if newer r l then rank_of r else rank_of l)"
  using rank_less [of l r] by (auto simp: max_def order_le_less)

lemma ranks_fun_upd_same: "ranks t n = Some k \<Longrightarrow> (ranks t)(n := Some k) = ranks t"
  by auto

lemma round_record_rank:
  assumes "mr_node_id r \<noteq> self"
  shows "ranks (fst (round_record self now r tc)) =
    (ranks (fst tc))(mr_node_id r := join (ranks (fst tc) (mr_node_id r)) (rank_of r))"
proof (cases "lookup (fst tc) (mr_node_id r)")
  case None
  then show ?thesis using assms by (simp add: round_record_def split_beta ranks_update, simp add: ranks_def)
next
  case (Some e)
  then have "ranks (fst tc) (mr_node_id r) = Some (rank_of (entry_record e))" by (simp add: ranks_def)
  with Some assms show ?thesis
    by (auto simp: round_record_def split_beta ranks_update max_newer)
qed

lemma merge_record_rank:
  assumes "mr_node_id r \<noteq> self"
  shows "ranks (fst (merge_record self now r tc)) =
    (ranks (fst tc))(mr_node_id r := join (ranks (fst tc) (mr_node_id r)) (rank_of r))"
proof (cases "lookup (fst tc) (mr_node_id r)")
  case None
  then show ?thesis using assms by (simp add: merge_record_def split_beta ranks_update, simp add: ranks_def)
next
  case (Some e)
  then have "ranks (fst tc) (mr_node_id r) = Some (rank_of (entry_record e))" by (simp add: ranks_def)
  with Some assms show ?thesis
    by (auto simp: merge_record_def split_beta Let_def ranks_update max_newer newer_def)
      (auto simp: rank_of_def)
qed

interpretation view: join_merge merge_record
proof
  fix r :: MemberRecord and self now and tc :: "MemberEntry int_map \<times> bool" and n
  show "mr_node_id r \<noteq> self \<Longrightarrow> ranks (fst (merge_record self now r tc))
      = (ranks (fst tc))(mr_node_id r := join (ranks (fst tc) (mr_node_id r)) (rank_of r))"
    by (rule merge_record_rank)
  show "mr_node_id r = self \<Longrightarrow> merge_record self now r tc = tc"
    by (simp add: merge_record_def split_beta)
  show "n \<noteq> mr_node_id r \<Longrightarrow> lookup (fst (merge_record self now r tc)) n = lookup (fst tc) n"
    by (auto simp: merge_record_def split_beta Let_def map_simps split: option.split)
  show "keyed (fst tc) \<Longrightarrow> keyed (fst (merge_record self now r tc))"
    by (auto simp: merge_record_def split_beta Let_def dest: keyed_lookup intro!: keyed_update split: option.split)
  show "mr_node_id r = n \<and> mr_endpoint (entry_record e) = mr_endpoint r
      \<or> (\<exists>e0. lookup (fst tc) n = Some e0 \<and> mr_endpoint (entry_record e) = mr_endpoint (entry_record e0))"
    if "lookup (fst (merge_record self now r tc)) n = Some e" for e
    using that by (auto simp: merge_record_def split_beta Let_def map_simps split: option.splits if_splits)
qed

interpretation round: join_merge round_record
proof
  fix r :: MemberRecord and self now and tc :: "MemberEntry int_map \<times> bool" and n
  show "mr_node_id r \<noteq> self \<Longrightarrow> ranks (fst (round_record self now r tc))
      = (ranks (fst tc))(mr_node_id r := join (ranks (fst tc) (mr_node_id r)) (rank_of r))"
    by (rule round_record_rank)
  show "mr_node_id r = self \<Longrightarrow> round_record self now r tc = tc"
    by (simp add: round_record_def split_beta)
  show "n \<noteq> mr_node_id r \<Longrightarrow> lookup (fst (round_record self now r tc)) n = lookup (fst tc) n"
    by (auto simp: round_record_def split_beta Let_def map_simps split: option.split)
  show "keyed (fst tc) \<Longrightarrow> keyed (fst (round_record self now r tc))"
    by (auto simp: round_record_def split_beta Let_def intro!: keyed_update split: option.split)
  show "mr_node_id r = n \<and> mr_endpoint (entry_record e) = mr_endpoint r
      \<or> (\<exists>e0. lookup (fst tc) n = Some e0 \<and> mr_endpoint (entry_record e) = mr_endpoint (entry_record e0))"
    if "lookup (fst (round_record self now r tc)) n = Some e" for e
    using that by (auto simp: round_record_def split_beta Let_def map_simps split: option.splits if_splits)
qed

end
