(* ===== verification/GossipClaims.thy ===== *)
theory GossipClaims
  imports GossipMerge
begin

text \<open>
  The properties of the membership table: merging is a join, an exchange makes two tables agree,
  what is known of a node never goes back, failure detection follows the thresholds, the callback
  follows the set of live nodes, a restart outranks the earlier life of a node.
\<close>

subsection \<open>Shared lemmas\<close>

lemma notifyChange_simps [simp]:
  "member_table (fst (notifyChange g)) = member_table g"
  "self_node_id (fst (notifyChange g)) = self_node_id g"
  "has_callback (fst (notifyChange g)) = has_callback g"
  "suspect_threshold_ms (fst (notifyChange g)) = suspect_threshold_ms g"
  "dead_threshold_ms (fst (notifyChange g)) = dead_threshold_ms g"
  "running (fst (notifyChange g)) = running g"
  by (simp_all add: notifyChange_def)

lemma notify_if_simps [simp]:
  "member_table (fst (notify_if c g)) = member_table g"
  "self_node_id (fst (notify_if c g)) = self_node_id g"
  "has_callback (fst (notify_if c g)) = has_callback g"
  "suspect_threshold_ms (fst (notify_if c g)) = suspect_threshold_ms g"
  "dead_threshold_ms (fst (notify_if c g)) = dead_threshold_ms g"
  "running (fst (notify_if c g)) = running g"
  by (simp_all add: notify_if_def)

lemma mergeView_table:
  "member_table (fst (mergeView clk rs g)) = fst (merge_all (merge_record (self_node_id g)) clk 0 rs (member_table g, False))"
  "self_node_id (fst (mergeView clk rs g)) = self_node_id g"
  by (simp_all add: mergeView_def split_beta Let_def)

lemma mergeView_response: "snd (snd (mergeView clk rs g)) = getMemberView (fst (mergeView clk rs g))"
  by (simp add: mergeView_def split_beta Let_def getMemberView_def)

lemma round_table:
  "member_table (fst (round_response clk rs g)) = fst (merge_all (round_record (self_node_id g)) clk 0 rs (member_table g, False))"
  "self_node_id (fst (round_response clk rs g)) = self_node_id g"
  by (simp_all add: round_response_def split_beta Let_def)

lemma about_view:
  assumes "keyed t"
  shows "about_node n (map (\<lambda>p. entry_record (snd p)) t) = (case ranks t n of None \<Rightarrow> [] | Some k \<Rightarrow> [k])"
proof -
  have "about_node n (map (\<lambda>p. entry_record (snd p)) t) = (case ranks t n of None \<Rightarrow> [] | Some k \<Rightarrow> [k])"
    if "wf_map t" "\<forall>(m, e) \<in> set t. mr_node_id (entry_record e) = m"
    using that
  proof (induction t)
    case (Cons p t)
    obtain m e where p: "p = (m, e)" by (cases p)
    have IH: "about_node n (map (\<lambda>p. entry_record (snd p)) t) = (case ranks t n of None \<Rightarrow> [] | Some k \<Rightarrow> [k])"
      by (rule Cons.IH) (use Cons.prems in \<open>auto simp: wf_map_def\<close>)
    show ?case
    proof (cases "n = m")
      case True
      with Cons.prems p have "ranks t n = None" by (auto simp: ranks_def wf_map_def map_of_eq_None_iff)
      with IH True p Cons.prems show ?thesis by (simp add: about_node_def ranks_def)
    next
      case False
      with IH p Cons.prems show ?thesis by (simp add: about_node_def ranks_def)
    qed
  qed (simp add: about_node_def ranks_def)
  moreover have "\<forall>(m, e) \<in> set t. mr_node_id (entry_record e) = m"
    using assms by (auto simp: keyed_def wf_map_def)
  ultimately show ?thesis using assms by (simp add: keyed_def)
qed

definition keyed_state :: "gossip \<Rightarrow> bool" where
  "keyed_state g \<longleftrightarrow> keyed (member_table g) \<and> lookup (member_table g) (self_node_id g) \<noteq> None"

lemma about_getMemberView:
  "keyed (member_table g) \<Longrightarrow> about_node n (getMemberView g) = (case ranks (member_table g) n of None \<Rightarrow> [] | Some k \<Rightarrow> [k])"
  unfolding getMemberView_def comp_def by (rule about_view)

abbreviation known :: "gossip \<Rightarrow> node_id \<Rightarrow> rank option" where
  "known g n \<equiv> ranks (member_table g) n"

subsection \<open>Merging is a join\<close>

text \<open>
  Claim C30: after a node merges a message, from a peer's request or from a response, what it knows
  of any other node is the maximum, by generation, then heartbeat, then severity of the status, of
  what it knew and what the message says; its own entry is untouched and the answer is its new view.
\<close>

theorem merge_is_join:
  "(let (g', live, response) = mergeView clk rs g in
      response = getMemberView g'
      \<and> lookup (member_table g') (self_node_id g) = lookup (member_table g) (self_node_id g)
      \<and> (\<forall>n. n = self_node_id g \<or> known g' n = joins (known g n) (about_node n rs)))
   \<and> (let (g', live) = round_response clk rs g in
      lookup (member_table g') (self_node_id g) = lookup (member_table g) (self_node_id g)
      \<and> (\<forall>n. n = self_node_id g \<or> known g' n = joins (known g n) (about_node n rs)))
   \<and> (\<forall>k ks. joins (Some k) ks = Some (Max (insert k (set ks))))"
  using view.merge_all_rank [of _ "self_node_id g" clk 0 rs "(member_table g, False)"]
    round.merge_all_rank [of _ "self_node_id g" clk 0 rs "(member_table g, False)"]
  by (auto simp: split_beta mergeView_table round_table mergeView_response view.merge_all_self round.merge_all_self joins_Some_Max)

text \<open>
  Messages commute and may be repeated. Two nodes with the same id that know the same
  and merge the same set of records, in any order, split into any messages, with repetitions and
  at any times, know the same afterwards.
\<close>

theorem merge_order_irrelevant:
  assumes "self_node_id g = self_node_id h" "\<forall>n. known g n = known h n"
    and "set rs1 \<union> set rs2 = set ms1 \<union> set ms2"
  shows "known (fst (mergeView c2 rs2 (fst (mergeView c1 rs1 g)))) n
       = known (fst (round_response d2 ms2 (fst (mergeView d1 ms1 h)))) n"
proof (cases "n = self_node_id h")
  case True
  then show ?thesis using assms(1,2)
    by (simp add: mergeView_table round_table ranks_def view.merge_all_self round.merge_all_self)
next
  case False
  have "set (about_node n rs) = rank_of ` {r \<in> set rs. mr_node_id r = n}" for rs
    by (auto simp: about_node_def)
  then have "set (about_node n (rs1 @ rs2)) = set (about_node n (ms1 @ ms2))"
    using assms(3) by simp
  from joins_cong [OF this, of "known h n"] False assms(1,2) show ?thesis
    by (simp add: mergeView_table round_table view.merge_all_rank round.merge_all_rank about_node_def joins_append)
qed

subsection \<open>An exchange\<close>

lemma keyed_mergeView: "keyed (member_table g) \<Longrightarrow> keyed (member_table (fst (mergeView clk rs g)))"
  by (simp add: mergeView_table view.merge_all_keyed)

lemma keyed_round: "keyed (member_table g) \<Longrightarrow> keyed (member_table (fst (round_response clk rs g)))"
  by (simp add: round_table round.merge_all_keyed)

lemma known_mergeView_joins:
  "n \<noteq> self_node_id g \<Longrightarrow> known (fst (mergeView clk rs g)) n = joins (known g n) (about_node n rs)"
  by (simp add: mergeView_table view.merge_all_rank)

lemma known_mergeView_from:
  assumes "keyed (member_table a)" "n \<noteq> self_node_id b"
  shows "known (fst (mergeView clk (getMemberView a) b)) n
    = (case known a n of None \<Rightarrow> known b n | Some k \<Rightarrow> join (known b n) k)"
  using assms by (simp add: mergeView_table view.merge_all_rank about_getMemberView split: option.split)

lemma known_round_from:
  assumes "keyed (member_table b)" "n \<noteq> self_node_id a"
  shows "known (fst (round_response clk (getMemberView b) a)) n
    = (case known b n of None \<Rightarrow> known a n | Some k \<Rightarrow> join (known a n) k)"
  using assms by (simp add: round_table round.merge_all_rank about_getMemberView split: option.split)

text \<open>
  One exchange makes the two nodes agree. When \<open>a\<close> sends its view to \<open>b\<close> and merges the
  answer, both know the same of every third node, namely the newer of what the two knew; \<open>b\<close> knows
  at least what \<open>a\<close> says of itself, and \<open>a\<close> at least what \<open>b\<close> says of itself.
\<close>

theorem exchange_converges:
  assumes "keyed (member_table a)" "keyed (member_table b)" "self_node_id a \<noteq> self_node_id b"
    and "mergeView cb (getMemberView a) b = (b', live_b, response)" "round_response ca response a = (a', live_a)"
  shows "(\<forall>n. n \<noteq> self_node_id a \<and> n \<noteq> self_node_id b \<longrightarrow>
           known a' n = known b' n \<and> known_ge (known a' n) (known a n) \<and> known_ge (known a' n) (known b n)
           \<and> (known a' n = known a n \<or> known a' n = known b n))
       \<and> known_ge (known b' (self_node_id a)) (known a (self_node_id a))
       \<and> known_ge (known a' (self_node_id b)) (known b (self_node_id b))"
proof -
  have b': "b' = fst (mergeView cb (getMemberView a) b)" and r: "response = getMemberView b'"
    using assms(4) mergeView_response [of cb "getMemberView a" b] by simp_all
  have a': "a' = fst (round_response ca (getMemberView b') a)" using assms(5) r by simp
  have kb': "keyed (member_table b')" using assms(2) by (simp add: b' keyed_mergeView)
  have K: "known b' n = (case known a n of None \<Rightarrow> known b n | Some k \<Rightarrow> join (known b n) k)"
    if "n \<noteq> self_node_id b" for n
    unfolding b' using assms(1) that by (rule known_mergeView_from)
  have L: "known a' n = (case known b' n of None \<Rightarrow> known a n | Some k \<Rightarrow> join (known a n) k)"
    if "n \<noteq> self_node_id a" for n
    unfolding a' using kb' that by (rule known_round_from)
  have third: "known a' n = known b' n \<and> known_ge (known a' n) (known a n) \<and> known_ge (known a' n) (known b n)
      \<and> (known a' n = known a n \<or> known a' n = known b n)"
    if "n \<noteq> self_node_id a" "n \<noteq> self_node_id b" for n
    using K [OF that(2)] L [OF that(1)]
    by (cases "known a n"; cases "known b n") (auto simp: known_ge_def max_def)
  have self_b: "known b' (self_node_id b) = known b (self_node_id b)"
    unfolding b' by (simp add: mergeView_table ranks_def view.merge_all_self)
  have "known_ge (known b' (self_node_id a)) (known a (self_node_id a))"
    using K [OF assms(3)] by (cases "known a (self_node_id a)"; cases "known b (self_node_id a)") (auto simp: known_ge_def)
  moreover have "known_ge (known a' (self_node_id b)) (known b (self_node_id b))"
    using L [OF assms(3) [symmetric]] self_b
    by (cases "known a (self_node_id b)"; cases "known b (self_node_id b)") (auto simp: known_ge_def)
  ultimately show ?thesis using third by blast
qed

subsection \<open>What is known never goes back\<close>

lemma update_self_simps [simp]:
  "self_node_id (update_self f g) = self_node_id g"
  "suspect_threshold_ms (update_self f g) = suspect_threshold_ms g"
  "dead_threshold_ms (update_self f g) = dead_threshold_ms g"
  "has_callback (update_self f g) = has_callback g"
  "last_alive_set (update_self f g) = last_alive_set g"
  "running (update_self f g) = running g"
  by (simp_all add: update_self_def split: option.split)

lemma known_update_self:
  "known (update_self f g) n =
     (if n = self_node_id g then map_option (\<lambda>e. rank_of (entry_record (f e))) (lookup (member_table g) n) else known g n)"
  by (simp add: update_self_def ranks_def map_simps split: option.split)

lemma lookup_aged:
  "lookup (map (age_member g now) t) n =
     map_option (\<lambda>e. if n = self_node_id g then e else fst (age_entry g now e)) (lookup t n)"
  by (induction t) (auto simp: age_member_def)

lemma detectFailures_table [simp]:
  "member_table (fst (detectFailures now g)) = map (age_member g now) (member_table g)"
  "self_node_id (fst (detectFailures now g)) = self_node_id g"
  "has_callback (fst (detectFailures now g)) = has_callback g"
  by (simp_all add: detectFailures_def)

lemma rank_age_entry: "rank_of (entry_record e) \<le> rank_of (entry_record (fst (age_entry g now e)))"
  by (auto simp: age_entry_def Let_def rank_of_def less_eq_prod_def less_eq_NodeStatus_def)

lemma known_detectFailures: "known_ge (known (fst (detectFailures now g)) n) (known g n)"
  by (simp add: ranks_def lookup_aged known_ge_def rank_age_entry split: option.split)

lemma known_mergeView: "known_ge (known (fst (mergeView clk rs g)) n) (known g n)"
  using view.merge_all_monotone [of "self_node_id g" clk 0 rs "(member_table g, False)" n]
  by (simp add: mergeView_table)

lemma known_round_response: "known_ge (known (fst (round_response clk rs g)) n) (known g n)"
  using round.merge_all_monotone [of "self_node_id g" clk 0 rs "(member_table g, False)" n]
  by (simp add: round_table)

lemma known_doGossipRound: "known_ge (known (fst (doGossipRound send rnd clk g)) n) (known g n)"
  by (simp add: doGossipRound_def Let_def known_round_response split: sum.split)

definition own_heartbeat :: "gossip \<Rightarrow> u64" where
  "own_heartbeat g = (case lookup (member_table g) (self_node_id g) of None \<Rightarrow> 0 | Some e \<Rightarrow> mr_heartbeat (entry_record e))"

lemma heartbeat_up: "h < h + 1" if "(h :: u64) \<noteq> - 1"
proof -
  have "1 + h \<noteq> 0" using that by (metis add_eq_0_iff)
  then have "unat (1 + h) = Suc (unat h)" by (rule unatSuc)
  then show ?thesis by (simp add: word_less_nat_alt add.commute)
qed

lemma known_beat:
  assumes "own_heartbeat g \<noteq> - 1"
  shows "known_ge (known (update_self (beat now) g) n) (known g n)"
proof (cases "lookup (member_table g) (self_node_id g)")
  case None
  then show ?thesis by (simp add: update_self_def)
next
  case (Some e)
  with assms have "mr_heartbeat (entry_record e) < mr_heartbeat (entry_record e) + 1"
    by (simp add: own_heartbeat_def heartbeat_up)
  then have "rank_of (entry_record e) \<le> rank_of (entry_record (beat now e))"
    by (simp add: rank_of_def beat_def)
  with Some have "known_ge (Some (rank_of (entry_record (beat now e)))) (known g (self_node_id g))"
    by (simp add: known_ge_def ranks_def)
  with Some show ?thesis by (simp add: known_update_self)
qed

text \<open>
  Claim C31: apart from the start-up contact with the seeds no operation lowers what a node knows of
  any node: merging a message, a gossip round whatever the peer answers or fails with, failure
  detection, and an iteration of the gossip loop (while the own 64-bit heartbeat has not reached
  its maximum). A late or repeated message cannot bring back an older state.
\<close>

theorem knowledge_is_monotone:
  assumes "own_heartbeat g \<noteq> - 1"
  shows "known_ge (known (fst (mergeView clk rs g)) n) (known g n)
       \<and> known_ge (known (fst (doGossipRound send rnd clk g)) n) (known g n)
       \<and> known_ge (known (fst (detectFailures now g)) n) (known g n)
       \<and> (case gossip_iteration send rnd now now' clk g of
             None \<Rightarrow> \<not> running g
           | Some (g', calls) \<Rightarrow> known_ge (known g' n) (known g n))"
proof -
  have "known_ge (known (fst (doGossipRound send rnd clk (fst (heartbeat_step now now' g)))) n) (known g n)"
    by (rule known_ge_trans [OF known_doGossipRound])
      (auto simp: heartbeat_step_def intro: known_ge_trans [OF known_detectFailures known_beat [OF assms]]
        simp del: detectFailures_table)
  then show ?thesis
    by (simp add: known_mergeView known_doGossipRound known_detectFailures gossip_iteration_def split_beta
        Let_def del: detectFailures_table)
qed

end
