(* ===== verification/GossipLife.thy ===== *)
theory GossipLife
  imports GossipClaims
begin

text \<open>
  Failure detection by age, the change callback, and the life of a member: restart with a higher
  generation, departure, and the start-up contact with the seeds.
\<close>

subsection \<open>Failure detection\<close>

text \<open>What the thresholds say of a status at an age in milliseconds.\<close>

definition verdict :: "int \<Rightarrow> int \<Rightarrow> int \<Rightarrow> NodeStatus \<Rightarrow> NodeStatus" where
  "verdict suspect dead age st =
     (case st of
        ALIVE \<Rightarrow> if age \<le> suspect then ALIVE else if age \<le> dead then SUSPECT else DEAD
      | SUSPECT \<Rightarrow> if age \<le> dead then SUSPECT else DEAD
      | DEAD \<Rightarrow> DEAD)"

lemma threshold_less:
  assumes "0 \<le>s (t :: cint)"
  shows "scast t < (a :: u64) \<longleftrightarrow> sint t < uint a"
proof -
  have b: "0 \<le> sint t" "sint t < 2 ^ 31"
    using assms sint_lt [of t] by (simp_all add: word_sle_eq)
  have "uint (scast t :: u64) = sint t mod 2 ^ LENGTH(64)"
    by (simp only: scast_eq uint_word_of_int)
  also have "\<dots> = sint t" using b by (intro mod_pos_pos_trivial) simp_all
  finally have "uint (scast t :: u64) = sint t" .
  then show ?thesis by (simp add: word_less_def)
qed

lemma age_of: "l \<le> (now :: u64) \<Longrightarrow> uint (now - l) = uint now - uint l"
  by (simp add: uint_sub_if' word_le_def)

text \<open>
  Claim C32: with thresholds that are not negative, and clock readings that do not run backwards,
  failure detection gives every other member the status the thresholds prescribe for its age and
  changes nothing else: an alive member turns suspect above the suspect threshold, and dead in the
  same pass above both; a suspect one turns dead above the dead threshold; none comes back.
\<close>

theorem failure_detection_exact:
  assumes "lookup (member_table g) n = Some e" "last_updated_ms e \<le> now"
    and "0 \<le>s suspect_threshold_ms g" "0 \<le>s dead_threshold_ms g"
  shows "lookup (member_table (fst (detectFailures now g))) n =
     Some (if n = self_node_id g then e
           else e\<lparr>entry_record := (entry_record e)\<lparr>mr_status :=
                    verdict (sint (suspect_threshold_ms g)) (sint (dead_threshold_ms g))
                      (uint now - uint (last_updated_ms e)) (mr_status (entry_record e))\<rparr>\<rparr>)"
  using assms(1)
  by (cases "mr_status (entry_record e)")
    (auto simp: lookup_aged age_entry_def Let_def verdict_def threshold_less [OF assms(3)]
      threshold_less [OF assms(4)] age_of [OF assms(2)])

lemma view_records:
  "keyed (member_table g) \<Longrightarrow> r \<in> set (getMemberView g) \<Longrightarrow>
     \<exists>e. lookup (member_table g) (mr_node_id r) = Some e \<and> entry_record e = r"
  by (auto simp: getMemberView_def keyed_def wf_map_def)

subsection \<open>The change callback\<close>

text \<open>The loops set the flag \<^verbatim>\<open>changed\<close> whenever they change the table.\<close>

lemma merge_record_unchanged: "\<not> snd (merge_record self now r tc) \<Longrightarrow> merge_record self now r tc = tc"
  by (auto simp: merge_record_def split_beta Let_def prod_eq_iff split: option.splits if_splits)

lemma round_record_unchanged: "\<not> snd (round_record self now r tc) \<Longrightarrow> round_record self now r tc = tc"
  by (auto simp: round_record_def split_beta Let_def prod_eq_iff split: option.splits if_splits)

lemma merge_all_unchanged:
  assumes "\<And>now r tc. \<not> snd (f now r tc) \<Longrightarrow> f now r tc = tc"
  shows "\<not> snd (merge_all f clk i rs tc) \<Longrightarrow> merge_all f clk i rs tc = tc"
proof (induction rs arbitrary: i tc)
  case (Cons r rs)
  then have "merge_all f clk (Suc i) rs (f (clk i) r tc) = f (clk i) r tc" by simp
  with Cons.prems assms show ?case by simp
qed simp

lemma age_entry_unchanged: "\<not> snd (age_entry g now e) \<Longrightarrow> fst (age_entry g now e) = e"
  by (auto simp: age_entry_def Let_def split: if_splits)

lemma detect_unchanged: "\<not> list_ex (aged g now) t \<Longrightarrow> map (age_member g now) t = t"
  by (induction t) (auto simp: aged_def age_member_def age_entry_unchanged prod_eq_iff)

text \<open>The live nodes of a table with their endpoints, as a map.\<close>

definition live_map :: "MemberEntry int_map \<Rightarrow> node_id \<Rightarrow> endpoint option" where
  "live_map t n =
     (case lookup t n of
        None \<Rightarrow> None
      | Some e \<Rightarrow> if mr_status (entry_record e) = ALIVE then Some (mr_endpoint (entry_record e)) else None)"

lemma lookup_live_endpoints: "wf_map t \<Longrightarrow> lookup (live_endpoints t) = live_map t"
proof (induction t)
  case (Cons p t)
  obtain n e where p: "p = (n, e)" by (cases p)
  from Cons have IH: "lookup (live_endpoints t) = live_map t" by (simp add: wf_map_def)
  have "lookup t n = None" using Cons.prems p by (simp add: wf_map_def map_of_eq_None_iff)
  then have "live_map t n = None" by (simp add: live_map_def)
  with IH p show ?case
    by (auto simp: live_endpoints_def alive_entries_def live_map_def fun_eq_iff)
qed (simp add: live_endpoints_def alive_entries_def live_map_def fun_eq_iff)

lemma current_alive_dom: "wf_map t \<Longrightarrow> current_alive t = dom (live_map t)"
proof -
  assume "wf_map t"
  then have "dom (live_map t) = dom (lookup (live_endpoints t))" by (simp add: lookup_live_endpoints)
  also have "\<dots> = fst ` set (live_endpoints t)" by (rule dom_map_of_conv_image_fst)
  also have "\<dots> = current_alive t" by (force simp: live_endpoints_def current_alive_def)
  finally show ?thesis ..
qed

text \<open>What the callback has to do between two states of the table.\<close>

definition callback_ok :: "gossip \<Rightarrow> gossip \<Rightarrow> live_nodes option \<Rightarrow> bool" where
  "callback_ok g g' live \<longleftrightarrow>
     last_alive_set g' = dom (live_map (member_table g'))
     \<and> (case live of
          None \<Rightarrow> dom (live_map (member_table g')) = dom (live_map (member_table g))
        | Some l \<Rightarrow> dom (live_map (member_table g')) \<noteq> dom (live_map (member_table g))
                    \<and> lookup l = live_map (member_table g'))"

lemma callback_notify_if:
  assumes "has_callback g" "last_alive_set g = dom (live_map (member_table g))"
    and "\<not> changed \<Longrightarrow> t = member_table g" "wf_map t"
  shows "callback_ok g (fst (notify_if changed (g\<lparr>member_table := t\<rparr>))) (snd (notify_if changed (g\<lparr>member_table := t\<rparr>)))"
  using assms
  by (auto simp: callback_ok_def notify_if_def notifyChange_def current_alive_dom lookup_live_endpoints)

lemma wf_map_aged: "wf_map t \<Longrightarrow> wf_map (map (age_member g now) t)"
proof -
  have "map fst (map (age_member g now) t) = map fst t" by (simp add: age_member_def)
  then show "wf_map t \<Longrightarrow> wf_map (map (age_member g now) t)" by (simp only: wf_map_def)
qed

text \<open>
  Once a callback is registered and has seen the current live nodes, it is called by a
  merge, a response or failure detection exactly when the set of live nodes changes, with the live
  nodes of the new table and their endpoints; so the ring it rebuilds always has the live nodes.
\<close>

theorem callback_follows_live_nodes:
  assumes "has_callback g" "last_alive_set g = dom (live_map (member_table g))" "keyed (member_table g)"
  shows "callback_ok g (fst (mergeView clk rs g)) (fst (snd (mergeView clk rs g)))
       \<and> callback_ok g (fst (round_response clk rs g)) (snd (round_response clk rs g))
       \<and> callback_ok g (fst (detectFailures now g)) (snd (detectFailures now g))"
proof -
  let ?v = "merge_all (merge_record (self_node_id g)) clk 0 rs (member_table g, False)"
  let ?r = "merge_all (round_record (self_node_id g)) clk 0 rs (member_table g, False)"
  have "keyed (fst ?v)" "keyed (fst ?r)"
    using assms(3) by (auto intro: view.merge_all_keyed round.merge_all_keyed)
  then have wf: "wf_map (fst ?v)" "wf_map (fst ?r)" "wf_map (map (age_member g now) (member_table g))"
    using assms(3) by (auto simp: keyed_def intro: wf_map_aged)
  have "\<not> snd ?v \<Longrightarrow> ?v = (member_table g, False)" "\<not> snd ?r \<Longrightarrow> ?r = (member_table g, False)"
    by (auto intro: merge_all_unchanged merge_record_unchanged round_record_unchanged)
  then have "\<not> snd ?v \<Longrightarrow> fst ?v = member_table g" "\<not> snd ?r \<Longrightarrow> fst ?r = member_table g"
    by (metis fst_conv)+
  from callback_notify_if [OF assms(1,2) this(1) wf(1)] callback_notify_if [OF assms(1,2) this(2) wf(2)]
    callback_notify_if [OF assms(1,2) detect_unchanged wf(3)]
  show ?thesis
    by (simp add: mergeView_def round_response_def detectFailures_def split_beta Let_def)
qed

subsection \<open>Restart and departure\<close>

lemma load_saved [simp]: "loadGeneration n (saveGeneration Written n gen fs) = gen"
  by (simp add: loadGeneration_def saveGeneration_def)

lemma new_membership_simps [simp]:
  "member_table (fst (new_membership w n ep seeds sus dd now fs)) =
     [(n, \<lparr>entry_record = \<lparr>mr_node_id = n, mr_endpoint = ep, mr_status = ALIVE, mr_heartbeat = 0,
        mr_generation = loadGeneration n fs + 1\<rparr>, last_updated_ms = now\<rparr>)]"
  "self_node_id (fst (new_membership w n ep seeds sus dd now fs)) = n"
  "self_generation (fst (new_membership w n ep seeds sus dd now fs)) = loadGeneration n fs + 1"
  "snd (new_membership w n ep seeds sus dd now fs) = saveGeneration w n (loadGeneration n fs + 1) fs"
  by (simp_all add: new_membership_def Let_def)

lemma generation_up: "g < g + 1" if "(g :: u32) \<noteq> - 1"
proof -
  have "1 + g \<noteq> 0" using that by (metis add_eq_0_iff)
  then have "unat (1 + g) = Suc (unat g)" by (rule unatSuc)
  then show ?thesis by (simp add: word_less_nat_alt add.commute)
qed

text \<open>
  Claim C33: a restart outranks the earlier life. A node that has written its generation file and
  starts again with it (and fewer than 2^32 - 1 starts behind it) announces the next generation; a peer that knows any
  state of its earlier life, dead with any heartbeat included, takes over the new record as it is,
  so the node is alive in the peer's table again, at its new endpoint.
\<close>

theorem restart_outranks:
  assumes "new_membership Written n ep seeds sus dd now fs = (g1, fs1)" "self_generation g1 \<noteq> - 1"
    and "new_membership w n ep' seeds' sus' dd' now' fs1 = (g2, fs2)"
    and "n \<noteq> self_node_id peer" "lookup (member_table peer) n = Some e"
    and "mr_generation (entry_record e) \<le> self_generation g1"
  shows "self_generation g2 = self_generation g1 + 1
     \<and> getMemberView g2 = [\<lparr>mr_node_id = n, mr_endpoint = ep', mr_status = ALIVE, mr_heartbeat = 0,
                              mr_generation = self_generation g2\<rparr>]
     \<and> map_option entry_record (lookup (member_table (fst (mergeView clk (getMemberView g2) peer))) n)
         = Some (hd (getMemberView g2))"
proof -
  have g1: "self_generation g1 = loadGeneration n fs + 1"
    and fs1: "fs1 = saveGeneration Written n (loadGeneration n fs + 1) fs"
    using new_membership_simps(3,4) [of Written n ep seeds sus dd now fs] assms(1) by simp_all
  have g2: "self_generation g2 = self_generation g1 + 1"
  proof -
    have "self_generation g2 = loadGeneration n fs1 + 1"
      using new_membership_simps(3) [of w n ep' seeds' sus' dd' now' fs1] unfolding assms(3) fst_conv .
    then show ?thesis unfolding fs1 g1 load_saved .
  qed
  moreover have v: "getMemberView g2 = [\<lparr>mr_node_id = n, mr_endpoint = ep', mr_status = ALIVE, mr_heartbeat = 0,
      mr_generation = self_generation g2\<rparr>]"
    using new_membership_simps(1,3) [of w n ep' seeds' sus' dd' now' fs1] unfolding assms(3) fst_conv
    by (simp add: getMemberView_def)
  moreover have "mr_generation (entry_record e) < self_generation g2"
    using assms(6) generation_up [OF assms(2)] g2 by simp
  ultimately show ?thesis
    using assms(4,5) by (simp add: mergeView_table merge_record_def Let_def map_simps)
qed

text \<open>
  A write of the generation file that fails is not noticed: the next start announces the same
  generation again, from heartbeat 0, and a peer that knows any state of the earlier life keeps it.
\<close>

theorem failed_save_repeats_generation:
  assumes "new_membership NotOpened n ep seeds sus dd now fs = (g1, fs1)"
    and "new_membership w n ep' seeds' sus' dd' now' fs1 = (g2, fs2)"
    and "n \<noteq> self_node_id peer" "lookup (member_table peer) n = Some e"
    and "mr_generation (entry_record e) = self_generation g1"
  shows "self_generation g2 = self_generation g1
     \<and> lookup (member_table (fst (mergeView clk (getMemberView g2) peer))) n = Some e"
proof -
  have "fs1 = fs" "self_generation g1 = loadGeneration n fs + 1"
    using new_membership_simps(3,4) [of NotOpened n ep seeds sus dd now fs] assms(1) by (simp_all add: saveGeneration_def)
  then have g2: "self_generation g2 = self_generation g1"
    using new_membership_simps(3) [of w n ep' seeds' sus' dd' now' fs1] unfolding assms(2) fst_conv by simp
  moreover have "getMemberView g2 = [\<lparr>mr_node_id = n, mr_endpoint = ep', mr_status = ALIVE, mr_heartbeat = 0,
      mr_generation = self_generation g2\<rparr>]"
    using new_membership_simps(1,3) [of w n ep' seeds' sus' dd' now' fs1] unfolding assms(2) fst_conv
    by (simp add: getMemberView_def)
  ultimately show ?thesis
    using assms(3-5) by (simp add: mergeView_table merge_record_def Let_def map_simps)
qed

definition member0 :: gossip where
  "member0 = fst (new_membership Written 0 ''tcp://a:1'' [] 3000 10000 0 Map.empty)"

definition known_entry :: "node_id \<Rightarrow> NodeStatus \<Rightarrow> u64 \<Rightarrow> u32 \<Rightarrow> u64 \<Rightarrow> MemberEntry" where
  "known_entry n st hb gen t = \<lparr>entry_record = \<lparr>mr_node_id = n, mr_endpoint = ''tcp://b:2'', mr_status = st,
     mr_heartbeat = hb, mr_generation = gen\<rparr>, last_updated_ms = t\<rparr>"

definition peer0 :: "NodeStatus \<Rightarrow> gossip" where
  "peer0 st = member0\<lparr>member_table := member_table member0 @ [(1, known_entry 1 st 50 1 100)]\<rparr>"

lemma peer0_simps [simp]:
  "self_node_id (peer0 st) = 0"
  "lookup (member_table (peer0 st)) 1 = Some (known_entry 1 st 50 1 100)"
  "suspect_threshold_ms (peer0 st) = 3000" "dead_threshold_ms (peer0 st) = 10000"
  by (simp_all add: peer0_def member0_def) (simp_all add: new_membership_def Let_def)

lemma keyed_peer0: "keyed (member_table (peer0 st))"
  by (auto simp: peer0_def member0_def keyed_def wf_map_def known_entry_def split: if_splits)

theorem restart_outranks_witness:
  "map_option entry_record (lookup (member_table (fst (mergeView (\<lambda>i. 9)
       (getMemberView (fst (new_membership Written 1 ''tcp://b:3'' [] 3000 10000 7 (saveGeneration Written 1 1 Map.empty))))
       (peer0 DEAD)))) 1)
     = Some \<lparr>mr_node_id = 1, mr_endpoint = ''tcp://b:3'', mr_status = ALIVE, mr_heartbeat = 0, mr_generation = 2\<rparr>"
proof -
  have l: "loadGeneration 1 (Map.empty :: string \<rightharpoonup> string) = 0" by (simp add: loadGeneration_def)
  have e: "entry_record (known_entry 1 DEAD 50 1 100) = \<lparr>mr_node_id = 1, mr_endpoint = ''tcp://b:2'', mr_status = DEAD,
     mr_heartbeat = 50, mr_generation = 1\<rparr>" by (simp add: known_entry_def)
  show ?thesis
    using restart_outranks [of 1 "''tcp://b:2''" "[]" 3000 10000 0 Map.empty _ _ Written "''tcp://b:3''" "[]" 3000 10000 7,
        OF surjective_pairing _ surjective_pairing, of "peer0 DEAD" "known_entry 1 DEAD 50 1 100" "\<lambda>i. 9"]
    by (simp add: l e del: getMemberView_def) (simp add: getMemberView_def)
qed

text \<open>
  A clean stop is announced so that it prevails. The view a stopping node sends marks it
  dead with a heartbeat above all it has sent, so a peer that merges the view, and knew nothing newer
  than the node itself, has it as dead at once; no earlier message of that generation revives it.
\<close>

theorem departure_prevails:
  assumes "keyed (member_table g)" "lookup (member_table g) (self_node_id g) = Some e" "own_heartbeat g \<noteq> - 1"
    and "self_node_id g \<noteq> self_node_id peer" "known peer (self_node_id g) = Some k" "k \<le> rank_of (entry_record e)"
    and "mr_generation old = mr_generation (entry_record e)" "mr_heartbeat old \<le> own_heartbeat g" "mr_node_id old = self_node_id g"
  shows "known (fst (mergeView clk' [old] (fst (mergeView clk (getMemberView (update_self retire g)) peer)))) (self_node_id g)
     = Some (mr_generation (entry_record e), own_heartbeat g + 1, DEAD)"
proof -
  let ?n = "self_node_id g" and ?h = "own_heartbeat g"
  let ?d = "(mr_generation (entry_record e), ?h + 1, DEAD)"
  have h: "?h < ?h + 1" using assms(3) by (rule heartbeat_up)
  have he: "mr_heartbeat (entry_record e) = ?h" using assms(2) by (simp add: own_heartbeat_def)
  have "keyed (member_table (update_self retire g))"
    using assms(1,2) keyed_lookup [OF assms(1,2)] by (simp add: update_self_def retire_def keyed_update)
  moreover have "known (update_self retire g) ?n = Some ?d"
    using assms(2) he by (simp add: known_update_self retire_def rank_of_def)
  ultimately have "known (fst (mergeView clk (getMemberView (update_self retire g)) peer)) ?n = join (Some k) ?d"
    using assms(4,5) known_mergeView_from [of "update_self retire g" ?n peer clk] by simp
  moreover have "k < ?d" using assms(6) he h by (auto simp: rank_of_def less_eq_prod_def less_prod_def')
  then have "max k ?d = ?d" by (intro max_absorb2 less_imp_le)
  moreover have "rank_of old < ?d" using assms(7,8) h by (auto simp: rank_of_def less_prod_def')
  then have "max ?d (rank_of old) = ?d" by (intro max_absorb1 less_imp_le)
  moreover have "known (fst (mergeView clk' [old] peer')) ?n = join (known peer' ?n) (rank_of old)"
    if "self_node_id peer' = self_node_id peer" for peer'
    using that assms(4,9) by (simp add: known_mergeView_joins about_node_def)
  ultimately show ?thesis by (simp add: mergeView_table(2))
qed

subsection \<open>The contact with the seeds\<close>

lemma contact_seeds_simps [simp]:
  "self_node_id (contact_seeds send clk sds g) = self_node_id g"
  "has_callback (contact_seeds send clk sds g) = has_callback g"
  "last_alive_set (contact_seeds send clk sds g) = last_alive_set g"
  by (induction send clk sds g rule: contact_seeds.induct) (auto simp: take_seed_def split: sum.split)

lemma seed_record_lookup:
  "lookup (fst (seed_record self now r tc)) n =
     (if mr_node_id r = n \<and> n \<noteq> self then Some \<lparr>entry_record = r, last_updated_ms = now\<rparr>
      else if mr_node_id r = n \<and> lookup (fst tc) n = None then Some empty_entry
      else lookup (fst tc) n)"
  by (auto simp: seed_record_def Let_def split_beta map_simps)

lemma merge_seeds_rank:
  "n \<noteq> self \<Longrightarrow> ranks (fst (merge_all (seed_record self) clk i rs tc)) n =
     (if about_node n rs = [] then ranks (fst tc) n else Some (last (about_node n rs)))"
proof (induction rs arbitrary: i tc)
  case (Cons r rs)
  have "ranks (fst (seed_record self (clk i) r tc)) n = (if mr_node_id r = n then Some (rank_of r) else ranks (fst tc) n)"
    using Cons.prems by (simp add: ranks_def seed_record_lookup)
  with Cons.IH [OF Cons.prems, of "Suc i" "seed_record self (clk i) r tc"] show ?case by (simp add: about_node_def)
qed (simp add: about_node_def)

lemma seed_record_keyed:
  "keyed (fst tc) \<Longrightarrow> lookup (fst tc) self \<noteq> None \<Longrightarrow>
   keyed (fst (seed_record self now r tc)) \<and> lookup (fst (seed_record self now r tc)) self \<noteq> None"
  by (auto simp: seed_record_def Let_def split_beta keyed_def map_simps)

lemma merge_seeds_keyed:
  "keyed (fst tc) \<Longrightarrow> lookup (fst tc) self \<noteq> None \<Longrightarrow>
   keyed (fst (merge_all (seed_record self) clk i rs tc)) \<and> lookup (fst (merge_all (seed_record self) clk i rs tc)) self \<noteq> None"
proof (induction rs arbitrary: i tc)
  case (Cons r rs)
  from Cons.IH [of "seed_record self (clk i) r tc"] seed_record_keyed [OF Cons.prems] show ?case by simp
qed simp

definition seed_answers :: exchange where
  "seed_answers peer view =
     (if peer = ''tcp://s:1'' then Inr [entry_record (known_entry 3 ALIVE 50 2 0)]
      else Inr [entry_record (known_entry 3 DEAD 7 1 0)])"

definition seeded :: gossip where
  "seeded = start seed_answers (\<lambda>i j. 5)
     (setChangeCallback (fst (new_membership Written 0 ''tcp://a:1'' [''tcp://s:1'', ''tcp://s:2''] 3000 10000 0 Map.empty)))"

text \<open>
  Claim C34: the start-up contact with the seeds does not merge. For every other node the last record of
  a response replaces what was known, however new that was, and whatever the seeds answer, the start
  neither calls the registered callback nor counts the nodes it learns as reported. So with two seeds,
  of which the second still has the state of an earlier life of node 3, the node starts with
  generation 1, dead, although the first seed told it generation 2, alive; merging the same two answers
  gives the newer one.
\<close>

theorem seed_contact_goes_back:
  "(n = self_node_id g \<or> known (take_seed clk rs g) n = (if about_node n rs = [] then known g n else Some (last (about_node n rs))))
   \<and> last_alive_set (start send clk' g) = last_alive_set g
   \<and> known seeded 3 = Some (1, 7, DEAD)
   \<and> joins None (about_node 3 [entry_record (known_entry 3 ALIVE 50 2 0), entry_record (known_entry 3 DEAD 7 1 0)])
       = Some (2, 50, ALIVE)
   \<and> has_callback seeded \<and> last_alive_set seeded = {} \<and> current_alive (member_table seeded) = {0}"
proof -
  have "known seeded 3 = Some (1, 7, DEAD)
   \<and> joins None (about_node 3 [entry_record (known_entry 3 ALIVE 50 2 0), entry_record (known_entry 3 DEAD 7 1 0)])
       = Some (2, 50, ALIVE)
   \<and> has_callback seeded \<and> last_alive_set seeded = {} \<and> current_alive (member_table seeded) = {0}"
    by (simp add: seeded_def start_def take_seed_def setChangeCallback_def new_membership_def Let_def loadGeneration_def
        seed_answers_def seed_record_def known_entry_def ranks_def rank_of_def about_node_def max_def
        current_alive_def alive_entries_def joins_def)
  moreover have "n = self_node_id g \<or> known (take_seed clk rs g) n = (if about_node n rs = [] then known g n else Some (last (about_node n rs)))"
    by (cases "n = self_node_id g") (simp_all add: take_seed_def merge_seeds_rank)
  moreover have "last_alive_set (start send clk' g) = last_alive_set g" by (simp add: start_def)
  ultimately show ?thesis by blast
qed

subsection \<open>Witnesses\<close>

theorem failure_detection_exact_witness:
  "lookup (member_table (fst (detectFailures 20000 (peer0 ALIVE)))) 1 = Some (known_entry 1 DEAD 50 1 100)"
  using failure_detection_exact [of "peer0 ALIVE" 1 "known_entry 1 ALIVE 50 1 100" 20000]
  by (simp add: verdict_def known_entry_def word_sle_eq)

theorem callback_follows_live_nodes_witness:
  "callback_ok (setChangeCallback (peer0 DEAD\<lparr>last_alive_set := {0}\<rparr>))
     (fst (detectFailures 20000 (setChangeCallback (peer0 DEAD\<lparr>last_alive_set := {0}\<rparr>))))
     (snd (detectFailures 20000 (setChangeCallback (peer0 DEAD\<lparr>last_alive_set := {0}\<rparr>))))"
proof -
  let ?g = "setChangeCallback (peer0 DEAD\<lparr>last_alive_set := {0}\<rparr>)"
  have "dom (live_map (member_table ?g)) = {0}"
    by (auto simp: setChangeCallback_def peer0_def member0_def live_map_def known_entry_def dom_def split: if_splits)
  then show ?thesis
    using callback_follows_live_nodes [of ?g] keyed_peer0 by (simp add: setChangeCallback_def)
qed

theorem exchange_converges_witness:
  "known (fst (round_response (\<lambda>i. 4) (getMemberView (fst (mergeView (\<lambda>i. 3) (getMemberView (peer0 DEAD))
        (fst (new_membership Written 2 ''tcp://c:1'' [] 1 1 0 Map.empty))))) (peer0 DEAD))) 1
   = known (fst (mergeView (\<lambda>i. 3) (getMemberView (peer0 DEAD)) (fst (new_membership Written 2 ''tcp://c:1'' [] 1 1 0 Map.empty)))) 1"
proof -
  let ?b = "fst (new_membership Written 2 ''tcp://c:1'' [] 1 1 0 Map.empty)"
  have kb: "keyed (member_table ?b)" by (simp add: keyed_def wf_map_def)
  obtain b' lb resp where m: "mergeView (\<lambda>i. 3) (getMemberView (peer0 DEAD)) ?b = (b', lb, resp)"
    by (metis prod.exhaust)
  obtain a' la where r: "round_response (\<lambda>i. 4) resp (peer0 DEAD) = (a', la)"
    by (metis prod.exhaust)
  have "resp = getMemberView b'" using mergeView_response [of "\<lambda>i. 3" "getMemberView (peer0 DEAD)" ?b] m by simp
  with exchange_converges [OF keyed_peer0 kb _ m r] m r show ?thesis by simp
qed

theorem merge_order_irrelevant_witness:
  "known (fst (mergeView (\<lambda>i. 1) [entry_record (known_entry 3 DEAD 7 1 0)]
      (fst (mergeView (\<lambda>i. 2) [entry_record (known_entry 3 ALIVE 50 2 0)] (peer0 ALIVE))))) 3
   = known (fst (round_response (\<lambda>i. 3) [entry_record (known_entry 3 ALIVE 50 2 0)]
      (fst (mergeView (\<lambda>i. 4) [entry_record (known_entry 3 DEAD 7 1 0)] (peer0 ALIVE))))) 3"
  by (rule merge_order_irrelevant) auto

theorem knowledge_is_monotone_witness:
  "known_ge (known (fst (mergeView (\<lambda>i. 1) [entry_record (known_entry 1 ALIVE 3 1 0)] (peer0 DEAD))) 1)
     (known (peer0 DEAD) 1)"
proof -
  have "own_heartbeat (peer0 DEAD) \<noteq> - 1"
    by (simp add: own_heartbeat_def) (simp add: peer0_def member0_def)
  from knowledge_is_monotone [OF this] show ?thesis by blast
qed

theorem departure_prevails_witness:
  "known (fst (mergeView (\<lambda>i. 6) [entry_record (known_entry 0 ALIVE 0 1 0)]
      (fst (mergeView (\<lambda>i. 5) (getMemberView (update_self retire member0))
        (peer0 ALIVE\<lparr>self_node_id := 1, member_table := [(0, known_entry 0 SUSPECT 0 0 0)]\<rparr>))))) 0
   = Some (1, 1, DEAD)"
proof -
  let ?e = "\<lparr>entry_record = \<lparr>mr_node_id = 0, mr_endpoint = ''tcp://a:1'', mr_status = ALIVE, mr_heartbeat = 0,
     mr_generation = 1\<rparr>, last_updated_ms = 0\<rparr>"
  have m: "member_table member0 = [(0, ?e)]" "self_node_id member0 = 0"
    by (simp_all add: member0_def loadGeneration_def)
  have h: "own_heartbeat member0 = 0" by (simp add: own_heartbeat_def m)
  show ?thesis
    using departure_prevails [of member0 ?e "peer0 ALIVE\<lparr>self_node_id := 1, member_table := [(0, known_entry 0 SUSPECT 0 0 0)]\<rparr>"
        "(0, 0, SUSPECT)" "entry_record (known_entry 0 ALIVE 0 1 0)" "\<lambda>i. 6" "\<lambda>i. 5"]
    by (simp add: m h keyed_def wf_map_def ranks_def rank_of_def known_entry_def)
qed

end
