(* ===== verification/GossipNetwork.thy ===== *)
theory GossipNetwork
  imports GossipLife
begin

text \<open>
  A cluster of members as a step relation: every node beats (with failure detection), picks a peer
  that is alive in its table and sends it its view; requests and responses travel independently,
  may be lost, delayed and overtaken. Invariants of all runs: no one knows a heartbeat that the
  node has not produced, and two groups that hold each other dead stay apart. Starts, with the contact
  of the seeds, and stops are steps of the theory \<open>GossipLives\<close>.
\<close>

subsection \<open>The step relation\<close>

record network =
  nodes :: "node_id \<Rightarrow> gossip"
  requests :: "(node_id \<times> endpoint \<times> MemberRecord list) set"
  responses :: "(node_id \<times> MemberRecord list) set"

inductive net_step :: "(endpoint \<Rightarrow> node_id option) \<Rightarrow> network \<Rightarrow> network \<Rightarrow> bool"
  for resolve :: "endpoint \<Rightarrow> node_id option" where
  beat_step:
    "own_heartbeat (nodes s n) \<noteq> - 1 \<Longrightarrow>
     net_step resolve s (s\<lparr>nodes := (nodes s)(n := fst (heartbeat_step now now' (nodes s n)))\<rparr>)"
| send_step:
    "pickRandomPeer rnd (nodes s a) \<noteq> [] \<Longrightarrow> \<forall>m > 0. rnd m < m \<Longrightarrow>
     net_step resolve s (s\<lparr>requests := insert (a, pickRandomPeer rnd (nodes s a), getMemberView (nodes s a)) (requests s)\<rparr>)"
| deliver_step:
    "(a, ep, view) \<in> requests s \<Longrightarrow> resolve ep = Some b \<Longrightarrow>
     net_step resolve s (s\<lparr>nodes := (nodes s)(b := fst (mergeView clk view (nodes s b))),
       requests := requests s - {(a, ep, view)},
       responses := insert (a, snd (snd (mergeView clk view (nodes s b)))) (responses s)\<rparr>)"
| receive_step:
    "(a, view) \<in> responses s \<Longrightarrow>
     net_step resolve s (s\<lparr>nodes := (nodes s)(a := fst (round_response clk view (nodes s a))),
       responses := responses s - {(a, view)}\<rparr>)"
| lose_request: "net_step resolve s (s\<lparr>requests := requests s - {m}\<rparr>)"
| lose_response: "net_step resolve s (s\<lparr>responses := responses s - {m'}\<rparr>)"

abbreviation net_run :: "(endpoint \<Rightarrow> node_id option) \<Rightarrow> network \<Rightarrow> network \<Rightarrow> bool" where
  "net_run resolve \<equiv> (net_step resolve)\<^sup>*\<^sup>*"

text \<open>The steps of \<open>net_step\<close> that pass a view on.\<close>

definition sent :: "(nat \<Rightarrow> nat) \<Rightarrow> node_id \<Rightarrow> network \<Rightarrow> network" where
  "sent rnd a s = s\<lparr>requests := insert (a, pickRandomPeer rnd (nodes s a), getMemberView (nodes s a)) (requests s)\<rparr>"

definition delivered :: "(nat \<Rightarrow> u64) \<Rightarrow> node_id \<Rightarrow> endpoint \<Rightarrow> MemberRecord list \<Rightarrow> node_id \<Rightarrow> network \<Rightarrow> network" where
  "delivered clk a ep view b s =
     s\<lparr>nodes := (nodes s)(b := fst (mergeView clk view (nodes s b))), requests := requests s - {(a, ep, view)},
       responses := insert (a, snd (snd (mergeView clk view (nodes s b)))) (responses s)\<rparr>"

definition received :: "(nat \<Rightarrow> u64) \<Rightarrow> node_id \<Rightarrow> MemberRecord list \<Rightarrow> network \<Rightarrow> network" where
  "received clk a view s =
     s\<lparr>nodes := (nodes s)(a := fst (round_response clk view (nodes s a))), responses := responses s - {(a, view)}\<rparr>"

lemma passing_steps:
  "pickRandomPeer rnd (nodes s a) \<noteq> [] \<Longrightarrow> \<forall>m > 0. rnd m < m \<Longrightarrow> net_step resolve s (sent rnd a s)"
  "(a, ep, view) \<in> requests s \<Longrightarrow> resolve ep = Some b \<Longrightarrow> net_step resolve s (delivered clk a ep view b s)"
  "(a, view) \<in> responses s \<Longrightarrow> net_step resolve s (received clk a view s)"
  unfolding sent_def delivered_def received_def
  by (rule send_step, assumption+) (rule deliver_step, assumption+, rule receive_step, assumption)

text \<open>All records under way.\<close>

definition in_flight :: "network \<Rightarrow> MemberRecord set" where
  "in_flight s = (\<Union>(a, ep, v) \<in> requests s. set v) \<union> (\<Union>(a, v) \<in> responses s. set v)"

subsection \<open>Where knowledge comes from\<close>

lemma joins_source: "joins k rs = Some m \<Longrightarrow> k = Some m \<or> m \<in> set rs"
proof (induction rs arbitrary: k)
  case (Cons r rs)
  then have "join k r = Some m \<or> m \<in> set rs" by simp
  then show ?case by (cases k) (auto simp: max_def split: if_splits)
qed simp

lemma about_source:
  "joins k (about_node n rs) = Some m \<Longrightarrow> k = Some m \<or> (\<exists>r \<in> set rs. mr_node_id r = n \<and> m = rank_of r)"
  using joins_source [of k "about_node n rs" m] by (auto simp: about_node_def)

lemma known_mergeView_source:
  "known (fst (mergeView clk rs g)) n = Some k \<Longrightarrow> known g n = Some k \<or> (\<exists>r \<in> set rs. mr_node_id r = n \<and> k = rank_of r)"
proof (cases "n = self_node_id g")
  case True
  then show "known (fst (mergeView clk rs g)) n = Some k \<Longrightarrow> ?thesis"
    by (simp add: mergeView_table ranks_def view.merge_all_self)
next
  case False
  assume "known (fst (mergeView clk rs g)) n = Some k"
  with False show ?thesis
    by (auto simp: known_mergeView_joins dest: about_source)
qed

lemma known_round_source:
  "known (fst (round_response clk rs g)) n = Some k \<Longrightarrow> known g n = Some k \<or> (\<exists>r \<in> set rs. mr_node_id r = n \<and> k = rank_of r)"
proof (cases "n = self_node_id g")
  case True
  then show "known (fst (round_response clk rs g)) n = Some k \<Longrightarrow> ?thesis"
    by (simp add: round_table ranks_def round.merge_all_self)
next
  case False
  assume "known (fst (round_response clk rs g)) n = Some k"
  with False show ?thesis
    by (auto simp: round_table round.merge_all_rank dest: about_source)
qed

lemma view_known:
  "keyed (member_table g) \<Longrightarrow> r \<in> set (getMemberView g) \<Longrightarrow> known g (mr_node_id r) = Some (rank_of r)"
  by (auto simp: ranks_def dest: view_records)

subsection \<open>Well-formed networks\<close>

definition well_formed :: "network \<Rightarrow> bool" where
  "well_formed s \<longleftrightarrow> (\<forall>n. self_node_id (nodes s n) = n \<and> keyed (member_table (nodes s n)))"

lemma keyed_aged: "keyed t \<Longrightarrow> keyed (map (age_member g now) t)"
  by (auto simp: keyed_def wf_map_aged lookup_aged age_entry_def Let_def split: if_splits)

lemma keyed_beat: "keyed (member_table g) \<Longrightarrow> keyed (member_table (fst (heartbeat_step now now' g)))"
  unfolding heartbeat_step_def detectFailures_table
  by (rule keyed_aged) (auto simp: update_self_def beat_def keyed_lookup intro!: keyed_update split: option.split)

lemma self_heartbeat_step [simp]: "self_node_id (fst (heartbeat_step now now' g)) = self_node_id g"
  by (simp add: heartbeat_step_def)

lemma well_formed_step: "net_step resolve s s' \<Longrightarrow> well_formed s \<Longrightarrow> well_formed s'"
  by (induction rule: net_step.induct)
    (simp_all add: well_formed_def mergeView_table(2) round_table(2) keyed_beat keyed_mergeView keyed_round)

subsection \<open>No heartbeat out of nowhere\<close>

definition version :: "rank \<Rightarrow> u32 \<times> u64" where
  "version k = (fst k, fst (snd k))"

lemma version_mono: "k \<le> k' \<Longrightarrow> version k \<le> version k'"
  by (auto simp: version_def less_eq_prod_def)

definition supported :: "network \<Rightarrow> node_id \<Rightarrow> rank \<Rightarrow> bool" where
  "supported s n k \<longleftrightarrow> (\<exists>k0. known (nodes s n) n = Some k0 \<and> version k \<le> version k0)"

definition truthful :: "network \<Rightarrow> bool" where
  "truthful s \<longleftrightarrow> well_formed s
     \<and> (\<forall>a n k. known (nodes s a) n = Some k \<longrightarrow> supported s n k)
     \<and> (\<forall>r \<in> in_flight s. supported s (mr_node_id r) (rank_of r))"

lemma known_heartbeat_step:
  "own_heartbeat g \<noteq> - 1 \<Longrightarrow> known_ge (known (fst (heartbeat_step now now' g)) n) (known g n)"
  unfolding heartbeat_step_def
  by (rule known_ge_trans [OF known_detectFailures known_beat])

lemma step_monotone: "net_step resolve s s' \<Longrightarrow> known_ge (known (nodes s' a) n) (known (nodes s a) n)"
  by (induction rule: net_step.induct)
    (auto simp: known_heartbeat_step known_mergeView known_round_response)

lemma supported_step: "net_step resolve s s' \<Longrightarrow> supported s n k \<Longrightarrow> supported s' n k"
  using step_monotone [of resolve s s' n n]
  by (auto simp: supported_def known_ge_def split: option.splits dest!: version_mono intro: order_trans)

lemma known_beat_source:
  assumes "self_node_id g \<noteq> n" "known (fst (heartbeat_step now now' g)) n = Some k"
  shows "\<exists>k0. known g n = Some k0 \<and> version k = version k0"
  using assms
  by (auto simp: heartbeat_step_def ranks_def lookup_aged update_self_def map_simps version_def rank_of_def
      age_entry_def Let_def split: option.splits if_splits)

lemma supported_self: "known (nodes s n) n = Some k \<Longrightarrow> supported s n k"
  by (auto simp: supported_def)

lemma supported_version: "supported s n k0 \<Longrightarrow> version k = version k0 \<Longrightarrow> supported s n k"
  by (simp add: supported_def)

lemma truthful_step:
  assumes "net_step resolve s s'" "truthful s"
  shows "truthful s'"
proof -
  note keep = supported_step [OF assms(1)]
  have wf: "well_formed s'" using well_formed_step [OF assms(1)] assms(2) by (simp add: truthful_def)
  have old: "known (nodes s a) n = Some k \<Longrightarrow> supported s' n k" for a n k
    using assms(2) keep unfolding truthful_def by blast
  have fly: "r \<in> in_flight s \<Longrightarrow> supported s' (mr_node_id r) (rank_of r)" for r
    using assms(2) keep unfolding truthful_def by blast
  have "(\<forall>a n k. known (nodes s' a) n = Some k \<longrightarrow> supported s' n k)
      \<and> (\<forall>r \<in> in_flight s'. supported s' (mr_node_id r) (rank_of r))"
    using assms(1)
  proof cases
    case (beat_step m now now')
    have "supported s' n k" if "known (nodes s' a) n = Some k" for a n k
    proof (cases "a = m \<and> n \<noteq> m")
      case True
      have "self_node_id (nodes s m) = m" using assms(2) by (simp add: truthful_def well_formed_def)
      with True that beat_step(1) known_beat_source [of "nodes s m" n now now' k] old supported_version
      show ?thesis by (metis fun_upd_same network.select_convs(1) network.simps(1) network.update_convs(1) network.surjective)
    qed (use that beat_step(1) old supported_self in \<open>auto split: if_splits\<close>)
    moreover have "in_flight s' = in_flight s" by (simp add: beat_step(1) in_flight_def)
    ultimately show ?thesis using fly by auto
  next
    case (send_step rnd a)
    have "in_flight s' = in_flight s \<union> set (getMemberView (nodes s a))"
      by (auto simp: send_step(1) in_flight_def)
    moreover have "known (nodes s a) (mr_node_id r) = Some (rank_of r)" if "r \<in> set (getMemberView (nodes s a))" for r
      using that assms(2) view_known by (simp add: truthful_def well_formed_def)
    moreover have "nodes s' = nodes s" by (simp add: send_step(1))
    ultimately show ?thesis using fly old by (metis Un_iff)
  next
    case (deliver_step a ep view b clk)
    have v: "set view \<subseteq> in_flight s" using deliver_step(2) by (force simp: in_flight_def)
    have k: "supported s' n k" if "known (nodes s' c) n = Some k" for c n k
    proof -
      have "known (nodes s c) n = Some k \<or> (\<exists>r \<in> set view. mr_node_id r = n \<and> k = rank_of r)"
        using that known_mergeView_source [of clk view "nodes s b" n k]
        by (simp add: deliver_step(1) split: if_splits)
      then show ?thesis using v fly old by blast
    qed
    have "in_flight s' \<subseteq> in_flight s \<union> set (getMemberView (nodes s' b))"
      by (auto simp: deliver_step(1) in_flight_def mergeView_response)
    moreover have "known (nodes s' b) (mr_node_id r) = Some (rank_of r)" if "r \<in> set (getMemberView (nodes s' b))" for r
      using that wf view_known by (simp add: well_formed_def)
    ultimately show ?thesis using fly k by blast
  next
    case (receive_step a view clk)
    have v: "set view \<subseteq> in_flight s" using receive_step(2) by (force simp: in_flight_def)
    have "supported s' n k" if "known (nodes s' c) n = Some k" for c n k
    proof -
      have "known (nodes s c) n = Some k \<or> (\<exists>r \<in> set view. mr_node_id r = n \<and> k = rank_of r)"
        using that known_round_source [of clk view "nodes s a" n k]
        by (simp add: receive_step(1) split: if_splits)
      then show ?thesis using v fly old by blast
    qed
    moreover have "in_flight s' \<subseteq> in_flight s" by (auto simp: receive_step(1) in_flight_def)
    ultimately show ?thesis using fly by blast
  next
    case (lose_request m)
    then have "in_flight s' \<subseteq> in_flight s" by (auto simp: in_flight_def)
    moreover have "nodes s' = nodes s" by (simp add: lose_request)
    ultimately show ?thesis using fly old by (metis subsetD)
  next
    case (lose_response m)
    then have "in_flight s' \<subseteq> in_flight s" by (auto simp: in_flight_def)
    moreover have "nodes s' = nodes s" by (simp add: lose_response)
    ultimately show ?thesis using fly old by (metis subsetD)
  qed
  with wf show ?thesis by (simp add: truthful_def)
qed

subsection \<open>Groups that hold each other dead\<close>

definition addressed :: "(node_id \<Rightarrow> endpoint) \<Rightarrow> network \<Rightarrow> bool" where
  "addressed addr s \<longleftrightarrow>
     (\<forall>a n e. lookup (member_table (nodes s a)) n = Some e \<longrightarrow> mr_endpoint (entry_record e) = addr n)
     \<and> (\<forall>r \<in> in_flight s. mr_endpoint r = addr (mr_node_id r))"

definition holds_alive :: "gossip \<Rightarrow> node_id \<Rightarrow> bool" where
  "holds_alive g n \<longleftrightarrow> n \<in> dom (live_map (member_table g))"

lemma holds_alive_known: "holds_alive g n \<longleftrightarrow> (\<exists>k. known g n = Some k \<and> snd (snd k) = ALIVE)"
  by (auto simp: holds_alive_def live_map_def ranks_def rank_of_def split: option.splits if_splits)

text \<open>Neither the table nor the records concern the other side as alive.\<close>

definition quiet :: "(node_id \<Rightarrow> bool) \<Rightarrow> node_id \<Rightarrow> MemberRecord list \<Rightarrow> bool" where
  "quiet side a v \<longleftrightarrow> (\<forall>r \<in> set v. side (mr_node_id r) \<noteq> side a \<longrightarrow> mr_status r \<noteq> ALIVE)"

definition apart :: "(endpoint \<Rightarrow> node_id option) \<Rightarrow> (node_id \<Rightarrow> bool) \<Rightarrow> network \<Rightarrow> bool" where
  "apart resolve side s \<longleftrightarrow>
     (\<forall>a n. side a \<noteq> side n \<longrightarrow> \<not> holds_alive (nodes s a) n)
     \<and> (\<forall>(a, ep, v) \<in> requests s. (\<forall>b. resolve ep = Some b \<longrightarrow> side b = side a) \<and> quiet side a v)
     \<and> (\<forall>(a, v) \<in> responses s. quiet side a v)"

lemma quiet_view:
  assumes "keyed (member_table g)" "\<forall>n. side a \<noteq> side n \<longrightarrow> \<not> holds_alive g n"
  shows "quiet side a (getMemberView g)"
  using assms by (auto simp: quiet_def holds_alive_known rank_of_def dest: view_known)

lemma alive_mergeView:
  assumes "holds_alive (fst (mergeView clk v g)) n" "quiet side a v" "side a \<noteq> side n"
  shows "holds_alive g n"
proof -
  from assms(1) obtain k where k: "known (fst (mergeView clk v g)) n = Some k" "snd (snd k) = ALIVE"
    by (auto simp: holds_alive_known)
  moreover have "\<not> (\<exists>r \<in> set v. mr_node_id r = n \<and> k = rank_of r)"
    using assms(2,3) k(2) by (metis quiet_def rank_of_def snd_conv)
  ultimately show ?thesis using known_mergeView_source [OF k(1)] by (metis holds_alive_known)
qed

lemma alive_round:
  assumes "holds_alive (fst (round_response clk v g)) n" "quiet side a v" "side a \<noteq> side n"
  shows "holds_alive g n"
proof -
  from assms(1) obtain k where k: "known (fst (round_response clk v g)) n = Some k" "snd (snd k) = ALIVE"
    by (auto simp: holds_alive_known)
  moreover have "\<not> (\<exists>r \<in> set v. mr_node_id r = n \<and> k = rank_of r)"
    using assms(2,3) k(2) by (metis quiet_def rank_of_def snd_conv)
  ultimately show ?thesis using known_round_source [OF k(1)] by (metis holds_alive_known)
qed

lemma alive_beat:
  assumes "holds_alive (fst (heartbeat_step now now' g)) n" "self_node_id g \<noteq> n"
  shows "holds_alive g n"
  using assms
  by (auto simp: heartbeat_step_def holds_alive_known ranks_def lookup_aged update_self_def map_simps rank_of_def
      age_entry_def Let_def split: option.splits if_splits)

lemma picked_peer:
  assumes "pickRandomPeer rnd g \<noteq> []" "\<forall>m > 0. rnd m < m" "keyed (member_table g)"
  obtains n e where "lookup (member_table g) n = Some e" "holds_alive g n" "mr_endpoint (entry_record e) = pickRandomPeer rnd g"
proof -
  have "pickRandomPeer rnd g \<in> set (alive_peers g)"
    using assms(1,2) by (auto simp: pickRandomPeer_def Let_def split: if_splits)
  then obtain n e where e: "(n, e) \<in> set (member_table g)" "mr_status (entry_record e) = ALIVE"
      "pickRandomPeer rnd g = mr_endpoint (entry_record e)"
    by (auto simp: alive_peers_def)
  with assms(3) have "lookup (member_table g) n = Some e" by (simp add: keyed_def wf_map_def)
  with e that show thesis by (auto simp: holds_alive_known ranks_def rank_of_def)
qed

lemma endpoint_mergeView:
  "lookup (member_table (fst (mergeView clk v g))) n = Some e \<Longrightarrow>
     (\<exists>r \<in> set v. mr_node_id r = n \<and> mr_endpoint (entry_record e) = mr_endpoint r)
     \<or> (\<exists>e0. lookup (member_table g) n = Some e0 \<and> mr_endpoint (entry_record e) = mr_endpoint (entry_record e0))"
  using view.merge_all_endpoint [of "self_node_id g" clk 0 v "(member_table g, False)" n e]
  by (simp add: mergeView_table)

lemma endpoint_round:
  "lookup (member_table (fst (round_response clk v g))) n = Some e \<Longrightarrow>
     (\<exists>r \<in> set v. mr_node_id r = n \<and> mr_endpoint (entry_record e) = mr_endpoint r)
     \<or> (\<exists>e0. lookup (member_table g) n = Some e0 \<and> mr_endpoint (entry_record e) = mr_endpoint (entry_record e0))"
  using round.merge_all_endpoint [of "self_node_id g" clk 0 v "(member_table g, False)" n e]
  by (simp add: round_table)

lemma endpoint_beat:
  "lookup (member_table (fst (heartbeat_step now now' g))) n = Some e \<Longrightarrow>
     \<exists>e0. lookup (member_table g) n = Some e0 \<and> mr_endpoint (entry_record e) = mr_endpoint (entry_record e0)"
  by (auto simp: heartbeat_step_def lookup_aged update_self_def beat_def map_simps age_entry_def Let_def
      split: option.splits if_splits)

lemma endpoint_view:
  assumes "keyed (member_table g)" "\<forall>n e. lookup (member_table g) n = Some e \<longrightarrow> mr_endpoint (entry_record e) = addr n"
    and "r \<in> set (getMemberView g)"
  shows "mr_endpoint r = addr (mr_node_id r)"
  using view_records [OF assms(1,3)] assms(2) by auto

lemma addressed_step:
  assumes "net_step resolve s s'" "well_formed s" "addressed addr s"
  shows "addressed addr s'"
proof -
  have keyed': "keyed (member_table (nodes s' a))" for a
    using well_formed_step [OF assms(1,2)] by (simp add: well_formed_def)
  have table: "lookup (member_table (nodes s a)) n = Some e \<Longrightarrow> mr_endpoint (entry_record e) = addr n" for a n e
    using assms(3) unfolding addressed_def by blast
  have fly: "r \<in> in_flight s \<Longrightarrow> mr_endpoint r = addr (mr_node_id r)" for r
    using assms(3) unfolding addressed_def by blast
  have table': "\<forall>a n e. lookup (member_table (nodes s' a)) n = Some e \<longrightarrow> mr_endpoint (entry_record e) = addr n"
    using assms(1)
  proof cases
    case (beat_step m now now')
    then show ?thesis using table by (auto dest!: endpoint_beat)
  next
    case (deliver_step a ep v b clk)
    then have "set v \<subseteq> in_flight s" by (force simp: in_flight_def)
    with deliver_step show ?thesis using table fly by (auto dest!: endpoint_mergeView)
  next
    case (receive_step a v clk)
    then have "set v \<subseteq> in_flight s" by (force simp: in_flight_def)
    with receive_step show ?thesis using table fly by (auto dest!: endpoint_round)
  qed (use table in auto)
  then have view: "r \<in> set (getMemberView (nodes s' a)) \<Longrightarrow> mr_endpoint r = addr (mr_node_id r)" for a r
    using endpoint_view [OF keyed'] by blast
  have "\<forall>r \<in> in_flight s'. mr_endpoint r = addr (mr_node_id r)"
    using assms(1)
  proof cases
    case (send_step rnd a)
    have "in_flight s' \<subseteq> in_flight s \<union> set (getMemberView (nodes s' a))"
      by (auto simp: send_step(1) in_flight_def)
    with fly view show ?thesis by blast
  next
    case (deliver_step a ep v b clk)
    have "in_flight s' \<subseteq> in_flight s \<union> set (getMemberView (nodes s' b))"
      by (auto simp: deliver_step(1) in_flight_def mergeView_response)
    with fly view show ?thesis by blast
  next
    case beat_step
    with fly show ?thesis by (auto simp: in_flight_def)
  next
    case receive_step
    have "in_flight s' \<subseteq> in_flight s" by (auto simp: receive_step(1) in_flight_def)
    with fly show ?thesis by blast
  next
    case lose_request
    have "in_flight s' \<subseteq> in_flight s" by (auto simp: lose_request in_flight_def)
    with fly show ?thesis by blast
  next
    case lose_response
    have "in_flight s' \<subseteq> in_flight s" by (auto simp: lose_response in_flight_def)
    with fly show ?thesis by blast
  qed
  with table' show ?thesis unfolding addressed_def by blast
qed

lemma apart_step:
  assumes "net_step resolve s s'" "well_formed s" "addressed addr s" "\<forall>n. resolve (addr n) = Some n" "apart resolve side s"
  shows "apart resolve side s'"
proof -
  have keyed': "keyed (member_table (nodes s' a))" for a
    using well_formed_step [OF assms(1,2)] by (simp add: well_formed_def)
  have dead: "side a \<noteq> side n \<Longrightarrow> \<not> holds_alive (nodes s a) n" for a n
    using assms(5) by (simp add: apart_def)
  have req: "(a, ep, v) \<in> requests s \<Longrightarrow> (\<forall>b. resolve ep = Some b \<longrightarrow> side b = side a) \<and> quiet side a v" for a ep v
    using assms(5) by (auto simp: apart_def)
  have resp: "(a, v) \<in> responses s \<Longrightarrow> quiet side a v" for a v
    using assms(5) by (auto simp: apart_def)
  have dead': "side a \<noteq> side n \<Longrightarrow> \<not> holds_alive (nodes s' a) n" for a n
    using assms(1)
  proof cases
    case (beat_step m now now')
    assume "side a \<noteq> side n"
    with dead [of a n] beat_step alive_beat [of now now' "nodes s m" n] assms(2)
    show ?thesis by (auto simp: well_formed_def)
  next
    case (deliver_step c ep v b clk)
    assume ne: "side a \<noteq> side n"
    have "side b = side c" "quiet side c v" using req [OF deliver_step(2)] deliver_step(3) by auto
    then have "quiet side b v" by (simp add: quiet_def)
    with ne dead [of a n] deliver_step alive_mergeView [of clk v "nodes s b" n side b] show ?thesis by auto
  next
    case (receive_step c v clk)
    assume "side a \<noteq> side n"
    with resp [OF receive_step(2)] dead [of a n] receive_step alive_round [of clk v "nodes s c" n side c]
    show ?thesis by auto
  qed (use dead in auto)
  have view: "quiet side a (getMemberView (nodes s' a))" for a
    using quiet_view [OF keyed'] dead' by blast
  have "\<forall>(a, ep, v) \<in> requests s'. (\<forall>b. resolve ep = Some b \<longrightarrow> side b = side a) \<and> quiet side a v"
    using assms(1)
  proof cases
    case (send_step rnd a)
    have "keyed (member_table (nodes s a))" using assms(2) by (simp add: well_formed_def)
    from picked_peer [OF send_step(2,3) this] obtain n e where
      "lookup (member_table (nodes s a)) n = Some e" "holds_alive (nodes s a) n"
      "mr_endpoint (entry_record e) = pickRandomPeer rnd (nodes s a)" .
    with assms(3) have "pickRandomPeer rnd (nodes s a) = addr n" "holds_alive (nodes s a) n"
      by (auto simp: addressed_def)
    with assms(4) dead have "\<forall>b. resolve (pickRandomPeer rnd (nodes s a)) = Some b \<longrightarrow> side b = side a" by auto
    moreover have "quiet side a (getMemberView (nodes s a))" using view [of a] by (simp add: send_step(1))
    ultimately show ?thesis using req by (auto simp: send_step(1))
  qed (use req in auto)
  moreover have "\<forall>(a, v) \<in> responses s'. quiet side a v"
    using assms(1)
  proof cases
    case (deliver_step c ep v b clk)
    have "side b = side c" using req [OF deliver_step(2)] deliver_step(3) by auto
    with view [of b] have "quiet side c (getMemberView (nodes s' b))" by (simp add: quiet_def)
    then show ?thesis using resp by (auto simp: deliver_step(1) mergeView_response)
  qed (use resp in auto)
  ultimately show ?thesis using dead' by (simp add: apart_def)
qed

subsection \<open>Properties of every run\<close>

text \<open>
  Claim C37: a mutual verdict is not taken back by gossip alone. If two groups of nodes hold no member of
  the other group alive (for instance after a network partition longer than the dead threshold) and no
  message is under way, then no sequence of gossip rounds, answers and failure detection, however long,
  lets a node of one group hold one of the other alive again, although the network between them works:
  peers are picked among the alive ones only, so the groups never exchange a message. It takes the
  restart of a node, which contacts its seeds, to bring the groups together; restarts and the contact
  with seeds are not steps of these runs.
\<close>

theorem partition_is_permanent:
  fixes side :: "node_id \<Rightarrow> bool"
  assumes "well_formed s" "addressed addr s" "\<forall>n. resolve (addr n) = Some n"
    and "requests s = {}" "responses s = {}"
    and "\<forall>a n. side a \<noteq> side n \<longrightarrow> \<not> holds_alive (nodes s a) n"
    and "net_run resolve s s'" "side a \<noteq> side n"
  shows "\<not> holds_alive (nodes s' a) n"
proof -
  have "apart resolve side s" using assms(4-6) by (simp add: apart_def)
  with assms(7,1,2) have "well_formed s' \<and> addressed addr s' \<and> apart resolve side s'"
  proof (induction rule: rtranclp_induct)
    case (step t u)
    then show ?case
      using well_formed_step addressed_step apart_step [OF _ _ _ assms(3)] by blast
  qed simp
  with assms(8) show ?thesis by (simp add: apart_def)
qed

definition address :: "node_id \<Rightarrow> endpoint" where
  "address n = to_string n"

definition resolve_address :: "endpoint \<Rightarrow> node_id option" where
  "resolve_address ep = (case stoi ep of Inl e \<Rightarrow> None | Inr n \<Rightarrow> Some n)"

definition lone :: "node_id \<Rightarrow> gossip" where
  "lone n = fst (new_membership Written n (address n) [] 3000 10000 0 Map.empty)"

text \<open>Nodes 0 and 1 have been cut off from each other and hold each other dead.\<close>

definition dead_entry :: "node_id \<Rightarrow> MemberEntry" where
  "dead_entry n = \<lparr>entry_record = \<lparr>mr_node_id = n, mr_endpoint = address n, mr_status = DEAD, mr_heartbeat = 5,
     mr_generation = 1\<rparr>, last_updated_ms = 0\<rparr>"

definition cut_network :: network where
  "cut_network = \<lparr>nodes = (\<lambda>n. if n = 0 then (lone 0)\<lparr>member_table := member_table (lone 0) @ [(1, dead_entry 1)]\<rparr>
       else if n = 1 then (lone 1)\<lparr>member_table := member_table (lone 1) @ [(0, dead_entry 0)]\<rparr>
       else lone n), requests = {}, responses = {}\<rparr>"

theorem partition_is_permanent_witness:
  "\<exists>s'. net_step resolve_address cut_network s' \<and> s' \<noteq> cut_network \<and> \<not> holds_alive (nodes s' 0) 1"
proof -
  let ?s = "cut_network\<lparr>nodes := (nodes cut_network)(0 := fst (heartbeat_step 9 9 (nodes cut_network 0)))\<rparr>"
  have "own_heartbeat (nodes cut_network 0) \<noteq> - 1"
    by (simp add: own_heartbeat_def cut_network_def lone_def)
  then have step: "net_step resolve_address cut_network ?s" by (rule beat_step)
  have "own_heartbeat (nodes ?s 0) = 1" "own_heartbeat (nodes cut_network 0) = 0"
    by (simp_all add: own_heartbeat_def cut_network_def lone_def heartbeat_step_def age_member_def update_self_def beat_def)
  then have ne: "?s \<noteq> cut_network" by (metis zero_neq_one)
  have "\<not> holds_alive (nodes ?s 0) 1"
  proof (rule partition_is_permanent [where side = "\<lambda>n. n = 0" and resolve = resolve_address and addr = address])
    show "well_formed cut_network"
      by (auto simp: well_formed_def cut_network_def lone_def keyed_def wf_map_def dead_entry_def split: if_splits)
    show "addressed address cut_network"
      by (auto simp: addressed_def cut_network_def lone_def dead_entry_def in_flight_def split: if_splits)
    show "\<forall>a n. (a = 0) \<noteq> (n = 0) \<longrightarrow> \<not> holds_alive (nodes cut_network a) n"
      by (auto simp: holds_alive_def live_map_def cut_network_def lone_def dead_entry_def split: if_splits)
    show "net_run resolve_address cut_network ?s" using step by blast
  qed (simp_all add: resolve_address_def address_def cut_network_def)
  with step ne show ?thesis by blast
qed

end
