(* ===== verification/GossipLives.thy ===== *)
theory GossipLives
  imports GossipNetwork
begin

text \<open>
  The lives of the members of a cluster: the gossip of \<open>GossipNetwork\<close> together with the start-up contact
  with the seeds, clean stops, and restarts that read and write the generation file.
\<close>

subsection \<open>Starts and stops\<close>

record membership_run =
  net :: network
  gen_files :: "node_id \<Rightarrow> (string \<rightharpoonup> string)"

definition put_member :: "node_id \<Rightarrow> gossip \<Rightarrow> network \<Rightarrow> network" where
  "put_member n g s = s\<lparr>nodes := (nodes s)(n := g)\<rparr>"

definition put_request :: "node_id \<Rightarrow> endpoint \<Rightarrow> network \<Rightarrow> network" where
  "put_request a ep s = s\<lparr>requests := insert (a, ep, getMemberView (nodes s a)) (requests s)\<rparr>"

text \<open>
  A step of the cluster: one of the gossip threads or of the network, the two halves of a contact with
  a seed, the stop of a member (its last round is a gossip step), its restart on the same machine, with
  its generation file written, up to the last generation.
\<close>

inductive life_step :: "(endpoint \<Rightarrow> node_id option) \<Rightarrow> membership_run \<Rightarrow> membership_run \<Rightarrow> bool"
  for resolve :: "endpoint \<Rightarrow> node_id option" where
  gossips: "net_step resolve (net c) s \<Longrightarrow> life_step resolve c (c\<lparr>net := s\<rparr>)"
| asks_seed:
    "seed \<in> set (seed_nodes (nodes (net c) a)) \<Longrightarrow> seed \<noteq> self_endpoint (nodes (net c) a) \<Longrightarrow>
     life_step resolve c (c\<lparr>net := put_request a seed (net c)\<rparr>)"
| takes_seed:
    "(a, view) \<in> responses (net c) \<Longrightarrow>
     life_step resolve c (c\<lparr>net := (put_member a (take_seed clk view (nodes (net c) a)) (net c))
       \<lparr>responses := responses (net c) - {(a, view)}\<rparr>\<rparr>)"
| stops:
    "own_heartbeat (nodes (net c) n) \<noteq> - 1 \<Longrightarrow>
     life_step resolve c (c\<lparr>net := put_member n (retire_self (nodes (net c) n)) (net c)\<rparr>)"
| restarts:
    "self_generation (nodes (net c) n) \<noteq> - 1 \<Longrightarrow> new_membership Written n ep seeds sus dd now (gen_files c n) = (g, fs) \<Longrightarrow>
     life_step resolve c (c\<lparr>net := put_member n g (net c), gen_files := (gen_files c)(n := fs)\<rparr>)"

abbreviation life_run :: "(endpoint \<Rightarrow> node_id option) \<Rightarrow> membership_run \<Rightarrow> membership_run \<Rightarrow> bool" where
  "life_run resolve \<equiv> (life_step resolve)\<^sup>*\<^sup>*"

text \<open>A cluster in which every member has just been constructed, from any generation file.\<close>

definition booted :: "membership_run \<Rightarrow> bool" where
  "booted c \<longleftrightarrow> requests (net c) = {} \<and> responses (net c) = {}
     \<and> (\<forall>n. \<exists>ep seeds sus dd now fs. new_membership Written n ep seeds sus dd now fs = (nodes (net c) n, gen_files c n))"

subsection \<open>The own entry\<close>

text \<open>The own entry has the generation of the file, and the steps only raise it.\<close>

definition own_entry_current :: "membership_run \<Rightarrow> bool" where
  "own_entry_current c \<longleftrightarrow>
     (\<forall>n. loadGeneration n (gen_files c n) = self_generation (nodes (net c) n)
        \<and> (\<exists>h st. known (nodes (net c) n) n = Some (self_generation (nodes (net c) n), h, st)))"

lemma self_generation_simps [simp]:
  "self_generation (fst (notify_if ch g)) = self_generation g"
  "self_generation (update_self f g) = self_generation g"
  "self_generation (fst (heartbeat_step now now' g)) = self_generation g"
  "self_generation (fst (mergeView clk rs g)) = self_generation g"
  "self_generation (fst (round_response clk rs g)) = self_generation g"
  "self_generation (take_seed clk rs g) = self_generation g"
  "self_generation (retire_self g) = self_generation g"
  by (auto simp: retire_self_def notify_if_def notifyChange_def update_self_def heartbeat_step_def detectFailures_def mergeView_def
      round_response_def take_seed_def Let_def split_beta split: option.split)

lemma known_self_kept:
  "known (fst (mergeView clk rs g)) (self_node_id g) = known g (self_node_id g)"
  "known (fst (round_response clk rs g)) (self_node_id g) = known g (self_node_id g)"
  by (simp_all add: mergeView_table round_table ranks_def view.merge_all_self round.merge_all_self)

lemma known_beat_self:
  "known (fst (heartbeat_step now now' g)) (self_node_id g) = map_option (\<lambda>(gen, h, st). (gen, h + 1, st)) (known g (self_node_id g))"
  by (simp add: heartbeat_step_def ranks_def lookup_aged update_self_def map_simps rank_of_def beat_def split: option.split)

lemma own_entry_net_step:
  assumes "net_step resolve s s'" "well_formed s"
  shows "self_generation (nodes s' n) = self_generation (nodes s n)
    \<and> (\<forall>gen h st. known (nodes s n) n = Some (gen, h, st) \<longrightarrow> (\<exists>h' st'. known (nodes s' n) n = Some (gen, h', st')))"
proof -
  have self: "self_node_id (nodes s m) = m" for m using assms(2) by (simp add: well_formed_def)
  have k1: "known (fst (mergeView clk rs (nodes s m))) m = known (nodes s m) m" for clk rs m
    using known_self_kept(1) [of clk rs "nodes s m"] by (simp only: self)
  have k2: "known (fst (round_response clk rs (nodes s m))) m = known (nodes s m) m" for clk rs m
    using known_self_kept(2) [of clk rs "nodes s m"] by (simp only: self)
  have k3: "known (fst (heartbeat_step now now' (nodes s m))) m
      = map_option (\<lambda>(gen, h, st). (gen, h + 1, st)) (known (nodes s m) m)" for now now' m
    using known_beat_self [of now now' "nodes s m"] by (simp only: self)
  from assms(1) show ?thesis by cases (auto simp: k1 k2 k3)
qed

subsection \<open>Seeds and restarts keep the tables truthful\<close>

lemma take_seed_simps [simp]:
  "self_node_id (take_seed clk rs g) = self_node_id g"
  by (simp add: take_seed_def)

lemma merge_seeds_source:
  assumes "lookup (fst tc) self \<noteq> None"
  shows "ranks (fst (merge_all (seed_record self) clk i rs tc)) self = ranks (fst tc) self
    \<and> (ranks (fst (merge_all (seed_record self) clk i rs tc)) n = Some k \<longrightarrow>
        ranks (fst tc) n = Some k \<or> (\<exists>r \<in> set rs. mr_node_id r = n \<and> k = rank_of r))"
  using assms
proof (induction rs arbitrary: i tc)
  case (Cons r rs)
  let ?tc = "seed_record self (clk i) r tc"
  have l: "lookup (fst ?tc) self = lookup (fst tc) self" using Cons.prems by (simp add: seed_record_lookup)
  have r: "ranks (fst ?tc) self = ranks (fst tc) self" by (simp add: ranks_def l)
  have n: "ranks (fst ?tc) n = ranks (fst tc) n \<or> mr_node_id r = n \<and> ranks (fst ?tc) n = Some (rank_of r)"
    using Cons.prems by (auto simp: ranks_def seed_record_lookup)
  from Cons.IH [of ?tc "Suc i"] Cons.prems l r n show ?case by auto
qed simp

lemma truthful_put:
  assumes "truthful s" "self_node_id g = n" "keyed (member_table g)"
    and "\<And>m k. m \<noteq> n \<Longrightarrow> known g m = Some k \<Longrightarrow> supported s m k"
    and "\<And>k. known (nodes s n) n = Some k \<Longrightarrow> \<exists>k'. known g n = Some k' \<and> version k \<le> version k'"
  shows "truthful (put_member n g s)"
proof -
  have s: "supported (put_member n g s) m k" if sup: "supported s m k" for m k
  proof -
    obtain k0 where k0: "known (nodes s m) m = Some k0" "version k \<le> version k0" using sup unfolding supported_def by blast
    show ?thesis
    proof (cases "m = n")
      case True
      with assms(5) k0 obtain k' where "known g n = Some k'" "version k0 \<le> version k'" by blast
      with True k0(2) show ?thesis unfolding supported_def by (auto simp: put_member_def intro: order_trans)
    qed (use k0 in \<open>simp add: supported_def put_member_def\<close>)
  qed
  have fly: "in_flight (put_member n g s) = in_flight s" by (simp add: put_member_def in_flight_def)
  have "well_formed (put_member n g s)" using assms(1-3) by (simp add: truthful_def well_formed_def put_member_def)
  moreover have "supported (put_member n g s) m k" if "known (nodes (put_member n g s) a) m = Some k" for a m k
  proof (cases "a = n")
    case True
    with that have g: "known g m = Some k" by (simp add: put_member_def)
    then show ?thesis using assms(4) s by (cases "m = n") (auto simp: supported_def put_member_def)
  next
    case False
    with that have "known (nodes s a) m = Some k" by (simp add: put_member_def)
    then show ?thesis using assms(1) s unfolding truthful_def by blast
  qed
  moreover have "\<forall>r \<in> in_flight s. supported (put_member n g s) (mr_node_id r) (rank_of r)"
    using assms(1) s by (simp add: truthful_def)
  ultimately show ?thesis by (simp add: truthful_def fly)
qed

lemma truthful_request:
  assumes "truthful s"
  shows "truthful (put_request a ep s)"
proof -
  have "in_flight (put_request a ep s) = in_flight s \<union> set (getMemberView (nodes s a))"
    by (auto simp: put_request_def in_flight_def)
  moreover have "supported s (mr_node_id r) (rank_of r)" if "r \<in> set (getMemberView (nodes s a))" for r
    using assms view_known [OF _ that] unfolding truthful_def well_formed_def by blast
  moreover have "nodes (put_request a ep s) = nodes s" by (simp add: put_request_def)
  ultimately show ?thesis using assms by (auto simp: truthful_def well_formed_def supported_def)
qed

lemma put_request_nodes [simp]: "nodes (put_request a ep s) = nodes s"
  by (simp add: put_request_def)

lemma truthful_fewer: "truthful s \<Longrightarrow> truthful (s\<lparr>responses := responses s - R\<rparr>)"
proof -
  assume t: "truthful s"
  have "in_flight (s\<lparr>responses := responses s - R\<rparr>) \<subseteq> in_flight s" by (auto simp: in_flight_def)
  with t show ?thesis unfolding truthful_def well_formed_def supported_def by (simp add: subset_iff)
qed

subsection \<open>The invariant of all lives\<close>

definition lives_ok :: "membership_run \<Rightarrow> bool" where
  "lives_ok c \<longleftrightarrow> truthful (net c) \<and> own_entry_current c"

lemma lives_okD:
  assumes "lives_ok c"
  shows "truthful (net c)" "self_node_id (nodes (net c) n) = n" "keyed (member_table (nodes (net c) n))"
    "loadGeneration n (gen_files c n) = self_generation (nodes (net c) n)"
    "\<exists>h st. known (nodes (net c) n) n = Some (self_generation (nodes (net c) n), h, st)"
  using assms by (simp_all add: lives_ok_def truthful_def well_formed_def own_entry_current_def)

lemma own_entry_put:
  assumes "own_entry_current c" "self_generation g = loadGeneration n fs" "known g n = Some (self_generation g, h, st)"
  shows "own_entry_current (c\<lparr>net := put_member n g (net c), gen_files := (gen_files c)(n := fs)\<rparr>)"
  using assms by (simp add: own_entry_current_def put_member_def)

lemma own_entry_nodes: "own_entry_current c \<Longrightarrow> nodes s = nodes (net c) \<Longrightarrow> own_entry_current (c\<lparr>net := s\<rparr>)"
  by (simp add: own_entry_current_def)

lemma take_seed_keeps:
  assumes "lives_ok c" "(a, view) \<in> responses (net c)"
  shows "lives_ok (c\<lparr>net := (put_member a (take_seed clk view (nodes (net c) a)) (net c))\<lparr>responses := responses (net c) - {(a, view)}\<rparr>\<rparr>)"
proof -
  let ?g = "nodes (net c) a"
  note ok = lives_okD [OF assms(1)]
  obtain h st where own: "known ?g a = Some (self_generation ?g, h, st)" using ok(5) by blast
  then have l: "lookup (fst (member_table ?g, False)) a \<noteq> None" by (auto simp: ranks_def)
  have src: "known (take_seed clk view ?g) a = known ?g a"
    "known (take_seed clk view ?g) m = Some k \<Longrightarrow> known ?g m = Some k \<or> (\<exists>r \<in> set view. mr_node_id r = m \<and> k = rank_of r)" for m k
    using merge_seeds_source [OF l, of clk 0 view] ok(2) by (simp_all add: take_seed_def)
  have "truthful (put_member a (take_seed clk view ?g) (net c))"
  proof (rule truthful_put [OF ok(1)])
    show "keyed (member_table (take_seed clk view ?g))"
      using merge_seeds_keyed [of "(member_table ?g, False)" a clk 0 view] l ok(2,3) by (simp add: take_seed_def)
    have "set view \<subseteq> in_flight (net c)" using assms(2) by (force simp: in_flight_def)
    then show "supported (net c) m k" if "known (take_seed clk view ?g) m = Some k" for m k
      using src(2) [OF that] ok(1) unfolding truthful_def by blast
  qed (use src(1) ok(2) in auto)
  from truthful_fewer [OF this, of "{(a, view)}"]
  have "truthful ((put_member a (take_seed clk view ?g) (net c))\<lparr>responses := responses (net c) - {(a, view)}\<rparr>)"
    by (simp add: put_member_def)
  moreover have "own_entry_current (c\<lparr>net := (put_member a (take_seed clk view ?g) (net c))\<lparr>responses := responses (net c) - {(a, view)}\<rparr>\<rparr>)"
    using assms(1) own src(1) by (auto simp: lives_ok_def own_entry_current_def put_member_def)
  ultimately show ?thesis by (simp add: lives_ok_def)
qed

lemma stop_keeps:
  assumes "lives_ok c" "own_heartbeat (nodes (net c) n) \<noteq> - 1"
  shows "lives_ok (c\<lparr>net := put_member n (retire_self (nodes (net c) n)) (net c)\<rparr>)"
proof -
  let ?g = "nodes (net c) n" and ?r = "retire_self (nodes (net c) n)"
  note ok = lives_okD [OF assms(1)]
  obtain h st where own: "known ?g n = Some (self_generation ?g, h, st)" using ok(5) by blast
  then obtain e where e: "lookup (member_table ?g) n = Some e" "rank_of (entry_record e) = (self_generation ?g, h, st)"
    by (auto simp: ranks_def)
  then have h: "own_heartbeat ?g = h" using ok(2) by (simp add: own_heartbeat_def rank_of_def)
  have self: "known ?r n = Some (self_generation ?g, h + 1, DEAD)"
    using e ok(2) by (simp add: retire_self_def known_update_self retire_def rank_of_def)
  have others: "known ?r m = known ?g m" if "m \<noteq> n" for m using that ok(2) by (simp add: retire_self_def known_update_self)
  have "h < h + 1" using heartbeat_up [of h] assms(2) unfolding h by blast
  then have v: "version (self_generation ?g, h, st) \<le> version (self_generation ?g, h + 1, DEAD)" by (simp add: version_def)
  have "truthful (put_member n ?r (net c))"
  proof (rule truthful_put [OF ok(1)])
    show "keyed (member_table ?r)"
      using ok(2,3) e(1) keyed_lookup [OF ok(3) e(1)] by (simp add: retire_self_def update_self_def retire_def keyed_update)
    show "supported (net c) m k" if "m \<noteq> n" "known ?r m = Some k" for m k
      using that others ok(1) unfolding truthful_def by metis
  qed (use self own v ok(2) in \<open>auto simp: retire_self_def update_self_def split: option.split\<close>)
  moreover have "own_entry_current (c\<lparr>net := put_member n ?r (net c)\<rparr>)"
    using assms(1) self by (auto simp: lives_ok_def own_entry_current_def put_member_def)
  ultimately show ?thesis by (simp add: lives_ok_def)
qed

lemma restart_keeps:
  assumes "lives_ok c" "self_generation (nodes (net c) n) \<noteq> - 1" "new_membership Written n ep seeds sus dd now (gen_files c n) = (g, fs)"
  shows "lives_ok (c\<lparr>net := put_member n g (net c), gen_files := (gen_files c)(n := fs)\<rparr>)"
proof -
  note ok = lives_okD [OF assms(1)]
  let ?gen = "self_generation (nodes (net c) n)"
  have g: "g = fst (new_membership Written n ep seeds sus dd now (gen_files c n))" "fs = snd (new_membership Written n ep seeds sus dd now (gen_files c n))"
    using assms(3) by simp_all
  have k: "known g m = (if m = n then Some (?gen + 1, 0, ALIVE) else None)" for m
    unfolding g(1) new_membership_simps ok(4) by (simp add: ranks_def rank_of_def)
  have "truthful (put_member n g (net c))"
  proof (rule truthful_put [OF ok(1)])
    show "keyed (member_table g)" unfolding g(1) by (auto simp: keyed_def wf_map_def split: if_splits)
    show "\<exists>k'. known g n = Some k' \<and> version k0 \<le> version k'" if "known (nodes (net c) n) n = Some k0" for k0
      using that ok(5) [of n] generation_up [OF assms(2)] by (auto simp: k version_def less_imp_le)
    show "supported (net c) m k0" if "m \<noteq> n" "known g m = Some k0" for m k0
      using that by (simp add: k)
  qed (simp add: g(1))
  moreover have "own_entry_current (c\<lparr>net := put_member n g (net c), gen_files := (gen_files c)(n := fs)\<rparr>)"
    by (rule own_entry_put [where h = 0 and st = ALIVE]) (use assms(1) k in \<open>simp_all add: lives_ok_def g ok(4)\<close>)
  ultimately show ?thesis by (simp add: lives_ok_def)
qed

lemma lives_ok_step: "life_step resolve c c' \<Longrightarrow> lives_ok c \<Longrightarrow> lives_ok c'"
proof (induction rule: life_step.induct)
  case (gossips c s)
  have "well_formed (net c)" using gossips.prems by (simp add: lives_ok_def truthful_def)
  from own_entry_net_step [OF gossips.hyps this] gossips.prems truthful_step [OF gossips.hyps]
  show ?case by (auto simp: lives_ok_def own_entry_current_def)
next
  case (asks_seed seed c a)
  then show ?case
    by (simp add: lives_ok_def truthful_request own_entry_nodes)
next
  case (takes_seed a view c clk)
  then show ?case by (intro take_seed_keeps)
next
  case (stops c n)
  then show ?case by (intro stop_keeps)
next
  case (restarts c n ep seeds sus dd now g fs)
  show ?case by (rule restart_keeps [OF restarts.prems restarts.hyps])
qed

lemma booted_ok: "booted c \<Longrightarrow> lives_ok c"
proof -
  assume b: "booted c"
  have one: "self_node_id (nodes (net c) n) = n \<and> keyed (member_table (nodes (net c) n))
      \<and> loadGeneration n (gen_files c n) = self_generation (nodes (net c) n)
      \<and> (\<forall>m. known (nodes (net c) n) m = (if m = n then Some (self_generation (nodes (net c) n), 0, ALIVE) else None))" for n
  proof -
    obtain ep seeds sus dd now fs where "new_membership Written n ep seeds sus dd now fs = (nodes (net c) n, gen_files c n)"
      using b unfolding booted_def by blast
    then have "nodes (net c) n = fst (new_membership Written n ep seeds sus dd now fs)" "gen_files c n = snd (new_membership Written n ep seeds sus dd now fs)"
      by simp_all
    then show ?thesis by (auto simp: keyed_def wf_map_def ranks_def rank_of_def split: if_splits)
  qed
  then have "supported (net c) m k" if "known (nodes (net c) a) m = Some k" for a m k
    using that by (auto simp: supported_def split: if_splits)
  moreover have "in_flight (net c) = {}" using b by (simp add: booted_def in_flight_def)
  ultimately show ?thesis using one by (auto simp: lives_ok_def truthful_def well_formed_def own_entry_current_def)
qed

lemma lives_ok_run: "life_run resolve c c' \<Longrightarrow> lives_ok c \<Longrightarrow> lives_ok c'"
  by (induction rule: rtranclp_induct) (auto intro: lives_ok_step)

subsection \<open>No heartbeat from nowhere\<close>

text \<open>
  Claim C35: in every run of a cluster from its start, with seeds contacted, members stopped and
  restarted with their generation file, which every start has written, messages lost, delayed or overtaken and failures suspected
  wrongly, nobody knows a state of a node that the node has not reached: generation and heartbeat of
  any record in any table are at most those in the node's own entry, whose generation is the one in its
  file and which only the node itself advances.
\<close>

theorem no_heartbeat_from_nowhere:
  assumes "booted c" "life_run resolve c c'" "lookup (member_table (nodes (net c') a)) n = Some e"
  shows "\<exists>own. lookup (member_table (nodes (net c') n)) n = Some own
     \<and> mr_generation (entry_record own) = loadGeneration n (gen_files c' n)
     \<and> version (rank_of (entry_record e)) \<le> version (rank_of (entry_record own))"
proof -
  have ok: "lives_ok c'" by (rule lives_ok_run [OF assms(2) booted_ok [OF assms(1)]])
  have "known (nodes (net c') a) n = Some (rank_of (entry_record e))" using assms(3) by (simp add: ranks_def)
  then obtain k0 where k0: "known (nodes (net c') n) n = Some k0" "version (rank_of (entry_record e)) \<le> version k0"
    using lives_okD(1) [OF ok] unfolding truthful_def supported_def by blast
  moreover from k0(1) lives_okD(4,5) [OF ok, of n] have "fst k0 = loadGeneration n (gen_files c' n)" by auto
  ultimately show ?thesis by (auto simp: ranks_def rank_of_def)
qed

subsection \<open>Three members, of which node 0 is the seed\<close>

definition member_at :: "node_id \<Rightarrow> gossip" where
  "member_at n = fst (new_membership Written n (address n) [address 0] 3000 10000 0 Map.empty)"

definition cluster_start :: membership_run where
  "cluster_start = \<lparr>net = \<lparr>nodes = member_at, requests = {}, responses = {}\<rparr>,
     gen_files = (\<lambda>n. saveGeneration Written n 1 Map.empty)\<rparr>"

lemma cluster_start_booted: "booted cluster_start"
proof -
  have "new_membership Written n (address n) [address 0] 3000 10000 0 Map.empty = (member_at n, saveGeneration Written n 1 Map.empty)" for n
    by (simp add: member_at_def new_membership_def Let_def loadGeneration_def)
  then show ?thesis unfolding booted_def cluster_start_def by (simp, blast)
qed

text \<open>Node \<open>a\<close> asks the seed; the request arrives.\<close>

definition asked :: "node_id \<Rightarrow> network \<Rightarrow> network" where
  "asked a s = delivered (\<lambda>i. 5) a (address 0) (getMemberView (nodes s a)) 0 (put_request a (address 0) s)"

lemma asked_run:
  assumes "address 0 \<in> set (seed_nodes (nodes (net c) a))" "address 0 \<noteq> self_endpoint (nodes (net c) a)"
    and "resolve (address 0) = Some 0"
  shows "life_run resolve c (c\<lparr>net := asked a (net c)\<rparr>)"
proof -
  let ?c = "c\<lparr>net := put_request a (address 0) (net c)\<rparr>"
  have ask: "life_step resolve c ?c" by (rule asks_seed [OF assms(1,2)])
  have "net_step resolve (net ?c) (asked a (net c))"
    unfolding asked_def by (simp, rule passing_steps(2)) (simp_all add: put_request_def assms(3))
  from life_step.gossips [OF this] ask show ?thesis by simp
qed

lemma cluster_started:
  "life_run resolve_address cluster_start (cluster_start\<lparr>net := asked 2 (asked 1 (net cluster_start))\<rparr>)"
proof -
  have a: "address 0 = ''0''" "address 1 = ''1''" "address 2 = ''2''" "resolve_address ''0'' = Some 0" by code_simp+
  have m: "seed_nodes (member_at n) = [address 0]" "self_endpoint (member_at n) = address n" for n
    by (simp_all add: member_at_def new_membership_def Let_def)
  let ?c = "cluster_start\<lparr>net := asked 1 (net cluster_start)\<rparr>"
  have one: "nodes (net ?c) 2 = member_at 2"
    by (simp add: asked_def delivered_def put_request_def cluster_start_def)
  have "life_run resolve_address cluster_start ?c"
    by (rule asked_run) (simp_all add: cluster_start_def m a)
  moreover have "life_run resolve_address ?c (?c\<lparr>net := asked 2 (net ?c)\<rparr>)"
    by (rule asked_run) (simp_all only: one m, simp_all add: a)
  ultimately show ?thesis by simp
qed

lemma seed_knows: "known (nodes (asked 2 (asked 1 (net cluster_start))) 0) 2 = Some (1, 0, ALIVE)"
  "known (nodes (asked 2 (asked 1 (net cluster_start))) 0) 1 = Some (1, 0, ALIVE)"
  by code_simp+

theorem no_heartbeat_from_nowhere_witness:
  "\<exists>c' e own. life_run resolve_address cluster_start c' \<and> lookup (member_table (nodes (net c') 0)) 2 = Some e
     \<and> lookup (member_table (nodes (net c') 2)) 2 = Some own
     \<and> version (rank_of (entry_record e)) \<le> version (rank_of (entry_record own))"
proof -
  obtain e where "lookup (member_table (nodes (asked 2 (asked 1 (net cluster_start))) 0)) 2 = Some e"
    using seed_knows(1) by (auto simp: ranks_def)
  then have "lookup (member_table (nodes (net (cluster_start\<lparr>net := asked 2 (asked 1 (net cluster_start))\<rparr>)) 0)) 2 = Some e"
    by simp
  from no_heartbeat_from_nowhere [OF cluster_start_booted cluster_started this] this cluster_started show ?thesis by blast
qed

end
