(* ===== verification/GossipSpread.thy ===== *)
theory GossipSpread
  imports GossipLives
begin

text \<open>
  How news travels. The news of a node reaches another one along any chain of messages that were not
  lost, each sent after the previous one arrived: as the views of requests and as the answers to them.
  Whoever it reaches knows at least as much as the node did, whatever other messages were lost, delayed
  or overtaken on the way.
\<close>

subsection \<open>Chains of messages\<close>

datatype holder =
    AtNode node_id
  | InRequest "node_id \<times> endpoint \<times> MemberRecord list"
  | InResponse "node_id \<times> MemberRecord list"

text \<open>
  \<open>reaches resolve X s a s' h\<close>: on a run from \<open>s\<close> to \<open>s'\<close> the news that \<open>a\<close> has in \<open>s\<close> come to \<open>h\<close>,
  by way of nodes outside \<open>X\<close>.
\<close>

inductive reaches :: "(endpoint \<Rightarrow> node_id option) \<Rightarrow> node_id set \<Rightarrow> network \<Rightarrow> node_id \<Rightarrow> network \<Rightarrow> holder \<Rightarrow> bool"
  for resolve :: "endpoint \<Rightarrow> node_id option" and X :: "node_id set" and s :: network and a :: node_id where
  here: "a \<notin> X \<Longrightarrow> reaches resolve X s a s (AtNode a)"
| kept: "reaches resolve X s a t h \<Longrightarrow> net_step resolve t u \<Longrightarrow> reaches resolve X s a u h"
| asks: "reaches resolve X s a t (AtNode c) \<Longrightarrow> pickRandomPeer rnd (nodes t c) \<noteq> [] \<Longrightarrow> \<forall>m > 0. rnd m < m \<Longrightarrow>
    reaches resolve X s a (sent rnd c t) (InRequest (c, pickRandomPeer rnd (nodes t c), getMemberView (nodes t c)))"
| told: "reaches resolve X s a t (InRequest (c, ep, view)) \<Longrightarrow> (c, ep, view) \<in> requests t \<Longrightarrow> resolve ep = Some b \<Longrightarrow> b \<notin> X \<Longrightarrow>
    reaches resolve X s a (delivered clk c ep view b t) (AtNode b)"
| answers: "reaches resolve X s a t (AtNode b) \<Longrightarrow> (c, ep, view) \<in> requests t \<Longrightarrow> resolve ep = Some b \<Longrightarrow>
    reaches resolve X s a (delivered clk c ep view b t) (InResponse (c, snd (snd (mergeView clk view (nodes t b)))))"
| hears: "reaches resolve X s a t (InResponse (c, view)) \<Longrightarrow> (c, view) \<in> responses t \<Longrightarrow> c \<notin> X \<Longrightarrow>
    reaches resolve X s a (received clk c view t) (AtNode c)"

lemma reaches_run: "reaches resolve X s a t h \<Longrightarrow> net_run resolve s t"
  by (induction rule: reaches.induct) (auto intro: rtranclp.rtrancl_into_rtrancl passing_steps)

lemma truthful_run: "net_run resolve s t \<Longrightarrow> truthful s \<Longrightarrow> truthful t"
  by (induction rule: rtranclp_induct) (auto intro: truthful_step)

subsection \<open>What a holder knows\<close>

text \<open>
  As recent, by generation and heartbeat; and where the node the news are about does not pass them on
  itself, also in the status.
\<close>

definition no_older :: "node_id set \<Rightarrow> node_id \<Rightarrow> rank \<Rightarrow> rank \<Rightarrow> bool" where
  "no_older X n k k' \<longleftrightarrow> version k \<le> version k' \<and> (n \<in> X \<longrightarrow> k \<le> k')"

lemma no_older_le: "k \<le> k' \<Longrightarrow> no_older X n k k'"
  by (simp add: no_older_def version_mono)

lemma no_older_trans: "no_older X n k k' \<Longrightarrow> k' \<le> k'' \<Longrightarrow> no_older X n k k''"
  unfolding no_older_def by (meson order_trans version_mono)

fun informed :: "node_id set \<Rightarrow> node_id \<Rightarrow> rank \<Rightarrow> network \<Rightarrow> holder \<Rightarrow> bool" where
  "informed X n k s (AtNode b) \<longleftrightarrow> b \<notin> X \<and> (\<exists>k'. known (nodes s b) n = Some k' \<and> no_older X n k k')"
| "informed X n k s (InRequest (c, ep, view)) \<longleftrightarrow> (\<exists>r \<in> set view. mr_node_id r = n \<and> no_older X n k (rank_of r))"
| "informed X n k s (InResponse (c, view)) \<longleftrightarrow> (\<exists>r \<in> set view. mr_node_id r = n \<and> no_older X n k (rank_of r))"

lemma known_ge_Some: "known_ge x (Some k) \<Longrightarrow> \<exists>k'. x = Some k' \<and> k \<le> k'"
  by (cases x) (simp_all add: known_ge_def)

lemma informed_step:
  assumes "informed X n k s h" "net_step resolve s s'"
  shows "informed X n k s' h"
proof (cases h)
  case (AtNode b)
  with assms(1) obtain k0 where k0: "b \<notin> X" "known (nodes s b) n = Some k0" "no_older X n k k0" by auto
  with known_ge_Some [of _ k0] step_monotone [OF assms(2), of b n]
  obtain k' where "known (nodes s' b) n = Some k'" "k0 \<le> k'" by metis
  with k0(1) no_older_trans [OF k0(3)] AtNode show ?thesis by (simp only: informed.simps) blast
qed (use assms(1) in \<open>auto elim: informed.elims\<close>)

lemma view_record:
  "known g n = Some k \<Longrightarrow> keyed (member_table g) \<Longrightarrow> \<exists>r \<in> set (getMemberView g). mr_node_id r = n \<and> rank_of r = k"
  by (auto simp: ranks_def getMemberView_def keyed_lookup dest: map_of_SomeD intro!: bexI [of _ "(n, _)"])

lemma about_member: "r \<in> set v \<Longrightarrow> mr_node_id r = n \<Longrightarrow> rank_of r \<in> set (about_node n v)"
  by (auto simp: about_node_def)

lemma joins_ge: "x \<in> set ks \<Longrightarrow> \<exists>k'. joins k ks = Some k' \<and> x \<le> k'"
  by (cases k; cases "ks = []") (simp_all add: joins_Some_Max joins_None max.coboundedI2)

text \<open>A record taken in about another node, or, of the own node, a record that the own entry supports.\<close>

lemma take_in:
  assumes "n \<noteq> self_node_id g \<Longrightarrow> known g' n = joins (known g n) (about_node n v)"
    and "n = self_node_id g \<Longrightarrow> known g' n = known g n"
    and "r \<in> set v" "mr_node_id r = n" "no_older X n k (rank_of r)"
    and "n = self_node_id g \<Longrightarrow> n \<notin> X \<and> (\<exists>k0. known g n = Some k0 \<and> version (rank_of r) \<le> version k0)"
  shows "\<exists>k'. known g' n = Some k' \<and> no_older X n k k'"
proof (cases "n = self_node_id g")
  case True
  then show ?thesis using assms(2,5,6) by (auto simp: no_older_def)
next
  case False
  with assms(1) joins_ge [OF about_member [OF assms(3,4)]] assms(5) show ?thesis
    by (metis no_older_trans)
qed

lemma known_round_joins: "n \<noteq> self_node_id g \<Longrightarrow> known (fst (round_response clk rs g)) n = joins (known g n) (about_node n rs)"
  by (simp add: round_table round.merge_all_rank)

lemma own_support:
  assumes "truthful s" "r \<in> in_flight s" "mr_node_id r = n"
  shows "\<exists>k0. known (nodes s n) n = Some k0 \<and> version (rank_of r) \<le> version k0"
  using assms unfolding truthful_def supported_def by blast

lemma reaches_informed:
  assumes "reaches resolve X s a t h" "truthful s" "known (nodes s a) n = Some k"
  shows "informed X n k t h"
  using assms(1)
proof (induction rule: reaches.induct)
  case here
  then show ?case using assms(3) by (simp add: no_older_le)
next
  case (kept t h u)
  then show ?case by (blast intro: informed_step)
next
  case (asks t c rnd)
  have "truthful t" using truthful_run [OF reaches_run [OF asks(1)] assms(2)] .
  with asks.IH show ?case by (auto simp: truthful_def well_formed_def dest!: view_record)
next
  case (told t c ep view b clk)
  have t: "truthful t" using truthful_run [OF reaches_run [OF told(1)] assms(2)] .
  then have self: "self_node_id (nodes t b) = b" by (simp add: truthful_def well_formed_def)
  obtain r where r: "r \<in> set view" "mr_node_id r = n" "no_older X n k (rank_of r)" using told.IH by auto
  then have "r \<in> in_flight t" using told(2) by (force simp: in_flight_def)
  from own_support [OF t this r(2)] have sup: "n = self_node_id (nodes t b) \<Longrightarrow> n \<notin> X \<and> (\<exists>k0. known (nodes t b) n = Some k0 \<and> version (rank_of r) \<le> version k0)"
    using told(4) self by metis
  have own: "n = self_node_id (nodes t b) \<Longrightarrow> known (fst (mergeView clk view (nodes t b))) n = known (nodes t b) n"
    by (simp only: known_self_kept)
  have "\<exists>k'. known (fst (mergeView clk view (nodes t b))) n = Some k' \<and> no_older X n k k'"
    by (rule take_in [OF known_mergeView_joins own r sup])
  then show ?case using told(4) by (simp add: delivered_def)
next
  case (answers t b c ep view clk)
  have step: "net_step resolve t (delivered clk c ep view b t)" by (rule passing_steps) (use answers in auto)
  have "nodes (delivered clk c ep view b t) b = fst (mergeView clk view (nodes t b))" by (simp add: delivered_def)
  with informed_step [OF answers.IH step]
  obtain k' where "known (fst (mergeView clk view (nodes t b))) n = Some k'" "no_older X n k k'"
    unfolding informed.simps by metis
  moreover have "keyed (member_table (fst (mergeView clk view (nodes t b))))"
    using truthful_run [OF reaches_run [OF answers(1)] assms(2)] by (simp add: truthful_def well_formed_def keyed_mergeView)
  ultimately show ?case unfolding mergeView_response informed.simps by (metis view_record)
next
  case (hears t c view clk)
  have t: "truthful t" using truthful_run [OF reaches_run [OF hears(1)] assms(2)] .
  then have self: "self_node_id (nodes t c) = c" by (simp add: truthful_def well_formed_def)
  obtain r where r: "r \<in> set view" "mr_node_id r = n" "no_older X n k (rank_of r)" using hears.IH by auto
  then have "r \<in> in_flight t" using hears(2) by (force simp: in_flight_def)
  from own_support [OF t this r(2)] have sup: "n = self_node_id (nodes t c) \<Longrightarrow> n \<notin> X \<and> (\<exists>k0. known (nodes t c) n = Some k0 \<and> version (rank_of r) \<le> version k0)"
    using hears(3) self by metis
  have own: "n = self_node_id (nodes t c) \<Longrightarrow> known (fst (round_response clk view (nodes t c))) n = known (nodes t c) n"
    by (simp only: known_self_kept)
  have "\<exists>k'. known (fst (round_response clk view (nodes t c))) n = Some k' \<and> no_older X n k k'"
    by (rule take_in [OF known_round_joins own r sup])
  then show ?case using hears(3) by (simp add: received_def)
qed

subsection \<open>News reach whoever a chain of messages reaches\<close>

text \<open>
  Claim C36: news travel along chains of messages. In a cluster in any state that starts, stops, restarts
  and gossip lead to, suppose a chain of requests and responses, each sent after the previous one was
  merged, leads from node \<open>a\<close> to node \<open>b\<close>, while any other messages are lost, delayed or overtaken and
  failures are detected. Then \<open>b\<close> knows of every node \<open>n\<close> that \<open>a\<close> knew, with at least the generation and
  heartbeat that \<open>a\<close> knew; and where the chain does not pass through \<open>n\<close> itself (\<open>n \<in> X\<close>), also with at
  least the status, so that a verdict spreads like a heartbeat.
\<close>

theorem news_travels:
  assumes "booted c0" "life_run resolve c0 c" "reaches resolve X (net c) a s' (AtNode b)"
    and "lookup (member_table (nodes (net c) a)) n = Some e"
  shows "\<exists>e'. lookup (member_table (nodes s' b)) n = Some e'
     \<and> version (rank_of (entry_record e)) \<le> version (rank_of (entry_record e'))
     \<and> (n \<in> X \<longrightarrow> rank_of (entry_record e) \<le> rank_of (entry_record e'))"
proof -
  have t: "truthful (net c)" using lives_ok_run [OF assms(2) booted_ok [OF assms(1)]] by (simp add: lives_ok_def)
  have "known (nodes (net c) a) n = Some (rank_of (entry_record e))" using assms(4) by (simp add: ranks_def)
  from reaches_informed [OF assms(3) t this] show ?thesis by (auto simp: no_older_def ranks_def)
qed

text \<open>Node 0, the seed, tells node 2 of node 1.\<close>

definition told_of_1 :: network where
  "told_of_1 = (let s = asked 2 (asked 1 (net cluster_start)) in
     delivered (\<lambda>i. 7) 0 (address 2) (getMemberView (nodes s 0)) 2 (sent (\<lambda>m. m - 1) 0 s))"

lemma told_of_1_reached:
  "reaches resolve_address {1} (asked 2 (asked 1 (net cluster_start))) 0 told_of_1 (AtNode 2)"
proof -
  let ?s = "asked 2 (asked 1 (net cluster_start))"
  have pick: "pickRandomPeer (\<lambda>m. m - 1) (nodes ?s 0) = address 2" "address 2 \<noteq> []" "resolve_address (address 2) = Some 2"
    by code_simp+
  have "reaches resolve_address {1} ?s 0 (sent (\<lambda>m. m - 1) 0 ?s) (InRequest (0, address 2, getMemberView (nodes ?s 0)))"
    using reaches.asks [OF reaches.here, of 0 "{1}" "\<lambda>m. m - 1" ?s resolve_address] pick by simp
  from reaches.told [OF this _ pick(3), of "\<lambda>i. 7"] pick(1) show ?thesis
    by (simp add: told_of_1_def Let_def sent_def)
qed

theorem news_travels_witness:
  "\<exists>e'. lookup (member_table (nodes told_of_1 2)) 1 = Some e' \<and> (1, 0, ALIVE) \<le> rank_of (entry_record e')"
proof -
  obtain e where e: "lookup (member_table (nodes (asked 2 (asked 1 (net cluster_start))) 0)) 1 = Some e"
      "rank_of (entry_record e) = (1, 0, ALIVE)"
    using seed_knows(2) by (auto simp: ranks_def)
  have "\<exists>e'. lookup (member_table (nodes told_of_1 2)) 1 = Some e'
     \<and> version (rank_of (entry_record e)) \<le> version (rank_of (entry_record e'))
     \<and> ((1 :: node_id) \<in> {1} \<longrightarrow> rank_of (entry_record e) \<le> rank_of (entry_record e'))"
    by (rule news_travels [OF cluster_start_booted cluster_started, where a = 0]) (simp_all add: told_of_1_reached e(1))
  then show ?thesis unfolding e(2) by auto
qed

end
