(* ===== verification/Rpc.thy ===== *)
theory Rpc
  imports KvGuarantees Gossip
begin

text \<open>
  \<^verbatim>\<open>src/KVServer.cpp\<close>, \<^verbatim>\<open>src/KVClient.cpp\<close> and \<^verbatim>\<open>include/IKVClient.hpp\<close>: the handlers of a server,
  the calls of a client and the interface between them. The transport (Thallium) is not part of
  the repository: the fate of every call, its error texts and the clocks are a parameter \<open>fabric\<close>.
  A call may reach the server and lose only the response. The client is the one the program builds,
  with a timeout, so a lost message ends the call with an exception.
\<close>

subsection \<open>The cluster\<close>

type_synonym address = string

record cluster =
  hosts :: "address \<Rightarrow> os"
  server_kv :: "address \<Rightarrow> kv_store option"
  memberships :: "address \<Rightarrow> gossip option"
  calls :: nat

datatype outcome = Delivered | RequestLost | ResponseLost

record fabric =
  fate :: "nat \<Rightarrow> address \<Rightarrow> outcome"
  failure_text :: "address \<Rightarrow> string"
  merge_clock :: "nat \<Rightarrow> nat \<Rightarrow> u64"
  node_boost :: boost

subsection \<open>The server\<close>

definition kv_fetch :: "boost \<Rightarrow> kv_store \<Rightarrow> key \<Rightarrow> os \<Rightarrow> string \<times> os" where
  "kv_fetch b kv key \<sigma> = (Find b kv key \<sigma>, \<sigma>)"

definition kv_insert :: "boost \<Rightarrow> kv_store \<Rightarrow> key \<Rightarrow> string \<Rightarrow> os \<Rightarrow> cint \<times> os" where
  "kv_insert b kv key v \<sigma> = (1, snd (Insert b kv key v \<sigma>))"

definition kv_update :: "boost \<Rightarrow> kv_store \<Rightarrow> key \<Rightarrow> string \<Rightarrow> os \<Rightarrow> cint \<times> os" where
  "kv_update b kv key v \<sigma> = (1, snd (Update b kv key v \<sigma>))"

definition kv_delete :: "boost \<Rightarrow> kv_store \<Rightarrow> key \<Rightarrow> os \<Rightarrow> cint \<times> os" where
  "kv_delete b kv key \<sigma> = (1, snd (Delete b kv key \<sigma>))"

definition gossip_exchange ::
  "(nat \<Rightarrow> u64) \<Rightarrow> MemberRecord list \<Rightarrow> gossip option \<Rightarrow> MemberRecord list \<times> gossip option" where
  "gossip_exchange clk incoming membership =
     (case membership of
        None \<Rightarrow> ([], None)
      | Some g \<Rightarrow> (let (g', live, response) = mergeView clk incoming g in (response, Some g')))"

definition get_membership :: "gossip option \<Rightarrow> MemberRecord list" where
  "get_membership membership = (case membership of None \<Rightarrow> [] | Some g \<Rightarrow> getMemberView g)"

subsection \<open>A remote call\<close>

definition call_failed :: "fabric \<Rightarrow> address \<Rightarrow> exn" where
  "call_failed F a = rpc_error (failure_text F a)"

text \<open>The handler runs on the store of the server and the system of its host.\<close>

definition rpc :: "fabric \<Rightarrow> address \<Rightarrow> (kv_store \<Rightarrow> os \<Rightarrow> 'a \<times> os) \<Rightarrow> cluster \<Rightarrow> (exn + 'a) \<times> cluster" where
  "rpc F a handler w =
     (let w1 = w\<lparr>calls := Suc (calls w)\<rparr> in
      case server_kv w a of
        None \<Rightarrow> (Inl (call_failed F a), w1)
      | Some s \<Rightarrow>
          (let (r, \<sigma>) = handler s (hosts w a); w2 = w1\<lparr>hosts := (hosts w)(a := \<sigma>)\<rparr> in
           case fate F (calls w) a of
             RequestLost \<Rightarrow> (Inl (call_failed F a), w1)
           | ResponseLost \<Rightarrow> (Inl (call_failed F a), w2)
           | Delivered \<Rightarrow> (Inr r, w2)))"

subsection \<open>The client\<close>

text \<open>\<^verbatim>\<open>IKVClient\<close>: a \<^verbatim>\<open>void\<close> operation returns the exception it ends with, if any.\<close>

record 'w ikvclient =
  client_fetch :: "key \<Rightarrow> endpoint \<Rightarrow> 'w \<Rightarrow> (exn + string) \<times> 'w"
  client_insert :: "key \<Rightarrow> string \<Rightarrow> endpoint \<Rightarrow> 'w \<Rightarrow> exn option \<times> 'w"
  client_update :: "key \<Rightarrow> string \<Rightarrow> endpoint \<Rightarrow> 'w \<Rightarrow> exn option \<times> 'w"
  client_delete :: "key \<Rightarrow> endpoint \<Rightarrow> 'w \<Rightarrow> exn option \<times> 'w"
  client_membership :: "endpoint \<Rightarrow> 'w \<Rightarrow> (exn + MemberRecord list) \<times> 'w"

definition full_endpoint :: "string \<Rightarrow> endpoint \<Rightarrow> address" where
  "full_endpoint protocol ep = protocol @ ''://'' @ ep"

text \<open>\<^verbatim>\<open>fetch\<close> rethrows; the other calls print the error and return.\<close>

definition KVClient_fetch :: "fabric \<Rightarrow> string \<Rightarrow> key \<Rightarrow> endpoint \<Rightarrow> cluster \<Rightarrow> (exn + string) \<times> cluster" where
  "KVClient_fetch F protocol key ep w =
     rpc F (full_endpoint protocol ep) (\<lambda>s. kv_fetch (node_boost F) s key) w"

definition KVClient_insert :: "fabric \<Rightarrow> string \<Rightarrow> key \<Rightarrow> string \<Rightarrow> endpoint \<Rightarrow> cluster \<Rightarrow> exn option \<times> cluster" where
  "KVClient_insert F protocol key v ep w =
     (None, snd (rpc F (full_endpoint protocol ep) (\<lambda>s. kv_insert (node_boost F) s key v) w))"

definition KVClient_update :: "fabric \<Rightarrow> string \<Rightarrow> key \<Rightarrow> string \<Rightarrow> endpoint \<Rightarrow> cluster \<Rightarrow> exn option \<times> cluster" where
  "KVClient_update F protocol key v ep w =
     (None, snd (rpc F (full_endpoint protocol ep) (\<lambda>s. kv_update (node_boost F) s key v) w))"

definition KVClient_deleteKey :: "fabric \<Rightarrow> string \<Rightarrow> key \<Rightarrow> endpoint \<Rightarrow> cluster \<Rightarrow> exn option \<times> cluster" where
  "KVClient_deleteKey F protocol key ep w =
     (None, snd (rpc F (full_endpoint protocol ep) (\<lambda>s. kv_delete (node_boost F) s key) w))"

definition KVClient_getMembership :: "fabric \<Rightarrow> string \<Rightarrow> endpoint \<Rightarrow> cluster \<Rightarrow> (exn + MemberRecord list) \<times> cluster" where
  "KVClient_getMembership F protocol ep w =
     (let a = full_endpoint protocol ep in
      case rpc F a (\<lambda>s \<sigma>. (get_membership (memberships w a), \<sigma>)) w of
        (Inl e, w') \<Rightarrow> (Inr [], w')
      | (Inr view, w') \<Rightarrow> (Inr view, w'))"

definition KVClient :: "fabric \<Rightarrow> string \<Rightarrow> cluster ikvclient" where
  "KVClient F protocol =
     \<lparr>client_fetch = KVClient_fetch F protocol, client_insert = KVClient_insert F protocol,
      client_update = KVClient_update F protocol, client_delete = KVClient_deleteKey F protocol,
      client_membership = KVClient_getMembership F protocol\<rparr>"

subsection \<open>A store in the same process\<close>

text \<open>\<^verbatim>\<open>KvStore &kv\<close>: its operations on the world of the caller.\<close>

record 'w kv_ref =
  ref_find :: "key \<Rightarrow> 'w \<Rightarrow> string"
  ref_insert :: "key \<Rightarrow> string \<Rightarrow> 'w \<Rightarrow> 'w"
  ref_update :: "key \<Rightarrow> string \<Rightarrow> 'w \<Rightarrow> 'w"
  ref_delete :: "key \<Rightarrow> 'w \<Rightarrow> 'w"

definition on_host :: "address \<Rightarrow> (os \<Rightarrow> os) \<Rightarrow> cluster \<Rightarrow> cluster" where
  "on_host a f w = w\<lparr>hosts := (hosts w)(a := f (hosts w a))\<rparr>"

definition local_kv :: "boost \<Rightarrow> kv_store \<Rightarrow> address \<Rightarrow> cluster kv_ref" where
  "local_kv b s a =
     \<lparr>ref_find = (\<lambda>key w. Find b s key (hosts w a)),
      ref_insert = (\<lambda>key v. on_host a (\<lambda>\<sigma>. snd (Insert b s key v \<sigma>))),
      ref_update = (\<lambda>key v. on_host a (\<lambda>\<sigma>. snd (Update b s key v \<sigma>))),
      ref_delete = (\<lambda>key. on_host a (\<lambda>\<sigma>. snd (Delete b s key \<sigma>)))\<rparr>"

end
