(* ===== verification/Config.thy ===== *)
theory Config
  imports Decimal
begin

text \<open>
  \<^verbatim>\<open>src/config.cpp\<close> and \<^verbatim>\<open>include/config.hpp\<close>: the configuration file. The JSON library (nlohmann) is
  not part of the repository: its documents are a type \<open>'j\<close> and the operations the code calls are the
  fields of \<open>json_library\<close>, each of which may throw as documented (missing key, wrong type, syntax).
\<close>

record 'j json_library =
  json_parse :: "string \<Rightarrow> exn + 'j"
  json_at :: "'j \<Rightarrow> string \<Rightarrow> exn + 'j"
  json_index :: "'j \<Rightarrow> string \<Rightarrow> exn + 'j"
  json_contains :: "'j \<Rightarrow> string \<Rightarrow> bool"
  json_value_int :: "'j \<Rightarrow> string \<Rightarrow> cint \<Rightarrow> exn + cint"
  json_elements :: "'j \<Rightarrow> 'j list"
  as_int :: "'j \<Rightarrow> exn + cint"
  as_uint16 :: "'j \<Rightarrow> exn + 16 word"
  as_string :: "'j \<Rightarrow> exn + string"

record GossipConfig =
  interval_ms :: cint
  suspect_ms :: cint
  dead_ms :: cint
  seeds :: "endpoint list"

definition open_config :: "'j json_library \<Rightarrow> (string \<rightharpoonup> string) \<Rightarrow> string \<Rightarrow> exn + 'j" where
  "open_config L fs filename =
     (case fs filename of
        None \<Rightarrow> Inl (runtime_error (''Could not open config file: '' @ filename))
      | Some text \<Rightarrow> json_parse L text)"

definition read_provider_id :: "'j json_library \<Rightarrow> 'j \<Rightarrow> exn + 16 word" where
  "read_provider_id L config_json = and_then (json_at L config_json ''provider_id'') (as_uint16 L)"

definition read_protocol :: "'j json_library \<Rightarrow> 'j \<Rightarrow> exn + string" where
  "read_protocol L config_json = and_then (json_at L config_json ''protocol'') (as_string L)"

definition read_count :: "'j json_library \<Rightarrow> 'j \<Rightarrow> exn + cint" where
  "read_count L config_json = and_then (json_at L config_json ''count_of_node'') (as_int L)"

definition get_endpoint :: "'j json_library \<Rightarrow> 'j \<Rightarrow> node_id \<Rightarrow> exn + endpoint" where
  "get_endpoint L config_json n =
     and_then (json_at L config_json ''ip_addresses'') (\<lambda>ip_map.
     and_then (json_at L ip_map (to_string n)) (as_string L))"

text \<open>\<^verbatim>\<open>static_cast<size_t>\<close> of an \<^verbatim>\<open>int\<close> extends the sign; the products wrap.\<close>

definition read_size :: "'j json_library \<Rightarrow> 'j \<Rightarrow> exn + u64" where
  "read_size L config_json =
     and_then (and_then (json_at L config_json ''size'') (as_int L)) (\<lambda>size_in_mb.
     Inr (scast size_in_mb * 1024 * 1024))"

definition read_ip :: "'j json_library \<Rightarrow> 'j \<Rightarrow> exn + string" where
  "read_ip L config_json = and_then (json_index L config_json ''local_ip'') (as_string L)"

definition read_gossip_config :: "'j json_library \<Rightarrow> 'j \<Rightarrow> exn + GossipConfig" where
  "read_gossip_config L config_json =
     (if \<not> json_contains L config_json ''gossip'' then
        Inr \<lparr>interval_ms = 1000, suspect_ms = 3000, dead_ms = 10000, seeds = []\<rparr>
      else
        and_then (json_at L config_json ''gossip'') (\<lambda>g.
        and_then (json_value_int L g ''interval_ms'' 1000) (\<lambda>i.
        and_then (json_value_int L g ''suspect_threshold_ms'' 3000) (\<lambda>s.
        and_then (json_value_int L g ''dead_threshold_ms'' 10000) (\<lambda>d.
        and_then (if json_contains L g ''seed_nodes''
                  then and_then (json_at L g ''seed_nodes'') (\<lambda>a. map_throw (as_string L) (json_elements L a))
                  else Inr []) (\<lambda>ss.
        Inr \<lparr>interval_ms = i, suspect_ms = s, dead_ms = d, seeds = ss\<rparr>))))))"

subsection \<open>Facts\<close>

lemma read_size_exact:
  assumes "and_then (json_at L j ''size'') (as_int L) = Inr n" "0 \<le>s n"
  shows "\<exists>b. read_size L j = Inr b \<and> uint b = sint n * 2 ^ 20"
proof -
  have n: "0 \<le> sint n" "sint n < 2 ^ 31" using assms(2) sint_lt [of n] by (simp_all add: word_sle_eq)
  have "uint (scast n :: u64) = sint n mod 2 ^ LENGTH(64)" by (simp only: scast_eq uint_word_of_int)
  also have "\<dots> = sint n" using n by (intro mod_pos_pos_trivial) simp_all
  finally have u: "uint (scast n :: u64) = sint n" .
  have "uint (scast n * 1024 * 1024 :: u64) = 1048576 * sint n mod 18446744073709551616"
    by (simp add: uint_word_ariths u)
  also have "\<dots> = sint n * 2 ^ 20" using n by simp
  finally show ?thesis using assms(1) by (simp add: read_size_def)
qed

end
