(* ===== verification/Distributor.thy ===== *)
theory Distributor
  imports Rpc HashRing Config
begin

text \<open>
  \<^verbatim>\<open>src/KVDistributor.cpp\<close> and its header: the routing of a client's operations to the primary and
  the buddy of a key. The distributor holds a client (\<^verbatim>\<open>IKVClient\<close>) and a reference to a store of
  its own process; both are arguments, so everything here holds for any client, the one of the
  tests included. The lock makes each operation one step. Logging is left out, except that its
  arguments are evaluated: \<^verbatim>\<open>getNodeToIP\<close> inserts an empty endpoint for an unknown node.
\<close>

record kv_distributor =
  count_of_node :: cint
  node_to_ip :: "endpoint int_map"
  local_node_id :: node_id
  hash_ring :: ConsistentHashRing

record 'w access =
  kv_client :: "'w ikvclient"
  local_store :: "'w kv_ref"

definition keyHash :: "key \<Rightarrow> u32" where
  "keyHash k = (let s = to_string k in murmur3_32 (bytes_of s) (length s) 0)"

definition isMissOrError :: "string \<Rightarrow> bool" where
  "isMissOrError v \<longleftrightarrow> v = ''key not found'' \<or> v = ''Map not found''
     \<or> starts_with ''Error:'' v \<or> starts_with ''Fetch operation failed:'' v"

subsection \<open>Construction and membership\<close>

definition find_local :: "endpoint int_map \<Rightarrow> endpoint \<Rightarrow> node_id" where
  "find_local nodes local_ip =
     (case find (\<lambda>p. snd p = local_ip) nodes of None \<Rightarrow> - 1 | Some p \<Rightarrow> fst p)"

text \<open>The loop over the configured nodes; \<^verbatim>\<open>get_endpoint\<close> may throw.\<close>

fun read_endpoints :: "(node_id \<Rightarrow> exn + endpoint) \<Rightarrow> nat \<Rightarrow> nat \<Rightarrow> endpoint int_map \<Rightarrow> exn + endpoint int_map" where
  "read_endpoints endpoint_of i 0 nodes = Inr nodes"
| "read_endpoints endpoint_of i (Suc n) nodes =
     and_then (endpoint_of (of_nat i)) (\<lambda>ep.
     read_endpoints endpoint_of (Suc i) n (AList.update (of_nat i) ep nodes))"

definition new_distributor :: "'j json_library \<Rightarrow> 'j \<Rightarrow> exn + kv_distributor" where
  "new_distributor L config =
     and_then (read_count L config) (\<lambda>read_count.
     and_then (read_protocol L config) (\<lambda>protocol.
     and_then (read_endpoints (get_endpoint L config) 0 (nat (sint read_count)) []) (\<lambda>nodes.
     and_then (read_ip L config) (\<lambda>local_ip.
     Inr \<lparr>count_of_node = of_nat (length nodes), node_to_ip = nodes,
          local_node_id = find_local nodes local_ip,
          hash_ring = rebuild nodes default_virtual_nodes (empty_ring 0)\<rparr>))))"

definition rebuildRing :: "endpoint int_map \<Rightarrow> cint \<Rightarrow> kv_distributor \<Rightarrow> kv_distributor" where
  "rebuildRing node_endpoints vn d =
     d\<lparr>node_to_ip := node_endpoints, count_of_node := of_nat (length node_endpoints),
       hash_ring := rebuild node_endpoints vn (hash_ring d)\<rparr>"

definition getNodeCount :: "kv_distributor \<Rightarrow> cint" where
  "getNodeCount d = count_of_node d"

definition getFirstEndpoint :: "kv_distributor \<Rightarrow> endpoint" where
  "getFirstEndpoint d = (case node_to_ip d of [] \<Rightarrow> [] | p # ps \<Rightarrow> snd p)"

definition getAllEndpoints :: "kv_distributor \<Rightarrow> endpoint list" where
  "getAllEndpoints d = map snd (node_to_ip d)"

text \<open>\<^verbatim>\<open>ep.find("://")\<close> and the text behind it, where it occurs.\<close>

fun strip_protocol :: "endpoint \<Rightarrow> endpoint option" where
  "strip_protocol [] = None"
| "strip_protocol (c # s) =
     (if starts_with ''://'' (c # s) then Some (drop 3 (c # s)) else strip_protocol s)"

definition member_endpoint :: "endpoint \<Rightarrow> endpoint" where
  "member_endpoint ep = (case strip_protocol ep of None \<Rightarrow> ep | Some ep' \<Rightarrow> ep')"

definition live_members :: "MemberRecord list \<Rightarrow> endpoint int_map" where
  "live_members members =
     foldl (\<lambda>live m. if mr_status m \<noteq> ALIVE then live
                     else AList.update (mr_node_id m) (member_endpoint (mr_endpoint m)) live) [] members"

definition same_nodes :: "endpoint int_map \<Rightarrow> endpoint int_map \<Rightarrow> bool" where
  "same_nodes m m' \<longleftrightarrow> length m = length m' \<and> list_all (\<lambda>(n, ep). lookup m' n = Some ep) m"

text \<open>What runs under the lock, once the server has answered.\<close>

definition take_over :: "endpoint int_map \<Rightarrow> kv_distributor \<Rightarrow> kv_distributor" where
  "take_over live d =
     (if same_nodes live (node_to_ip d) then d
      else d\<lparr>node_to_ip := live, count_of_node := of_nat (length live),
             hash_ring := rebuild live default_virtual_nodes (hash_ring d)\<rparr>)"

definition fetchMembershipFromServer ::
  "'w access \<Rightarrow> endpoint \<Rightarrow> kv_distributor \<Rightarrow> 'w \<Rightarrow> bool \<times> kv_distributor \<times> 'w" where
  "fetchMembershipFromServer A server_endpoint d w =
     (case client_membership (kv_client A) server_endpoint w of
        (Inl e, w') \<Rightarrow> (False, d, w')
      | (Inr members, w') \<Rightarrow>
          (let live = live_members members in
           if live = [] then (False, d, w') else (True, take_over live d, w')))"

subsection \<open>Operations on one node\<close>

definition touch_node :: "node_id \<Rightarrow> kv_distributor \<Rightarrow> kv_distributor" where
  "touch_node n d =
     (if lookup (node_to_ip d) n = None then d\<lparr>node_to_ip := AList.update n [] (node_to_ip d)\<rparr> else d)"

definition getNodeToIP :: "node_id \<Rightarrow> kv_distributor \<Rightarrow> endpoint" where
  "getNodeToIP n d = (case lookup (node_to_ip d) n of None \<Rightarrow> [] | Some ep \<Rightarrow> ep)"

definition isLocalNode :: "node_id \<Rightarrow> kv_distributor \<Rightarrow> bool" where
  "isLocalNode n d \<longleftrightarrow> n = local_node_id d"

text \<open>The value, where the function returns true.\<close>

definition readFromNode :: "'w access \<Rightarrow> node_id \<Rightarrow> key \<Rightarrow> kv_distributor \<Rightarrow> 'w \<Rightarrow> string option \<times> kv_distributor \<times> 'w" where
  "readFromNode A n k d w =
     (if n <s 0 then (None, d, w)
      else (let d = touch_node n d in
        if isLocalNode n d then
          (let v = ref_find (local_store A) k w in (if isMissOrError v then None else Some v, d, w))
        else case client_fetch (kv_client A) k (getNodeToIP n d) w of
          (Inl e, w') \<Rightarrow> (None, d, w')
        | (Inr v, w') \<Rightarrow> (if isMissOrError v then None else Some v, d, w')))"

datatype RemoteOp = INSERT | UPDATE

definition writeToNode :: "'w access \<Rightarrow> node_id \<Rightarrow> key \<Rightarrow> string \<Rightarrow> RemoteOp \<Rightarrow> kv_distributor \<Rightarrow> 'w \<Rightarrow> kv_distributor \<times> 'w" where
  "writeToNode A n k v remote_op d w =
     (if n <s 0 then (d, w)
      else (let d = touch_node n d in
        if isLocalNode n d then
          (d, (case remote_op of INSERT \<Rightarrow> ref_insert (local_store A) k v w | UPDATE \<Rightarrow> ref_update (local_store A) k v w))
        else
          (d, snd (case remote_op of
                     INSERT \<Rightarrow> client_insert (kv_client A) k v (getNodeToIP n d) w
                   | UPDATE \<Rightarrow> client_update (kv_client A) k v (getNodeToIP n d) w))))"

definition deleteOnNode :: "'w access \<Rightarrow> node_id \<Rightarrow> key \<Rightarrow> kv_distributor \<Rightarrow> 'w \<Rightarrow> kv_distributor \<times> 'w" where
  "deleteOnNode A n k d w =
     (if n <s 0 then (d, w)
      else (let d = touch_node n d in
        if isLocalNode n d then (d, ref_delete (local_store A) k w)
        else (d, snd (client_delete (kv_client A) k (getNodeToIP n d) w))))"

subsection \<open>The operations of a client\<close>

definition get :: "'w access \<Rightarrow> key \<Rightarrow> kv_distributor \<Rightarrow> 'w \<Rightarrow> string \<times> kv_distributor \<times> 'w" where
  "get A k d w =
     (let primary_node_id = getPrimaryNode (hash_ring d) k; buddy_node_id = getBuddyNode (hash_ring d) k in
      case readFromNode A primary_node_id k d w of
        (Some v, d, w) \<Rightarrow> (v, d, w)
      | (None, d, w) \<Rightarrow>
          if buddy_node_id \<noteq> primary_node_id then
            (case readFromNode A buddy_node_id k d w of
               (Some v, d, w) \<Rightarrow> (v, writeToNode A primary_node_id k v INSERT d w)
             | (None, d, w) \<Rightarrow> (''RPC Failed'', d, w))
          else (''RPC Failed'', d, w))"

definition write_both :: "'w access \<Rightarrow> RemoteOp \<Rightarrow> key \<Rightarrow> string \<Rightarrow> kv_distributor \<Rightarrow> 'w \<Rightarrow> kv_distributor \<times> 'w" where
  "write_both A remote_op k v d w =
     (let primary_node_id = getPrimaryNode (hash_ring d) k; buddy_node_id = getBuddyNode (hash_ring d) k;
          (d, w) = writeToNode A primary_node_id k v remote_op d w
      in if buddy_node_id \<noteq> primary_node_id then writeToNode A buddy_node_id k v remote_op d w else (d, w))"

definition insert_key :: "'w access \<Rightarrow> key \<Rightarrow> string \<Rightarrow> kv_distributor \<Rightarrow> 'w \<Rightarrow> kv_distributor \<times> 'w" where
  "insert_key A k v d w = write_both A INSERT k v d w"

definition update_key :: "'w access \<Rightarrow> key \<Rightarrow> string \<Rightarrow> kv_distributor \<Rightarrow> 'w \<Rightarrow> kv_distributor \<times> 'w" where
  "update_key A k v d w = write_both A UPDATE k v d w"

definition deleteKey :: "'w access \<Rightarrow> key \<Rightarrow> kv_distributor \<Rightarrow> 'w \<Rightarrow> kv_distributor \<times> 'w" where
  "deleteKey A k d w =
     (let primary_node_id = getPrimaryNode (hash_ring d) k; buddy_node_id = getBuddyNode (hash_ring d) k;
          (d, w) = deleteOnNode A primary_node_id k d w
      in if buddy_node_id \<noteq> primary_node_id then deleteOnNode A buddy_node_id k d w else (d, w))"

end
