(* ===== verification/ReplicaContract.thy ===== *)
theory ReplicaContract
  imports Distributor
begin

text \<open>
  The interface between the distributor and the nodes: reading, writing and removing a key on one
  node of a group, of which some answer every call and the others may lose any. The operations of a
  client on the primary and the buddy are analysed once against these laws.
\<close>

text \<open>What \<^verbatim>\<open>isMissOrError\<close> lets through of a stored value.\<close>

definition visible :: "string option \<Rightarrow> string option" where
  "visible u = (case u of None \<Rightarrow> None | Some v \<Rightarrow> if isMissOrError v then None else Some v)"

subsection \<open>Routing over the operations of single nodes\<close>

type_synonym 'w node_reader = "node_id \<Rightarrow> key \<Rightarrow> 'w \<Rightarrow> string option \<times> 'w"
type_synonym 'w node_writer = "RemoteOp \<Rightarrow> node_id \<Rightarrow> key \<Rightarrow> string \<Rightarrow> 'w \<Rightarrow> 'w"
type_synonym 'w node_remover = "node_id \<Rightarrow> key \<Rightarrow> 'w \<Rightarrow> 'w"

definition route_get :: "'w node_reader \<Rightarrow> 'w node_writer \<Rightarrow> node_id \<Rightarrow> node_id \<Rightarrow> key \<Rightarrow> 'w \<Rightarrow> string \<times> 'w" where
  "route_get rd wr p b k w =
     (case rd p k w of
        (Some v, w) \<Rightarrow> (v, w)
      | (None, w) \<Rightarrow>
          if b \<noteq> p then
            (case rd b k w of
               (Some v, w) \<Rightarrow> (v, wr INSERT p k v w)
             | (None, w) \<Rightarrow> (''RPC Failed'', w))
          else (''RPC Failed'', w))"

definition route_write :: "'w node_writer \<Rightarrow> RemoteOp \<Rightarrow> node_id \<Rightarrow> node_id \<Rightarrow> key \<Rightarrow> string \<Rightarrow> 'w \<Rightarrow> 'w" where
  "route_write wr op p b k v w = (let w = wr op p k v w in if b \<noteq> p then wr op b k v w else w)"

definition route_delete :: "'w node_remover \<Rightarrow> node_id \<Rightarrow> node_id \<Rightarrow> key \<Rightarrow> 'w \<Rightarrow> 'w" where
  "route_delete rm p b k w = (let w = rm p k w in if b \<noteq> p then rm b k w else w)"

subsection \<open>The interface\<close>

locale replicas =
  fixes inv :: "'w \<Rightarrow> bool"
    and member :: "node_id \<Rightarrow> bool"
    and answers :: "node_id \<Rightarrow> bool"
    and fits :: "string \<Rightarrow> bool"
    and holds :: "'w \<Rightarrow> node_id \<Rightarrow> key \<Rightarrow> string option"
    and rd :: "'w node_reader"
    and wr :: "'w node_writer"
    and rm :: "'w node_remover"
  assumes rd_inv: "inv w \<Longrightarrow> member n \<Longrightarrow> inv (snd (rd n k w))"
    and wr_inv: "inv w \<Longrightarrow> member n \<Longrightarrow> inv (wr op n k v w)"
    and rm_inv: "inv w \<Longrightarrow> member n \<Longrightarrow> inv (rm n k w)"
    and rd_holds: "inv w \<Longrightarrow> member n \<Longrightarrow> member m \<Longrightarrow> holds (snd (rd n k w)) m k' = holds w m k'"
    and rd_answer: "inv w \<Longrightarrow> member n \<Longrightarrow> answers n \<Longrightarrow> fst (rd n k w) = visible (holds w n k)"
    and rd_any: "inv w \<Longrightarrow> member n \<Longrightarrow> fst (rd n k w) = None \<or> fst (rd n k w) = visible (holds w n k)"
    and wr_frame: "inv w \<Longrightarrow> member n \<Longrightarrow> member m \<Longrightarrow> m \<noteq> n \<or> k' \<noteq> k \<Longrightarrow> holds (wr op n k v w) m k' = holds w m k'"
    and wr_any: "inv w \<Longrightarrow> member n \<Longrightarrow>
      holds (wr op n k v w) n k = holds w n k
      \<or> holds (wr op n k v w) n k = Some (c_str v) \<and> (op = INSERT \<longleftrightarrow> holds w n k = None)"
    and wr_answer: "inv w \<Longrightarrow> member n \<Longrightarrow> answers n \<Longrightarrow> fits v \<Longrightarrow> (op = INSERT \<longleftrightarrow> holds w n k = None) \<Longrightarrow>
      holds (wr op n k v w) n k = Some (c_str v)"
    and rm_frame: "inv w \<Longrightarrow> member n \<Longrightarrow> member m \<Longrightarrow> m \<noteq> n \<or> k' \<noteq> k \<Longrightarrow> holds (rm n k w) m k' = holds w m k'"
    and rm_any: "inv w \<Longrightarrow> member n \<Longrightarrow> holds (rm n k w) n k = holds w n k \<or> holds (rm n k w) n k = None"
    and rm_answer: "inv w \<Longrightarrow> member n \<Longrightarrow> answers n \<Longrightarrow> holds (rm n k w) n k = None"
begin

lemma write_inv: "inv w \<Longrightarrow> member p \<Longrightarrow> member b \<Longrightarrow> inv (route_write wr op p b k v w)"
  by (simp add: route_write_def Let_def wr_inv)

lemma delete_inv: "inv w \<Longrightarrow> member p \<Longrightarrow> member b \<Longrightarrow> inv (route_delete rm p b k w)"
  by (simp add: route_delete_def Let_def rm_inv)

lemma get_inv: "inv w \<Longrightarrow> member p \<Longrightarrow> member b \<Longrightarrow> inv (snd (route_get rd wr p b k w))"
  using rd_inv [of w p k] rd_inv [of "snd (rd p k w)" b k]
  by (auto simp: route_get_def wr_inv split: prod.split option.split)

lemma write_frame:
  assumes "inv w" "member p" "member b" "member m" "m \<noteq> p \<and> m \<noteq> b \<or> k' \<noteq> k"
  shows "holds (route_write wr op p b k v w) m k' = holds w m k'"
  using assms wr_inv [of w p op k v] by (auto simp: route_write_def Let_def wr_frame)

lemma write_both_hold:
  assumes "inv w" "member p" "member b" "fits v"
    and "answers p" "op = INSERT \<longleftrightarrow> holds w p k = None" "answers b" "op = INSERT \<longleftrightarrow> holds w b k = None"
  shows "holds (route_write wr op p b k v w) p k = Some (c_str v)"
    and "holds (route_write wr op p b k v w) b k = Some (c_str v)"
proof -
  have i: "inv (wr op p k v w)" using assms by (simp add: wr_inv)
  have p: "holds (wr op p k v w) p k = Some (c_str v)" using assms by (simp add: wr_answer)
  show "holds (route_write wr op p b k v w) p k = Some (c_str v)"
    using p i assms by (auto simp: route_write_def Let_def wr_frame)
  show "holds (route_write wr op p b k v w) b k = Some (c_str v)"
  proof (cases "b = p")
    case True
    with p show ?thesis by (simp add: route_write_def)
  next
    case False
    then have "op = INSERT \<longleftrightarrow> holds (wr op p k v w) b k = None" using assms wr_frame by simp
    with False i assms show ?thesis by (simp add: route_write_def wr_answer)
  qed
qed

lemma write_one_hold:
  assumes "inv w" "member p" "member b" "fits v" "answers n" "n = p \<or> n = b" "op = INSERT \<longleftrightarrow> holds w n k = None"
  shows "holds (route_write wr op p b k v w) n k = Some (c_str v)"
proof (cases "n = p")
  case True
  have "holds (wr op p k v w) p k = Some (c_str v)" using assms True by (simp add: wr_answer)
  with True assms wr_inv [of w p op k v] show ?thesis by (auto simp: route_write_def Let_def wr_frame)
next
  case False
  then have b: "n = b" "b \<noteq> p" using assms(6) by auto
  then have "op = INSERT \<longleftrightarrow> holds (wr op p k v w) b k = None" using assms wr_frame by simp
  with b assms wr_inv [of w p op k v] show ?thesis by (simp add: route_write_def wr_answer)
qed

lemma write_refused:
  assumes "inv w" "member p" "member b" "op = INSERT \<longleftrightarrow> holds w p k \<noteq> None" "op = INSERT \<longleftrightarrow> holds w b k \<noteq> None" "member m"
  shows "holds (route_write wr op p b k v w) m k' = holds w m k'"
proof -
  have one: "holds (wr op n k v w') m' k'' = holds w' m' k''"
    if "inv w'" "member n" "op = INSERT \<longleftrightarrow> holds w' n k \<noteq> None" "member m'" for w' n m' k''
    using wr_any [OF that(1,2), of op k v] wr_frame [OF that(1,2,4), of k'' k op v] that(3)
    by (cases "m' = n \<and> k'' = k") auto
  have "inv (wr op p k v w)" using assms(1,2) by (rule wr_inv)
  moreover have "op = INSERT \<longleftrightarrow> holds (wr op p k v w) b k \<noteq> None"
    using one [OF assms(1,2,4,3)] assms(5) by simp
  ultimately show ?thesis
    using one [OF assms(1,2,4,6)] one [OF _ assms(3) _ assms(6)] by (simp add: route_write_def Let_def)
qed

lemma insert_present:
  assumes "inv w" "member p" "member b" "holds w p k \<noteq> None" "holds w b k \<noteq> None" "member m"
  shows "holds (route_write wr INSERT p b k v w) m k' = holds w m k'"
  using assms by (intro write_refused) simp_all

lemma get_found:
  assumes "inv w" "member p" "member b"
    and "visible (holds w p k) = None \<or> visible (holds w p k) = Some v"
    and "visible (holds w p k) = Some v \<and> answers p \<or> b \<noteq> p \<and> visible (holds w b k) = Some v \<and> answers b"
  shows "fst (route_get rd wr p b k w) = v"
proof (cases "fst (rd p k w)")
  case (Some u)
  then have "visible (holds w p k) = Some u" using rd_any [OF assms(1,2), of k] by simp
  with assms(4) have "u = v" by auto
  with Some show ?thesis by (cases "rd p k w") (simp add: route_get_def)
next
  case None
  then have b: "b \<noteq> p" "visible (holds w b k) = Some v" "answers b"
    using assms(5) rd_answer [OF assms(1,2), of k] by auto
  obtain w1 where w1: "rd p k w = (None, w1)" using None by (cases "rd p k w") auto
  have "inv w1" "holds w1 b k = holds w b k"
    using rd_inv [OF assms(1,2), of k] rd_holds [OF assms(1,2,3), of k k] w1 by simp_all
  with b assms(3) have "fst (rd b k w1) = Some v" by (simp add: rd_answer)
  with b w1 show ?thesis by (auto simp: route_get_def split: prod.split)
qed

lemma get_served:
  assumes "inv w" "member p" "answers p" "visible (holds w p k) = Some v"
  shows "fst (route_get rd wr p b k w) = v" "inv (snd (route_get rd wr p b k w))"
    and "member m \<Longrightarrow> holds (snd (route_get rd wr p b k w)) m k' = holds w m k'"
proof -
  have "fst (rd p k w) = Some v" using assms by (simp add: rd_answer)
  then have r: "route_get rd wr p b k w = (v, snd (rd p k w))" by (cases "rd p k w") (simp add: route_get_def)
  show "fst (route_get rd wr p b k w) = v" "inv (snd (route_get rd wr p b k w))"
    using r rd_inv [OF assms(1,2)] by simp_all
  show "member m \<Longrightarrow> holds (snd (route_get rd wr p b k w)) m k' = holds w m k'"
    using r rd_holds [OF assms(1,2)] by simp
qed

lemma get_missing:
  assumes "inv w" "member p" "member b" "visible (holds w p k) = None" "visible (holds w b k) = None"
  shows "fst (route_get rd wr p b k w) = ''RPC Failed''"
    and "member m \<Longrightarrow> holds (snd (route_get rd wr p b k w)) m k' = holds w m k'"
proof -
  have "fst (rd p k w) = None" using rd_any [OF assms(1,2), of k] assms(4) by auto
  then obtain w1 where w1: "rd p k w = (None, w1)" by (cases "rd p k w") auto
  have i: "inv w1" and h: "\<And>m k'. member m \<Longrightarrow> holds w1 m k' = holds w m k'"
    using rd_inv [OF assms(1,2), of k] rd_holds [OF assms(1,2), of _ k] w1 by simp_all
  have "fst (rd b k w1) = None" using rd_any [OF i assms(3), of k] h [OF assms(3)] assms(5) by auto
  then obtain w2 where w2: "rd b k w1 = (None, w2)" by (cases "rd b k w1") auto
  show "fst (route_get rd wr p b k w) = ''RPC Failed''" by (simp add: route_get_def w1 w2)
  show "holds (snd (route_get rd wr p b k w)) m k' = holds w m k'" if "member m"
    using rd_holds [OF i assms(3) that, of k k'] w2 h [OF that] by (simp add: route_get_def w1)
qed

lemma get_migrates:
  assumes "inv w" "member p" "member b" "b \<noteq> p" "answers p" "answers b" "fits v"
    and "holds w p k = None" "visible (holds w b k) = Some v"
  shows "holds (snd (route_get rd wr p b k w)) p k = Some (c_str v)"
    and "member m \<Longrightarrow> m \<noteq> p \<or> k' \<noteq> k \<Longrightarrow> holds (snd (route_get rd wr p b k w)) m k' = holds w m k'"
proof -
  have "fst (rd p k w) = None" using rd_answer [OF assms(1,2,5), of k] assms(8) by (simp add: visible_def)
  then obtain w1 where w1: "rd p k w = (None, w1)" by (cases "rd p k w") auto
  have i: "inv w1" and h: "\<And>m k'. member m \<Longrightarrow> holds w1 m k' = holds w m k'"
    using rd_inv [OF assms(1,2), of k] rd_holds [OF assms(1,2), of _ k] w1 by simp_all
  have "fst (rd b k w1) = Some v" using rd_answer [OF i assms(3,6), of k] h [OF assms(3)] assms(9) by simp
  then obtain w2 where w2: "rd b k w1 = (Some v, w2)" by (cases "rd b k w1") auto
  have i2: "inv w2" and h2: "\<And>m k'. member m \<Longrightarrow> holds w2 m k' = holds w m k'"
    using rd_inv [OF i assms(3), of k] rd_holds [OF i assms(3), of _ k] w2 h by simp_all
  have s: "snd (route_get rd wr p b k w) = wr INSERT p k v w2" using assms(4) by (simp add: route_get_def w1 w2)
  show "holds (snd (route_get rd wr p b k w)) p k = Some (c_str v)"
    unfolding s using i2 h2 assms by (simp add: wr_answer)
  show "holds (snd (route_get rd wr p b k w)) m k' = holds w m k'" if "member m" "m \<noteq> p \<or> k' \<noteq> k"
    unfolding s using that i2 h2 assms by (simp add: wr_frame)
qed

lemma delete_gone:
  assumes "inv w" "member p" "member b" "answers p" "answers b"
  shows "holds (route_delete rm p b k w) p k = None" "holds (route_delete rm p b k w) b k = None"
    and "member m \<Longrightarrow> m \<noteq> p \<and> m \<noteq> b \<or> k' \<noteq> k \<Longrightarrow> holds (route_delete rm p b k w) m k' = holds w m k'"
  using assms rm_inv [of w p k] by (auto simp: route_delete_def Let_def rm_answer rm_frame)

end

end
