(* ===== verification/ClusterStore.thy ===== *)
theory ClusterStore
  imports ReplicaContract
begin

text \<open>
  The cluster as the code builds it provides the interface of the distributor: the operations on
  one node go, through the RPC client or through the store of the same process, to the \<^verbatim>\<open>KvStore\<close> of
  that node. The laws hold for every fate of the calls; a node answers when it is the local one or
  every call to it is delivered.
\<close>

subsection \<open>Stores that share their storage\<close>

definition shares :: "kv_store \<Rightarrow> kv_store \<Rightarrow> bool" where
  "shares c s \<longleftrightarrow> storage_mode c = storage_mode s \<and> mutex_name c = mutex_name s
     \<and> storage c = storage s \<and> map_ptr c = map_ptr s"

lemma Sync_storage:
  "Sync b s \<sigma> = (case storage_mode s of MEMORY \<Rightarrow> \<sigma> | PERSISTENT \<Rightarrow> (case storage s of None \<Rightarrow> \<sigma> | Some i \<Rightarrow> snd (flush b i \<sigma>)))"
  by (simp add: Sync_def storage_def split: StorageMode.split)

lemma shares_ops:
  assumes "shares c s"
  shows "Insert b c k v \<sigma> = Insert b s k v \<sigma>" "Update b c k v \<sigma> = Update b s k v \<sigma>"
    "Delete b c k \<sigma> = Delete b s k \<sigma>" "Find b c k \<sigma> = Find b s k \<sigma>"
proof -
  have eqs: "mutex_name c = mutex_name s" "map_ptr c = map_ptr s" "Sync b c = Sync b s"
    "mutex_missing b c = mutex_missing b s" "hasEnoughMemory b c = hasEnoughMemory b s"
    using assms
    by (simp_all add: shares_def fun_eq_iff hasEnoughMemory_def GetFreeMemory_def Sync_storage mutex_missing_def
        split: StorageMode.split option.split)
  show "Insert b c k v \<sigma> = Insert b s k v \<sigma>" unfolding Insert_def eqs ..
  show "Update b c k v \<sigma> = Update b s k v \<sigma>" unfolding Update_def eqs ..
  show "Delete b c k \<sigma> = Delete b s k \<sigma>" unfolding Delete_def eqs ..
  show "Find b c k \<sigma> = Find b s k \<sigma>" unfolding Find_def eqs ..
qed

subsection \<open>One store, written through the outcome it reports\<close>

definition accepts :: "boost \<Rightarrow> string \<Rightarrow> bool" where
  "accepts b v \<longleftrightarrow> (\<forall>g. 2 * (length v + 68) \<le> unat (get_free_memory b g) \<and> alloc_error b g (c_str v) = None)"

lemma of_nat_le_unat: "n \<le> unat (w :: u64) \<Longrightarrow> of_nat n \<le> w"
  by (simp add: word_le_nat_alt unat_of_nat order_trans [OF mod_less_eq_dividend])

lemma unat_double: "unat (x :: u64) \<le> n \<Longrightarrow> n < 2 ^ 63 \<Longrightarrow> unat (x * 2) = unat x * 2"
  by (simp add: unat_word_ariths)

lemma accepts_memory:
  assumes "accepts b v" "attached s \<sigma>"
  shows "hasEnoughMemory b s \<sigma> (string_size v + 4 + 64)"
    and "hasEnoughMemory b s \<sigma> (string_size v - string_size u) \<or> \<not> string_size u < string_size v"
    and "alloc_error b (segments \<sigma> p) (c_str v) = None"
proof -
  obtain q where q: "storage s = Some q" using assms(2) by (elim attachedE)
  let ?f = "get_free_memory b (segments \<sigma> q)"
  have l: "2 * (length v + 68) \<le> unat ?f" and "alloc_error b (segments \<sigma> p) (c_str v) = None"
    using assms(1) by (simp_all add: accepts_def)
  then show "alloc_error b (segments \<sigma> p) (c_str v) = None" by simp
  have "(string_size v + 4 + 64) * 2 = of_nat (2 * (length v + 68))" by (simp add: string_size_def)
  then show "hasEnoughMemory b s \<sigma> (string_size v + 4 + 64)"
    using of_nat_le_unat [OF l] q by (simp only: hasEnoughMemory_def GetFreeMemory_def option.case)
  have lt: "length v < 2 ^ 63" using l unsigned_less [of ?f, where 'a = nat] by simp
  show "hasEnoughMemory b s \<sigma> (string_size v - string_size u) \<or> \<not> string_size u < string_size v"
  proof (cases "string_size u < string_size v")
    case True
    have uv: "unat (string_size v) = length v" using lt by (simp add: string_size_def unat_of_nat)
    have "unat (string_size v - string_size u) \<le> length v"
      using uv True by (simp add: unat_sub less_imp_le)
    from unat_double [OF this lt] this
    have "unat ((string_size v - string_size u) * 2) \<le> length v * 2"
      by (simp only: mult_le_mono1)
    also have "length v * 2 \<le> unat ?f" using l by simp
    finally have "(string_size v - string_size u) * 2 \<le> ?f" unfolding word_le_nat_alt .
    then show ?thesis using q by (simp only: hasEnoughMemory_def GetFreeMemory_def option.case simp_thms)
  qed simp
qed

fun write_cmd :: "RemoteOp \<Rightarrow> key \<Rightarrow> string \<Rightarrow> kv_command" where
  "write_cmd INSERT k v = InsertCmd k v"
| "write_cmd UPDATE k v = UpdateCmd k v"

lemma exec_write_other:
  "attached s \<sigma> \<Longrightarrow> k' \<noteq> command_key c \<Longrightarrow> contents s (snd (exec b s c \<sigma>)) k' = contents s \<sigma> k'"
  using exec_simulates [of s \<sigma> c b, THEN kv_step_effect] by (simp add: effect_other)

lemma exec_attached: "attached s \<sigma> \<Longrightarrow> attached s (snd (exec b s c \<sigma>))"
  by (rule store.exec_inv)

lemma exec_write_cases:
  assumes "attached s \<sigma>"
  shows "contents s (snd (exec b s (write_cmd op k v) \<sigma>)) k = contents s \<sigma> k
    \<or> contents s (snd (exec b s (write_cmd op k v) \<sigma>)) k = Some (c_str v) \<and> (op = INSERT \<longleftrightarrow> contents s \<sigma> k = None)"
  using exec_simulates [OF assms, of "write_cmd op k v" b]
  by (cases op) (auto elim: kv_step_InsertE kv_step_UpdateE)

lemma exec_write_accepted:
  assumes "attached s \<sigma>" "accepts b v" "op = INSERT \<longleftrightarrow> contents s \<sigma> k = None"
  shows "contents s (snd (exec b s (write_cmd op k v) \<sigma>)) k = Some (c_str v)"
proof (cases op)
  case INSERT
  with assms show ?thesis
    by (simp add: Insert_cases accepts_memory [OF assms(2,1), simplified] contents_update)
next
  case UPDATE
  with assms obtain old where old: "contents s \<sigma> k = Some old" by auto
  with UPDATE assms accepts_memory [OF assms(2,1)] show ?thesis
    by (auto simp: Update_cases contents_update)
qed

lemma exec_delete: "attached s \<sigma> \<Longrightarrow> contents s (snd (exec b s (DeleteCmd k) \<sigma>)) k = None"
  by (auto simp: Delete_cases contents_delete)

subsection \<open>The nodes of a distributor\<close>

definition access_of :: "fabric \<Rightarrow> string \<Rightarrow> kv_store \<Rightarrow> address \<Rightarrow> cluster access" where
  "access_of F P c a = \<lparr>kv_client = KVClient F P, local_store = local_kv (node_boost F) c a\<rparr>"

definition node_address :: "string \<Rightarrow> kv_distributor \<Rightarrow> node_id \<Rightarrow> address" where
  "node_address P d n = full_endpoint P (getNodeToIP n d)"

definition member_node :: "kv_distributor \<Rightarrow> node_id \<Rightarrow> bool" where
  "member_node d n \<longleftrightarrow> lookup (node_to_ip d) n \<noteq> None"

text \<open>
  Every node of the table runs a server with an attached store at an address of its own, and where
  one of them is the local node, the store of this process shares that server's storage.
\<close>

definition serving :: "string \<Rightarrow> kv_store \<Rightarrow> address \<Rightarrow> kv_distributor \<Rightarrow> cluster \<Rightarrow> bool" where
  "serving P c a d w \<longleftrightarrow>
     (\<forall>n m. member_node d n \<and> member_node d m \<and> node_address P d n = node_address P d m \<longrightarrow> n = m)
     \<and> (\<forall>n. member_node d n \<longrightarrow> \<not> n <s 0
          \<and> (\<exists>s. server_kv w (node_address P d n) = Some s \<and> attached s (hosts w (node_address P d n))
                \<and> (n = local_node_id d \<longrightarrow> a = node_address P d n \<and> shares c s)))"

definition answers :: "fabric \<Rightarrow> string \<Rightarrow> kv_distributor \<Rightarrow> node_id \<Rightarrow> bool" where
  "answers F P d n \<longleftrightarrow> n = local_node_id d \<or> (\<forall>i. fate F i (node_address P d n) = Delivered)"

definition holds :: "string \<Rightarrow> kv_distributor \<Rightarrow> cluster \<Rightarrow> node_id \<Rightarrow> key \<Rightarrow> string option" where
  "holds P d w n k =
     (case server_kv w (node_address P d n) of
        None \<Rightarrow> None
      | Some s \<Rightarrow> contents s (hosts w (node_address P d n)) k)"

definition node_read :: "'w access \<Rightarrow> kv_distributor \<Rightarrow> 'w node_reader" where
  "node_read A d n k w = (let (r, d', w') = readFromNode A n k d w in (r, w'))"

definition node_write :: "'w access \<Rightarrow> kv_distributor \<Rightarrow> 'w node_writer" where
  "node_write A d op n k v w = snd (writeToNode A n k v op d w)"

definition node_delete :: "'w access \<Rightarrow> kv_distributor \<Rightarrow> 'w node_remover" where
  "node_delete A d n k w = snd (deleteOnNode A n k d w)"

lemma servingE:
  assumes "serving P c a d w" "member_node d n"
  obtains s where "server_kv w (node_address P d n) = Some s" "attached s (hosts w (node_address P d n))"
    "n = local_node_id d \<Longrightarrow> a = node_address P d n \<and> shares c s" "\<not> n <s 0"
  using assms unfolding serving_def by blast

lemma serving_inj: "serving P c a d w \<Longrightarrow> member_node d n \<Longrightarrow> member_node d m \<Longrightarrow> n \<noteq> m \<Longrightarrow>
    node_address P d n \<noteq> node_address P d m"
  unfolding serving_def by blast

lemma touch_member [simp]: "member_node d n \<Longrightarrow> touch_node n d = d"
  by (auto simp: touch_node_def member_node_def)

text \<open>What any operation on a node does to the world: one run of the handler, or nothing.\<close>

definition run_on :: "address \<Rightarrow> boost \<Rightarrow> kv_store \<Rightarrow> kv_command \<Rightarrow> cluster \<Rightarrow> nat \<Rightarrow> cluster" where
  "run_on a b s c w i = w\<lparr>hosts := (hosts w)(a := snd (exec b s c (hosts w a))), calls := i\<rparr>"

lemma serving_calls [simp]: "serving P c a d (w\<lparr>calls := i\<rparr>) = serving P c a d w"
  by (simp add: serving_def)

lemma holds_calls [simp]: "holds P d (w\<lparr>calls := i\<rparr>) = holds P d w"
  by (simp add: holds_def fun_eq_iff split: option.split)

lemma serving_run_on:
  assumes "serving P c a d w" "server_kv w x = Some s" "attached s (hosts w x)"
  shows "serving P c a d (run_on x b s cmd w i)"
  using assms exec_attached [OF assms(3), of b cmd] unfolding serving_def run_on_def by fastforce

lemma holds_run_on:
  assumes "server_kv w x = Some s"
  shows "holds P d (run_on x b s cmd w i) n k =
     (if node_address P d n = x then contents s (snd (exec b s cmd (hosts w x))) k else holds P d w n k)"
  using assms by (auto simp: holds_def run_on_def split: option.split)

lemma run_on_calls [simp]: "run_on x b s c w (calls w) = w\<lparr>hosts := (hosts w)(x := snd (exec b s c (hosts w x)))\<rparr>"
  by (simp add: run_on_def)

lemma rpc_read:
  assumes "server_kv w x = Some s" "\<And>t \<sigma>. snd (handler t \<sigma>) = \<sigma>"
  shows "\<exists>i. snd (rpc F x handler w) = w\<lparr>calls := i\<rparr>"
    and "fate F (calls w) x = Delivered \<Longrightarrow> fst (rpc F x handler w) = Inr (fst (handler s (hosts w x)))"
    and "fst (rpc F x handler w) = Inl (call_failed F x) \<or> fst (rpc F x handler w) = Inr (fst (handler s (hosts w x)))"
proof -
  have "snd (handler s (hosts w x)) = hosts w x" by (rule assms(2))
  then have h: "(hosts w)(x := snd (handler s (hosts w x))) = hosts w" by auto
  have w2: "w\<lparr>calls := j, hosts := hosts w\<rparr> = w\<lparr>calls := j\<rparr>" for j by simp
  show "\<exists>i. snd (rpc F x handler w) = w\<lparr>calls := i\<rparr>"
    using h w2 assms(1) by (auto simp: rpc_def Let_def split_beta split: outcome.split)
  show "fate F (calls w) x = Delivered \<Longrightarrow> fst (rpc F x handler w) = Inr (fst (handler s (hosts w x)))"
    "fst (rpc F x handler w) = Inl (call_failed F x) \<or> fst (rpc F x handler w) = Inr (fst (handler s (hosts w x)))"
    using assms(1) by (auto simp: rpc_def Let_def split_beta split: outcome.split)
qed

lemma rpc_write:
  assumes "server_kv w x = Some s" "\<And>\<sigma>. snd (handler s \<sigma>) = snd (exec b s c \<sigma>)"
  shows "(\<exists>i. snd (rpc F x handler w) = run_on x b s c w i)
    \<or> (fate F (calls w) x \<noteq> Delivered \<and> (\<exists>i. snd (rpc F x handler w) = w\<lparr>calls := i\<rparr>))"
proof -
  have c: "w\<lparr>calls := j, hosts := h\<rparr> = w\<lparr>hosts := h, calls := j\<rparr>" for j h by (cases w) simp
  show ?thesis
    using assms by (auto simp: rpc_def Let_def split_beta run_on_def c split: outcome.split)
qed

lemma write_on_node:
  assumes "serving P c a d w" "member_node d n" "server_kv w (node_address P d n) = Some s"
  shows "(\<exists>i. node_write (access_of F P c a) d op n k v w = run_on (node_address P d n) (node_boost F) s (write_cmd op k v) w i)
    \<or> (\<not> answers F P d n \<and> (\<exists>i. node_write (access_of F P c a) d op n k v w = w\<lparr>calls := i\<rparr>))"
proof (cases "n = local_node_id d")
  case True
  with assms servingE [OF assms(1,2)] have "a = node_address P d n" "shares c s" "\<not> n <s 0" by auto
  with True assms(2) shares_ops have
    "node_write (access_of F P c a) d op n k v w = run_on (node_address P d n) (node_boost F) s (write_cmd op k v) w (calls w)"
    by (cases op) (simp_all add: node_write_def writeToNode_def isLocalNode_def access_of_def local_kv_def on_host_def)
  then show ?thesis by blast
next
  case False
  have neg: "\<not> n <s 0" using servingE [OF assms(1,2)] by auto
  have i: "\<And>\<sigma>. snd (kv_insert (node_boost F) s k v \<sigma>) = snd (exec (node_boost F) s (InsertCmd k v) \<sigma>)"
    and u: "\<And>\<sigma>. snd (kv_update (node_boost F) s k v \<sigma>) = snd (exec (node_boost F) s (UpdateCmd k v) \<sigma>)"
    by (simp_all add: kv_insert_def kv_update_def)
  show ?thesis
    using False neg assms(2) rpc_write [OF assms(3), of "\<lambda>s. kv_insert (node_boost F) s k v", OF i, of F]
      rpc_write [OF assms(3), of "\<lambda>s. kv_update (node_boost F) s k v", OF u, of F]
    by (cases op) (auto simp: node_write_def writeToNode_def isLocalNode_def access_of_def KVClient_def KVClient_insert_def
        KVClient_update_def node_address_def answers_def)
qed

lemma delete_on_node:
  assumes "serving P c a d w" "member_node d n" "server_kv w (node_address P d n) = Some s"
  shows "(\<exists>i. node_delete (access_of F P c a) d n k w = run_on (node_address P d n) (node_boost F) s (DeleteCmd k) w i)
    \<or> (\<not> answers F P d n \<and> (\<exists>i. node_delete (access_of F P c a) d n k w = w\<lparr>calls := i\<rparr>))"
proof (cases "n = local_node_id d")
  case True
  with assms servingE [OF assms(1,2)] have "a = node_address P d n" "shares c s" "\<not> n <s 0" by auto
  with True assms(2) shares_ops have
    "node_delete (access_of F P c a) d n k w = run_on (node_address P d n) (node_boost F) s (DeleteCmd k) w (calls w)"
    by (simp add: node_delete_def deleteOnNode_def isLocalNode_def access_of_def local_kv_def on_host_def)
  then show ?thesis by blast
next
  case False
  have neg: "\<not> n <s 0" using servingE [OF assms(1,2)] by auto
  have h: "\<And>\<sigma>. snd (kv_delete (node_boost F) s k \<sigma>) = snd (exec (node_boost F) s (DeleteCmd k) \<sigma>)"
    by (simp add: kv_delete_def)
  show ?thesis
    using False neg assms(2) rpc_write [OF assms(3), of "\<lambda>s. kv_delete (node_boost F) s k", OF h, of F]
    by (auto simp: node_delete_def deleteOnNode_def isLocalNode_def access_of_def KVClient_def KVClient_deleteKey_def
        node_address_def answers_def)
qed

lemma miss_not_found [simp]: "isMissOrError ''key not found''"
  by (simp add: isMissOrError_def)

lemma visible_Find:
  "attached s \<sigma> \<Longrightarrow> (if isMissOrError (Find b s k \<sigma>) then None else Some (Find b s k \<sigma>)) = visible (contents s \<sigma> k)"
  by (simp add: Find_contents visible_def split: option.split)

lemma read_on_node:
  assumes "serving P c a d w" "member_node d n" "server_kv w (node_address P d n) = Some s"
  shows "\<exists>i. snd (node_read (access_of F P c a) d n k w) = w\<lparr>calls := i\<rparr>"
    and "fst (node_read (access_of F P c a) d n k w) = visible (contents s (hosts w (node_address P d n)) k)
      \<or> \<not> answers F P d n \<and> fst (node_read (access_of F P c a) d n k w) = None"
proof -
  have att: "attached s (hosts w (node_address P d n))" and neg: "\<not> n <s 0"
    and loc: "n = local_node_id d \<Longrightarrow> a = node_address P d n \<and> shares c s"
    using assms(3) servingE [OF assms(1,2)] by auto
  let ?h = "\<lambda>s. kv_fetch (node_boost F) s k"
  have h: "\<And>t \<sigma>. snd (?h t \<sigma>) = \<sigma>" by (simp add: kv_fetch_def)
  note r = rpc_read [OF assms(3), of ?h, OF h, of F]
  show "\<exists>i. snd (node_read (access_of F P c a) d n k w) = w\<lparr>calls := i\<rparr>"
  proof (cases "n = local_node_id d")
    case True
    then have "snd (node_read (access_of F P c a) d n k w) = w\<lparr>calls := calls w\<rparr>"
      using neg assms(2) by (simp add: node_read_def readFromNode_def isLocalNode_def Let_def)
    then show ?thesis by blast
  next
    case False
    with r(1) neg assms(2) show ?thesis
      by (auto simp: node_read_def readFromNode_def isLocalNode_def access_of_def KVClient_def KVClient_fetch_def
          node_address_def Let_def split: prod.splits sum.splits)
  qed
  show "fst (node_read (access_of F P c a) d n k w) = visible (contents s (hosts w (node_address P d n)) k)
      \<or> \<not> answers F P d n \<and> fst (node_read (access_of F P c a) d n k w) = None"
  proof (cases "n = local_node_id d")
    case True
    with loc have "a = node_address P d n" "shares c s" by auto
    then have "fst (node_read (access_of F P c a) d n k w) =
        (let v = Find (node_boost F) s k (hosts w (node_address P d n)) in if isMissOrError v then None else Some v)"
      using True neg assms(2) shares_ops
      by (simp add: node_read_def readFromNode_def isLocalNode_def access_of_def local_kv_def Let_def)
    then show ?thesis unfolding Let_def visible_Find [OF att] by blast
  next
    case False
    then have R: "fst (node_read (access_of F P c a) d n k w) =
        (case fst (rpc F (node_address P d n) ?h w) of Inl e \<Rightarrow> None
         | Inr v \<Rightarrow> if isMissOrError v then None else Some v)"
      using neg assms(2)
      by (simp add: node_read_def readFromNode_def isLocalNode_def access_of_def KVClient_def KVClient_fetch_def
          node_address_def Let_def split: prod.split sum.split)
    have V: "(case Inr (fst (?h s (hosts w (node_address P d n)))) of Inl (e :: exn) \<Rightarrow> None
         | Inr v \<Rightarrow> if isMissOrError v then None else Some v) = visible (contents s (hosts w (node_address P d n)) k)"
      using visible_Find [OF att, of "node_boost F" k] by (simp add: kv_fetch_def)
    show ?thesis
    proof (cases "fate F (calls w) (node_address P d n) = Delivered")
      case True
      then show ?thesis unfolding R r(2) [OF True] V by blast
    next
      case not: False
      then have "\<not> answers F P d n" using False by (auto simp: answers_def)
      then show ?thesis using r(3) V unfolding R by (metis (no_types, lifting) sum.case(1))
    qed
  qed
qed

subsection \<open>The interface is provided\<close>

lemma holds_at: "server_kv w (node_address P d n) = Some s \<Longrightarrow> holds P d w n k = contents s (hosts w (node_address P d n)) k"
  by (simp add: holds_def)

lemma holds_run_self:
  "server_kv w (node_address P d n) = Some s \<Longrightarrow>
   holds P d (run_on (node_address P d n) b s cmd w i) n k = contents s (snd (exec b s cmd (hosts w (node_address P d n)))) k"
  by (simp add: holds_run_on)

lemma holds_run_frame:
  assumes "serving P c a d w" "member_node d n" "member_node d m" "server_kv w (node_address P d n) = Some s"
    and "m \<noteq> n \<or> k' \<noteq> command_key cmd"
  shows "holds P d (run_on (node_address P d n) b s cmd w i) m k' = holds P d w m k'"
proof (cases "m = n")
  case True
  moreover have "attached s (hosts w (node_address P d n))" using servingE [OF assms(1,2)] assms(4) by auto
  ultimately show ?thesis using assms(4,5) by (simp add: holds_run_on holds_at exec_write_other)
next
  case False
  with serving_inj [OF assms(1,3,2)] assms(4) show ?thesis by (simp add: holds_run_on)
qed

lemma write_key [simp]: "command_key (write_cmd op k v) = k"
  by (cases op) simp_all

interpretation nodes: replicas "serving P c a d" "member_node d" "answers F P d" "accepts (node_boost F)" "holds P d"
    "node_read (access_of F P c a) d" "node_write (access_of F P c a) d" "node_delete (access_of F P c a) d"
  for F P c a d
proof
  fix w n m k k' v op
  assume s: "serving P c a d w" and n: "member_node d n"
  from servingE [OF s n] obtain srv where srv: "server_kv w (node_address P d n) = Some srv"
    and att: "attached srv (hosts w (node_address P d n))" by metis
  note W = write_on_node [OF s n srv, of F op k v]
  note D = delete_on_node [OF s n srv, of F k]
  note R = read_on_node [OF s n srv, of F k]
  show "serving P c a d (snd (node_read (access_of F P c a) d n k w))"
    using R(1) s by auto
  show "serving P c a d (node_write (access_of F P c a) d op n k v w)"
    using W s serving_run_on [OF s srv att] by auto
  show "serving P c a d (node_delete (access_of F P c a) d n k w)"
    using D s serving_run_on [OF s srv att] by auto
  show "holds P d (snd (node_read (access_of F P c a) d n k w)) m k' = holds P d w m k'"
    using R(1) by auto
  show "fst (node_read (access_of F P c a) d n k w) = None
      \<or> fst (node_read (access_of F P c a) d n k w) = visible (holds P d w n k)"
    using R(2) holds_at [OF srv] by auto
  show "answers F P d n \<Longrightarrow> fst (node_read (access_of F P c a) d n k w) = visible (holds P d w n k)"
    using R(2) holds_at [OF srv] by auto
  show "m \<noteq> n \<or> k' \<noteq> k \<Longrightarrow> holds P d (node_write (access_of F P c a) d op n k v w) m k' = holds P d w m k'"
    if "member_node d m"
    using W holds_run_frame [OF s n that srv, of k' "write_cmd op k v"] by auto
  show "m \<noteq> n \<or> k' \<noteq> k \<Longrightarrow> holds P d (node_delete (access_of F P c a) d n k w) m k' = holds P d w m k'"
    if "member_node d m"
    using D holds_run_frame [OF s n that srv, of k' "DeleteCmd k"] by auto
  show "holds P d (node_write (access_of F P c a) d op n k v w) n k = holds P d w n k
      \<or> holds P d (node_write (access_of F P c a) d op n k v w) n k = Some (c_str v) \<and> (op = INSERT \<longleftrightarrow> holds P d w n k = None)"
    using W exec_write_cases [OF att, of "node_boost F" op k v] holds_run_self [OF srv] holds_at [OF srv] by auto
  show "holds P d (node_write (access_of F P c a) d op n k v w) n k = Some (c_str v)"
    if "answers F P d n" "accepts (node_boost F) v" "op = INSERT \<longleftrightarrow> holds P d w n k = None"
    using W that exec_write_accepted [OF att that(2), of op k] holds_run_self [OF srv] holds_at [OF srv] by auto
  show "holds P d (node_delete (access_of F P c a) d n k w) n k = None" if "answers F P d n"
    using D that exec_delete [OF att, of "node_boost F" k] holds_run_self [OF srv] by auto
  show "holds P d (node_delete (access_of F P c a) d n k w) n k = holds P d w n k
      \<or> holds P d (node_delete (access_of F P c a) d n k w) n k = None"
    using D exec_delete [OF att, of "node_boost F" k] holds_run_self [OF srv] by auto
qed

subsection \<open>The operations of the distributor in terms of its nodes\<close>

lemma readFromNode_split: "readFromNode A n k d w = (fst (node_read A d n k w), d, snd (node_read A d n k w))"
  if "member_node d n"
  using that by (auto simp: node_read_def readFromNode_def Let_def split: prod.split sum.split)

lemma writeToNode_split: "writeToNode A n k v op d w = (d, node_write A d op n k v w)" if "member_node d n"
  using that by (auto simp: node_write_def writeToNode_def Let_def split: RemoteOp.split)

lemma deleteOnNode_split: "deleteOnNode A n k d w = (d, node_delete A d n k w)" if "member_node d n"
  using that by (auto simp: node_delete_def deleteOnNode_def Let_def)

abbreviation primary_of :: "kv_distributor \<Rightarrow> key \<Rightarrow> node_id" where
  "primary_of d k \<equiv> getPrimaryNode (hash_ring d) k"

abbreviation buddy_of :: "kv_distributor \<Rightarrow> key \<Rightarrow> node_id" where
  "buddy_of d k \<equiv> getBuddyNode (hash_ring d) k"

definition routes_to_members :: "kv_distributor \<Rightarrow> bool" where
  "routes_to_members d \<longleftrightarrow> (\<forall>k. member_node d (primary_of d k) \<and> member_node d (buddy_of d k))"

lemma get_routed:
  assumes "routes_to_members d"
  shows "get A k d w = (let (v, w') = route_get (node_read A d) (node_write A d) (primary_of d k) (buddy_of d k) k w in (v, d, w'))"
  using assms
  by (auto simp: get_def route_get_def routes_to_members_def readFromNode_split writeToNode_split Let_def
      split: prod.split option.split)

lemma write_routed:
  assumes "routes_to_members d"
  shows "write_both A op k v d w = (d, route_write (node_write A d) op (primary_of d k) (buddy_of d k) k v w)"
  using assms by (auto simp: write_both_def route_write_def routes_to_members_def writeToNode_split Let_def)

lemma delete_routed:
  assumes "routes_to_members d"
  shows "deleteKey A k d w = (d, route_delete (node_delete A d) (primary_of d k) (buddy_of d k) k w)"
  using assms by (auto simp: deleteKey_def route_delete_def routes_to_members_def deleteOnNode_split Let_def)

end
