(* ===== verification/DemoCluster.thy ===== *)
theory DemoCluster
  imports ClusterStore RingGuarantees KvClaims
begin

text \<open>
  Concrete clusters for the witnesses: a table of nodes, each with a \<^verbatim>\<open>MEMORY\<close> server that holds given
  entries, a client that is none of them, and a network that loses the requests to given addresses.
\<close>

definition demo_host :: "string int_map \<Rightarrow> os" where
  "demo_host m = (fresh_memory 9 ''n'' empty_os)\<lparr>segments := (\<lambda>i. \<lparr>seg_size = 9, shared_map = Some m\<rparr>)\<rparr>"

definition demo_server :: kv_store where
  "demo_server = memory_server 9 ''n'' empty_os"

definition demo_world :: "(address \<times> string int_map) list \<Rightarrow> cluster" where
  "demo_world ms =
     \<lparr>hosts = (\<lambda>a. case map_of ms a of None \<Rightarrow> empty_os | Some m \<Rightarrow> demo_host m),
      server_kv = (\<lambda>a. map_option (\<lambda>m. demo_server) (map_of ms a)),
      memberships = (\<lambda>a. None), calls = 0\<rparr>"

definition demo_fabric :: "address list \<Rightarrow> fabric" where
  "demo_fabric lost =
     \<lparr>fate = (\<lambda>i a. if a \<in> set lost then RequestLost else Delivered), failure_text = id,
      merge_clock = (\<lambda>i j. 0), node_boost = roomy\<rparr>"

definition demo_client :: "endpoint int_map \<Rightarrow> kv_distributor" where
  "demo_client nodes = rebuildRing nodes 2
     \<lparr>count_of_node = 0, node_to_ip = [], local_node_id = - 1, hash_ring = empty_ring 0\<rparr>"

lemma demo_client_simps [simp]:
  "node_to_ip (demo_client nodes) = nodes" "local_node_id (demo_client nodes) = - 1"
  by (simp_all add: demo_client_def rebuildRing_def)

lemma demo_fabric_simps [simp]:
  "node_boost (demo_fabric lost) = roomy"
  "fate (demo_fabric lost) i a = (if a \<in> set lost then RequestLost else Delivered)"
  by (simp_all add: demo_fabric_def)

lemma demo_attached [simp]: "wf_map m \<Longrightarrow> attached demo_server (demo_host m)"
  using attached_fresh [of 9 "''n''" empty_os]
  by (simp add: attached_def demo_server_def demo_host_def map_ptr_def storage_def memory_server_def fresh_memory_def)

lemma demo_contents [simp]: "contents demo_server (demo_host m) k = map_option c_str (lookup m k)"
  by (simp add: contents_def demo_server_def demo_host_def map_ptr_def memory_server_def map_at_def)

lemma demo_serving:
  assumes "distinct (map snd nodes)" "\<forall>n ep. (n, ep) \<in> set nodes \<longrightarrow> \<not> n <s 0 \<and> map_of ms (full_endpoint P ep) \<noteq> None"
    and "\<forall>(x, m) \<in> set ms. wf_map m"
  shows "serving P c a (demo_client nodes) (demo_world ms)"
proof -
  have minus: "(- 1 :: node_id) <s 0" by (simp add: word_sless_alt)
  have ep: "(n, getNodeToIP n (demo_client nodes)) \<in> set nodes" if "member_node (demo_client nodes) n" for n
    using that by (auto simp: member_node_def getNodeToIP_def dest: map_of_SomeD)
  have inj: "n = m" if "(n, e) \<in> set nodes" "(m, e) \<in> set nodes" for n m e
    using assms(1) that by (metis distinct_map inj_onD prod.inject snd_conv)
  have "n = m" if "member_node (demo_client nodes) n" "member_node (demo_client nodes) m"
    "node_address P (demo_client nodes) n = node_address P (demo_client nodes) m" for n m
    using ep [OF that(1)] ep [OF that(2)] that(3) inj by (simp add: node_address_def full_endpoint_def)
  moreover have "\<not> n <s 0 \<and> n \<noteq> - 1 \<and> map_of ms (node_address P (demo_client nodes) n) \<noteq> None"
    if "member_node (demo_client nodes) n" for n
    using ep [OF that] assms(2) minus by (metis node_address_def)
  moreover have "attached demo_server (demo_host m)" if "map_of ms x = Some m" for x m
    using assms(3) map_of_SomeD [OF that] by auto
  ultimately show ?thesis
    unfolding serving_def by (fastforce simp: demo_world_def)
qed

lemma demo_holds:
  "holds P d (demo_world ms) n k = (case map_of ms (node_address P d n) of None \<Rightarrow> None | Some m \<Rightarrow> map_option c_str (lookup m k))"
  by (auto simp: holds_def demo_world_def split: option.split)

lemma accepts_roomy: "length v \<le> 400 \<Longrightarrow> accepts roomy v"
  by (simp add: accepts_def roomy_def)

lemma demo_answers: "node_address P d n \<notin> set lost \<Longrightarrow> answers (demo_fabric lost) P d n"
  by (simp add: answers_def)

subsection \<open>Three nodes\<close>

abbreviation demo3 :: kv_distributor where
  "demo3 \<equiv> demo_client [(0, ''a''), (1, ''b''), (2, ''c'')]"

definition world3 :: "string int_map \<Rightarrow> string int_map \<Rightarrow> string int_map \<Rightarrow> cluster" where
  "world3 m0 m1 m2 = demo_world [(''p://a'', m0), (''p://b'', m1), (''p://c'', m2)]"

lemma demo3_routes: "primary_of demo3 5 = 2" "buddy_of demo3 5 = 1"
  by code_simp+

lemma demo3_member: "member_node demo3 n \<longleftrightarrow> n = 0 \<or> n = 1 \<or> n = 2"
  by (simp add: member_node_def)

lemma demo3_address [simp]:
  "node_address ''p'' demo3 0 = ''p://a''" "node_address ''p'' demo3 1 = ''p://b''"
  "node_address ''p'' demo3 2 = ''p://c''"
  by (simp_all add: node_address_def getNodeToIP_def full_endpoint_def)

lemma demo3_serving: "wf_map m0 \<Longrightarrow> wf_map m1 \<Longrightarrow> wf_map m2 \<Longrightarrow> serving ''p'' c a demo3 (world3 m0 m1 m2)"
  unfolding world3_def by (rule demo_serving) (auto simp: full_endpoint_def word_sless_alt)

lemma demo3_holds:
  "holds ''p'' demo3 (world3 m0 m1 m2) 0 k = map_option c_str (lookup m0 k)"
  "holds ''p'' demo3 (world3 m0 m1 m2) 1 k = map_option c_str (lookup m1 k)"
  "holds ''p'' demo3 (world3 m0 m1 m2) 2 k = map_option c_str (lookup m2 k)"
  by (simp_all add: world3_def demo_holds)

lemma demo3_answers: "\<forall>n. member_node demo3 n \<longrightarrow> answers (demo_fabric []) ''p'' demo3 n"
  by (simp add: demo_answers)

lemma demo3_answers_but: "\<forall>n. member_node demo3 n \<and> n \<noteq> 2 \<longrightarrow> answers (demo_fabric [''p://c'']) ''p'' demo3 n"
  by (auto simp: demo3_member demo_answers)

end
