(* ===== verification/DistributorClaims.thy ===== *)
theory DistributorClaims
  imports DemoCluster
begin

text \<open>
  What a client of the cluster can rely on, end to end: routing, the two copies, the failure of any
  one node, the rebuilt ring, joins with lazy migration, updates and deletions; and what it cannot
  rely on. The statements are about the distributor running over the RPC client, the servers, their
  stores and the ring of the model; nothing about them is assumed except which calls arrive.
\<close>

subsection \<open>The ring of a distributor\<close>

text \<open>The ring was built from the current table with \<open>vn\<close> tokens per node.\<close>

definition ring_current :: "cint \<Rightarrow> kv_distributor \<Rightarrow> bool" where
  "ring_current vn d \<longleftrightarrow> node_to_ip d \<noteq> [] \<and> \<not> vn \<le>s 0
     \<and> ring (hash_ring d) = ring (rebuild (node_to_ip d) vn (empty_ring 0))"

lemma member_table_nodes: "member_node d n \<longleftrightarrow> n \<in> fst ` set (node_to_ip d)"
  by (simp add: member_node_def map_of_eq_None_iff)

lemma buddy_of_pair:
  assumes "\<not> vn \<le>s 0" "m \<in> fst ` set nodes" "m \<noteq> getPrimaryNode (rebuild nodes vn r) k"
  shows "getBuddyNode (rebuild nodes vn r) k \<in> fst ` set nodes"
    and "getBuddyNode (rebuild nodes vn r) k \<noteq> getPrimaryNode (rebuild nodes vn r) k"
proof -
  let ?p = "getPrimaryNode (rebuild nodes vn r) k"
  have "m \<in> fst ` set (AList.delete ?p nodes)" using assms(2,3) by (simp only: fst_delete) simp
  then have "AList.delete ?p nodes \<noteq> []" by force
  from primary_in_nodes [OF assms(1) this, of r k] buddy_is_next_primary [OF assms]
  have "getBuddyNode (rebuild nodes vn r) k \<in> fst ` set (AList.delete ?p nodes)" by simp
  then show "getBuddyNode (rebuild nodes vn r) k \<in> fst ` set nodes" "getBuddyNode (rebuild nodes vn r) k \<noteq> ?p"
    by (simp_all only: fst_delete) auto
qed

lemma buddy_in_nodes:
  assumes "\<not> vn \<le>s 0" "nodes \<noteq> []"
  shows "getBuddyNode (rebuild nodes vn r) k \<in> fst ` set nodes"
proof (cases "\<exists>m \<in> fst ` set nodes. m \<noteq> getPrimaryNode (rebuild nodes vn r) k")
  case True
  then show ?thesis using buddy_of_pair(1) [OF assms(1)] by blast
next
  case False
  let ?w = "clockwise (ring (rebuild nodes vn r)) (hashKey k)"
  have "\<forall>t \<in> set ?w. tok_node_id t = getPrimaryNode (rebuild nodes vn r) k"
    using False ring_nodes [OF assms(1), of nodes r] by auto
  moreover have "hd ?w \<in> set ?w" using assms by (simp add: hd_clockwise_in ring_empty_iff)
  ultimately have "getBuddyNode (rebuild nodes vn r) k = getPrimaryNode (rebuild nodes vn r) k"
    using assms by (simp add: buddy_rebuild first_other_same)
  then show ?thesis using primary_in_nodes [OF assms] by simp
qed

lemma ring_current_lookups:
  assumes "ring_current vn d"
  shows "primary_of d k = getPrimaryNode (rebuild (node_to_ip d) vn r) k"
    and "buddy_of d k = getBuddyNode (rebuild (node_to_ip d) vn r) k"
proof -
  have "ring (hash_ring d) = ring (rebuild (node_to_ip d) vn r)"
    using assms by (simp add: ring_current_def ring_rebuild)
  from lookup_ring_only [OF this, of k] show "primary_of d k = getPrimaryNode (rebuild (node_to_ip d) vn r) k"
    "buddy_of d k = getBuddyNode (rebuild (node_to_ip d) vn r) k" by simp_all
qed

lemma ring_current_routes: "ring_current vn d \<Longrightarrow> routes_to_members d"
  unfolding routes_to_members_def member_table_nodes
  using ring_current_lookups primary_in_nodes buddy_in_nodes by (metis ring_current_def)

lemma ring_current_rebuildRing: "nodes \<noteq> [] \<Longrightarrow> \<not> vn \<le>s 0 \<Longrightarrow> ring_current vn (rebuildRing nodes vn d)"
  by (simp add: ring_current_def rebuildRing_def ring_rebuild)

lemma buddy_distinct:
  "ring_current vn d \<Longrightarrow> member_node d m \<Longrightarrow> m \<noteq> primary_of d k \<Longrightarrow> buddy_of d k \<noteq> primary_of d k"
  using buddy_of_pair(2) ring_current_lookups unfolding member_table_nodes ring_current_def by metis

text \<open>The distributor after node \<open>x\<close> has left, and after node \<open>n\<close> has joined at endpoint \<open>ep\<close>.\<close>

definition without_node :: "node_id \<Rightarrow> cint \<Rightarrow> kv_distributor \<Rightarrow> kv_distributor" where
  "without_node x vn d = rebuildRing (AList.delete x (node_to_ip d)) vn d"

definition with_node :: "node_id \<Rightarrow> endpoint \<Rightarrow> cint \<Rightarrow> kv_distributor \<Rightarrow> kv_distributor" where
  "with_node n ep vn d = rebuildRing (AList.update n ep (node_to_ip d)) vn d"

lemma without_node_simps [simp]:
  "node_to_ip (without_node x vn d) = AList.delete x (node_to_ip d)"
  "local_node_id (without_node x vn d) = local_node_id d"
  by (simp_all add: without_node_def rebuildRing_def)

lemma member_without [simp]: "member_node (without_node x vn d) n \<longleftrightarrow> member_node d n \<and> n \<noteq> x"
  by (simp add: member_node_def map_simps)

lemma address_without: "n \<noteq> x \<Longrightarrow> node_address P (without_node x vn d) n = node_address P d n"
  by (simp add: node_address_def getNodeToIP_def map_simps)

lemma holds_without: "n \<noteq> x \<Longrightarrow> holds P (without_node x vn d) w n k = holds P d w n k"
  by (simp add: holds_def address_without split: option.split)

lemma answers_without: "n \<noteq> x \<Longrightarrow> answers F P (without_node x vn d) n = answers F P d n"
  by (simp add: answers_def address_without)

lemma serving_without: "serving P c a d w \<Longrightarrow> serving P c a (without_node x vn d) w"
  by (auto simp: serving_def address_without)

lemma ring_current_without:
  "ring_current vn d \<Longrightarrow> member_node d m \<Longrightarrow> m \<noteq> x \<Longrightarrow> ring_current vn (without_node x vn d)"
proof -
  assume r: "ring_current vn d" and m: "member_node d m" "m \<noteq> x"
  then have "m \<in> fst ` set (AList.delete x (node_to_ip d))" by (simp only: member_table_nodes fst_delete) simp
  then have "AList.delete x (node_to_ip d) \<noteq> []" by force
  moreover have "\<not> vn \<le>s 0" using r by (simp add: ring_current_def)
  ultimately show ?thesis unfolding without_node_def by (rule ring_current_rebuildRing)
qed

lemma primary_without:
  assumes "ring_current vn d" "member_node d m" "m \<noteq> x"
  shows "primary_of (without_node x vn d) k = (if primary_of d k = x then buddy_of d k else primary_of d k)"
proof -
  let ?r = "hash_ring d"
  have vn: "\<not> vn \<le>s 0" and ne: "node_to_ip d \<noteq> []" using assms(1) by (auto simp: ring_current_def)
  have w: "primary_of (without_node x vn d) k = getPrimaryNode (rebuild (AList.delete x (node_to_ip d)) vn ?r) k"
    by (simp add: without_node_def rebuildRing_def)
  note l = ring_current_lookups [OF assms(1), of k ?r]
  show ?thesis
  proof (cases "primary_of d k = x")
    case True
    then show ?thesis
      using primary_after_crash [OF vn, of m "node_to_ip d" ?r k ?r] assms(2,3) l w by (simp add: member_table_nodes)
  next
    case False
    then show ?thesis using primary_after_departure [OF vn ne, of ?r k x ?r] l w by simp
  qed
qed

subsection \<open>Two copies survive any one failure\<close>

lemma member_primary: "ring_current vn d \<Longrightarrow> member_node d (primary_of d k)"
  and member_buddy: "ring_current vn d \<Longrightarrow> member_node d (buddy_of d k)"
  using ring_current_routes by (simp_all add: routes_to_members_def)

lemma get_value:
  "ring_current vn d \<Longrightarrow> fst (get A k d w) = fst (route_get (node_read A d) (node_write A d) (primary_of d k) (buddy_of d k) k w)"
  "ring_current vn d \<Longrightarrow> fst (snd (get A k d w)) = d"
  "ring_current vn d \<Longrightarrow> snd (snd (get A k d w)) = snd (route_get (node_read A d) (node_write A d) (primary_of d k) (buddy_of d k) k w)"
  by (simp_all add: get_routed ring_current_routes split_beta)

text \<open>The value is where the ring expects it, and reading it back works although \<open>x\<close> may fail.\<close>

lemma get_despite_failure:
  assumes "serving P c a d w" "ring_current vn d" "member_node d m" "m \<noteq> primary_of d k"
    and "\<forall>n. member_node d n \<and> n \<noteq> x \<longrightarrow> answers F P d n"
    and "visible (holds P d w (primary_of d k) k) = Some v" "visible (holds P d w (buddy_of d k) k) = Some v"
  shows "fst (get (access_of F P c a) k d w) = v"
  unfolding get_value [OF assms(2)]
  using assms member_primary [OF assms(2)] member_buddy [OF assms(2)] buddy_distinct [OF assms(2-4)]
  by (intro nodes.get_found) metis+

lemma get_after_departure:
  assumes "serving P c a d w" "ring_current vn d" "member_node d m" "m \<noteq> primary_of d k" "member_node d x"
    and "\<forall>n. member_node d n \<and> n \<noteq> x \<longrightarrow> answers F P d n"
    and "visible (holds P d w (primary_of d k) k) = Some v" "visible (holds P d w (buddy_of d k) k) = Some v"
  shows "fst (get (access_of F P c a) k (without_node x vn d) w) = v"
proof -
  let ?d = "without_node x vn d"
  obtain q where q: "member_node d q" "q \<noteq> x"
    using assms(3,4) member_primary [OF assms(2), of k] by metis
  have r: "ring_current vn ?d" by (rule ring_current_without [OF assms(2) q])
  note p = primary_without [OF assms(2) q, of k]
  have pm: "member_node d (primary_of ?d k)" "primary_of ?d k \<noteq> x"
    using member_primary [OF r, of k] by simp_all
  have "visible (holds P ?d w (primary_of ?d k) k) = Some v"
    using pm(2) assms(7,8) p by (auto simp: holds_without split: if_splits)
  moreover have "answers F P ?d (primary_of ?d k)" using pm assms(6) by (simp add: answers_without)
  ultimately show ?thesis
    unfolding get_value [OF r]
    using nodes.get_found [OF serving_without [OF assms(1)] member_primary [OF r] member_buddy [OF r]] by blast
qed

lemma visible_value: "visible (Some v) = (if isMissOrError v then None else Some v)"
  by (simp add: visible_def)

lemma inserted_everywhere:
  assumes "serving P c a d w" "ring_current vn d" "\<forall>n. member_node d n \<longrightarrow> answers F P d n"
    and "accepts (node_boost F) v" "holds P d w (primary_of d k) k = None" "holds P d w (buddy_of d k) k = None"
    and "insert_key (access_of F P c a) k v d w = (d1, w1)"
  shows "d1 = d" "serving P c a d w1" "holds P d w1 (primary_of d k) k = Some (c_str v)"
    "holds P d w1 (buddy_of d k) k = Some (c_str v)"
    "member_node d m \<Longrightarrow> m \<noteq> primary_of d k \<and> m \<noteq> buddy_of d k \<or> k' \<noteq> k \<Longrightarrow> holds P d w1 m k' = holds P d w m k'"
proof -
  have w1: "d1 = d" "w1 = route_write (node_write (access_of F P c a) d) INSERT (primary_of d k) (buddy_of d k) k v w"
    using assms(7) unfolding insert_key_def write_routed [OF ring_current_routes [OF assms(2)]]
    by (metis Pair_inject)+
  note mem = member_primary [OF assms(2), of k] member_buddy [OF assms(2), of k]
  show "d1 = d" by (rule w1)
  show "serving P c a d w1" unfolding w1(2) by (rule nodes.write_inv [OF assms(1) mem])
  show "holds P d w1 (primary_of d k) k = Some (c_str v)" "holds P d w1 (buddy_of d k) k = Some (c_str v)"
    unfolding w1(2) using nodes.write_both_hold [OF assms(1) mem assms(4)] assms(3,5,6) mem by simp_all
  show "holds P d w1 m k' = holds P d w m k'" if "member_node d m" "m \<noteq> primary_of d k \<and> m \<noteq> buddy_of d k \<or> k' \<noteq> k"
    unfolding w1(2) by (rule nodes.write_frame [OF assms(1) mem that])
qed

text \<open>
  Claim C1: a stored value survives the failure of any one node. In a cluster of at least two
  nodes, all reachable while the key is inserted, a read returns the value although one node \<open>x\<close>,
  the primary or the buddy included, then loses any of its calls; and it still does after the ring
  has been rebuilt without \<open>x\<close>. With \<open>x\<close> not among the two this is plain put and get.
\<close>

theorem insert_survives_any_failure:
  assumes "serving P c a d w" "ring_current vn d" "member_node d m" "m \<noteq> primary_of d k"
    and "\<forall>n. member_node d n \<longrightarrow> answers F P d n" "accepts (node_boost F) v" "\<not> isMissOrError (c_str v)"
    and "holds P d w (primary_of d k) k = None" "holds P d w (buddy_of d k) k = None"
    and "insert_key (access_of F P c a) k v d w = (d1, w1)"
    and "member_node d x" "\<forall>n. member_node d n \<and> n \<noteq> x \<longrightarrow> answers F2 P d n"
  shows "fst (get (access_of F2 P c a) k d1 w1) = c_str v
       \<and> fst (get (access_of F2 P c a) k (without_node x vn d1) w1) = c_str v"
proof -
  note i = inserted_everywhere [OF assms(1,2,5,6,8,9,10)]
  have "visible (holds P d w1 (primary_of d k) k) = Some (c_str v)" "visible (holds P d w1 (buddy_of d k) k) = Some (c_str v)"
    using i(3,4) assms(7) by (simp_all add: visible_value)
  then show ?thesis
    using get_despite_failure [OF i(2) assms(2-4,12)] get_after_departure [OF i(2) assms(2-4,11,12)] i(1) by simp
qed

abbreviation demo_access :: "address list \<Rightarrow> cluster access" where
  "demo_access lost \<equiv> access_of (demo_fabric lost) ''p'' demo_server ''q''"

lemma demo_ring: "nodes \<noteq> [] \<Longrightarrow> ring_current 2 (demo_client nodes)"
  unfolding demo_client_def by (rule ring_current_rebuildRing) (simp_all add: word_sle_eq)

theorem insert_survives_any_failure_witness:
  "case insert_key (demo_access []) 5 ''v'' demo3 (world3 [] [] []) of (d1, w1) \<Rightarrow>
     fst (get (demo_access [''p://c'']) 5 d1 w1) = ''v'' \<and> fst (get (demo_access [''p://c'']) 5 (without_node 2 2 d1) w1) = ''v''"
proof -
  obtain d1 w1 where i: "insert_key (demo_access []) 5 ''v'' demo3 (world3 [] [] []) = (d1, w1)" by (metis surj_pair)
  have "serving ''p'' demo_server ''q'' demo3 (world3 [] [] [])" by (simp add: demo3_serving)
  from insert_survives_any_failure [OF this demo_ring, of 0 5 "demo_fabric []" "''v''", OF _ _ _ demo3_answers _ _ _ _ i _ demo3_answers_but]
  show ?thesis using i
    by (simp add: demo3_member demo3_routes demo3_holds accepts_roomy isMissOrError_def starts_with_def c_str_def)
qed

subsection \<open>Update, delete, join\<close>

lemma get_no_copy:
  assumes "serving P c a d w" "ring_current vn d"
    and "visible (holds P d w (primary_of d k) k) = None" "visible (holds P d w (buddy_of d k) k) = None"
  shows "fst (get (access_of F P c a) k d w) = ''RPC Failed''"
    and "member_node d m \<Longrightarrow> holds P d (snd (snd (get (access_of F P c a) k d w))) m k' = holds P d w m k'"
  unfolding get_value [OF assms(2)]
  using nodes.get_missing [OF assms(1) member_primary [OF assms(2)] member_buddy [OF assms(2)] assms(3,4)] by blast+

text \<open>
  With all nodes reachable, a read after an update of a key that both nodes hold returns
  the new value, and a read after a deletion reports failure; neither touches another key. The new
  value, like an inserted one, survives any one node, as both copies have it.
\<close>

theorem update_delete_then_get:
  assumes "serving P c a d w" "ring_current vn d" "\<forall>n. member_node d n \<longrightarrow> answers F P d n"
    and "holds P d w (primary_of d k) k \<noteq> None" "holds P d w (buddy_of d k) k \<noteq> None"
    and "accepts (node_boost F) v" "\<not> isMissOrError (c_str v)"
    and "update_key (access_of F P c a) k v d w = (d1, w1)" "deleteKey (access_of F P c a) k d w = (d2, w2)"
  shows "fst (get (access_of F P c a) k d1 w1) = c_str v
       \<and> holds P d w1 (primary_of d k) k = Some (c_str v) \<and> holds P d w1 (buddy_of d k) k = Some (c_str v)
       \<and> fst (get (access_of F P c a) k d2 w2) = ''RPC Failed''
       \<and> (\<forall>n k'. member_node d n \<and> k' \<noteq> k \<longrightarrow> holds P d w1 n k' = holds P d w n k' \<and> holds P d w2 n k' = holds P d w n k')"
proof -
  note mem = member_primary [OF assms(2), of k] member_buddy [OF assms(2), of k]
  have w1: "d1 = d" "w1 = route_write (node_write (access_of F P c a) d) UPDATE (primary_of d k) (buddy_of d k) k v w"
    using assms(8) unfolding update_key_def write_routed [OF ring_current_routes [OF assms(2)]] by (metis Pair_inject)+
  have w2: "d2 = d" "w2 = route_delete (node_delete (access_of F P c a) d) (primary_of d k) (buddy_of d k) k w"
    using assms(9) unfolding delete_routed [OF ring_current_routes [OF assms(2)]] by (metis Pair_inject)+
  have s: "serving P c a d w1" "serving P c a d w2"
    unfolding w1(2) w2(2) by (rule nodes.write_inv [OF assms(1) mem], rule nodes.delete_inv [OF assms(1) mem])
  have h1: "holds P d w1 (primary_of d k) k = Some (c_str v)" "holds P d w1 (buddy_of d k) k = Some (c_str v)"
    unfolding w1(2) using nodes.write_both_hold [OF assms(1) mem assms(6), where op = UPDATE] assms(3-5) mem by simp_all
  have h2: "holds P d w2 (primary_of d k) k = None" "holds P d w2 (buddy_of d k) k = None"
    unfolding w2(2) using nodes.delete_gone [OF assms(1) mem, where F = F] assms(3) mem by simp_all
  have "fst (get (access_of F P c a) k d w1) = c_str v"
    unfolding get_value [OF assms(2)]
    using nodes.get_found [OF s(1) mem, where F = F and k = k and v = "c_str v"] h1 assms(3,7) mem by (simp add: visible_value)
  moreover have "fst (get (access_of F P c a) k d w2) = ''RPC Failed''"
    using get_no_copy(1) [OF s(2) assms(2)] h2 by (simp add: visible_def)
  moreover have "holds P d w1 n k' = holds P d w n k'" "holds P d w2 n k' = holds P d w n k'"
    if "member_node d n" "k' \<noteq> k" for n k'
    unfolding w1(2) w2(2)
    using that nodes.write_frame [OF assms(1) mem that(1), where F = F and op = UPDATE and k = k and k' = k' and v = v] nodes.delete_gone(3) [OF assms(1) mem, where F = F and k = k and k' = k' and m = n] assms(3) mem
    by simp_all
  ultimately show ?thesis using w1(1) w2(1) h1 by simp
qed

theorem update_delete_then_get_witness:
  "case update_key (demo_access []) 5 ''v'' demo3 (world3 [] [(5, ''u'')] [(5, ''u'')]) of (d1, w1) \<Rightarrow>
   case deleteKey (demo_access []) 5 demo3 (world3 [] [(5, ''u'')] [(5, ''u'')]) of (d2, w2) \<Rightarrow>
     fst (get (demo_access []) 5 d1 w1) = ''v'' \<and> fst (get (demo_access []) 5 d2 w2) = ''RPC Failed''"
proof -
  let ?w = "world3 [] [(5, ''u'')] [(5, ''u'')]"
  obtain d1 w1 where u: "update_key (demo_access []) 5 ''v'' demo3 ?w = (d1, w1)" by (metis surj_pair)
  obtain d2 w2 where r: "deleteKey (demo_access []) 5 demo3 ?w = (d2, w2)" by (metis surj_pair)
  have "serving ''p'' demo_server ''q'' demo3 ?w" by (simp add: demo3_serving wf_map_def)
  from update_delete_then_get [OF this demo_ring demo3_answers _ _ _ _ u r]
  show ?thesis using u r
    by (simp add: demo3_routes demo3_holds accepts_roomy isMissOrError_def starts_with_def c_str_def)
qed

lemma with_node_simps [simp]:
  "node_to_ip (with_node n ep vn d) = AList.update n ep (node_to_ip d)"
  "local_node_id (with_node n ep vn d) = local_node_id d"
  by (simp_all add: with_node_def rebuildRing_def)

lemma member_with [simp]: "member_node (with_node n ep vn d) m \<longleftrightarrow> member_node d m \<or> m = n"
  by (auto simp: member_node_def map_simps)

lemma address_with: "m \<noteq> n \<Longrightarrow> node_address P (with_node n ep vn d) m = node_address P d m"
  by (simp add: node_address_def getNodeToIP_def map_simps)

lemma holds_with: "m \<noteq> n \<Longrightarrow> holds P (with_node n ep vn d) w m k = holds P d w m k"
  by (simp add: holds_def address_with split: option.split)

lemma ring_current_with: "ring_current vn d \<Longrightarrow> ring_current vn (with_node n ep vn d)"
proof -
  assume r: "ring_current vn d"
  have "AList.update n ep (node_to_ip d) \<noteq> []" by (cases "node_to_ip d") auto
  moreover have "\<not> vn \<le>s 0" using r by (simp add: ring_current_def)
  ultimately show ?thesis unfolding with_node_def by (rule ring_current_rebuildRing)
qed

lemma primary_with:
  assumes "ring_current vn d" "\<not> member_node d n"
  shows "primary_of (with_node n ep vn d) k = primary_of d k \<or> primary_of (with_node n ep vn d) k = n"
    and "primary_of (with_node n ep vn d) k = n \<Longrightarrow> buddy_of (with_node n ep vn d) k = primary_of d k"
proof -
  let ?r = "hash_ring d"
  have vn: "\<not> vn \<le>s 0" and ne: "node_to_ip d \<noteq> []" using assms(1) by (auto simp: ring_current_def)
  have e: "hash_ring (with_node n ep vn d) = rebuild (AList.update n ep (node_to_ip d)) vn ?r"
    by (simp add: with_node_def rebuildRing_def)
  note l = ring_current_lookups [OF assms(1), of k ?r]
  show "primary_of (with_node n ep vn d) k = primary_of d k \<or> primary_of (with_node n ep vn d) k = n"
    using primary_after_join [OF vn ne, of n ep ?r k ?r] unfolding e l by auto
  show "primary_of (with_node n ep vn d) k = n \<Longrightarrow> buddy_of (with_node n ep vn d) k = primary_of d k"
    using buddy_after_join [OF vn ne, of n ep ?r k ?r] assms(2) unfolding e l by (simp add: member_table_nodes)
qed

text \<open>
  Claim C3: a join loses nothing and migrates lazily. When node \<open>n\<close> joins empty and the ring is
  rebuilt, a read returns the value the primary had; if \<open>n\<close> has taken over the key, that read has
  copied the value to \<open>n\<close>, so the next one is served by \<open>n\<close>, with no other copy changed.
\<close>

theorem join_migrates_lazily:
  assumes "ring_current vn d" "\<not> member_node d n" "d' = with_node n ep vn d" "serving P c a d' w"
    and "\<forall>m. member_node d' m \<longrightarrow> answers F P d' m"
    and "holds P d' w n k = None" "holds P d w (primary_of d k) k = Some v" "\<not> isMissOrError v" "accepts (node_boost F) v"
  shows "fst (get (access_of F P c a) k d' w) = v
       \<and> (primary_of d' k = n \<longrightarrow>
            holds P d' (snd (snd (get (access_of F P c a) k d' w))) n k = Some (c_str v)
            \<and> (\<forall>m k'. member_node d' m \<and> (m \<noteq> n \<or> k' \<noteq> k) \<longrightarrow>
                 holds P d' (snd (snd (get (access_of F P c a) k d' w))) m k' = holds P d' w m k'))"
proof -
  have r: "ring_current vn d'" unfolding assms(3) by (rule ring_current_with [OF assms(1)])
  note mem = member_primary [OF r, of k] member_buddy [OF r, of k]
  note p = primary_with [OF assms(1,2), of ep k, folded assms(3)]
  have pn: "primary_of d k \<noteq> n" using member_primary [OF assms(1), of k] assms(2) by auto
  then have hp: "holds P d' w (primary_of d k) k = Some v" using assms(3,7) by (simp add: holds_with)
  show ?thesis
  proof (cases "primary_of d' k = n")
    case True
    then have b: "buddy_of d' k = primary_of d k" by (rule p(2))
    have hb: "visible (holds P d' w (buddy_of d' k) k) = Some v" using hp b assms(8) by (simp add: visible_value)
    have hn: "holds P d' w (primary_of d' k) k = None" using assms(6) True by simp
    have bp: "buddy_of d' k \<noteq> primary_of d' k" using b pn True by simp
    have a: "answers F P d' (primary_of d' k)" "answers F P d' (buddy_of d' k)" using assms(5) mem by auto
    have "fst (get (access_of F P c a) k d' w) = v"
      unfolding get_value [OF r]
      using nodes.get_found [OF assms(4) mem, where F = F and k = k and v = v] hn hb bp a(2) by (simp add: visible_def)
    with nodes.get_migrates [OF assms(4) mem bp a assms(9) hn hb] True show ?thesis
      unfolding get_value [OF r] by auto
  next
    case False
    then have e: "primary_of d' k = primary_of d k" using p(1) by simp
    have "fst (get (access_of F P c a) k d' w) = v"
      unfolding get_value [OF r]
      using nodes.get_found [OF assms(4) mem, where F = F and k = k and v = v] e hp assms(5,8) mem by (simp add: visible_value)
    with False show ?thesis by simp
  qed
qed

text \<open>The cluster of nodes 0 and 1, joined by node 2, which takes over key 5.\<close>

abbreviation demo2 :: kv_distributor where
  "demo2 \<equiv> demo_client [(0, ''a''), (1, ''b'')]"

lemma demo2_join: "with_node 2 ''c'' 2 demo2 = demo3"
  by (simp add: with_node_def demo_client_def rebuildRing_def rebuild_def empty_ring_def Let_def)

lemma demo2_facts: "primary_of demo2 5 = 1" "buddy_of demo2 5 = 0"
  by code_simp+

lemma demo2_member: "member_node demo2 n \<longleftrightarrow> n = 0 \<or> n = 1"
  by (simp add: member_node_def)

lemma demo2_holds: "n = 0 \<or> n = 1 \<Longrightarrow> holds P demo2 w n k = holds P demo3 w n k"
  by (auto simp: holds_def node_address_def getNodeToIP_def split: option.split)

theorem join_migrates_lazily_witness:
  "fst (get (demo_access []) 5 demo3 (world3 [(5, ''v'')] [(5, ''v'')] [])) = ''v''
   \<and> holds ''p'' demo3 (snd (snd (get (demo_access []) 5 demo3 (world3 [(5, ''v'')] [(5, ''v'')] [])))) 2 5 = Some ''v''"
proof -
  let ?w = "world3 [(5, ''v'')] [(5, ''v'')] []"
  have s: "serving ''p'' demo_server ''q'' demo3 ?w" by (simp add: demo3_serving wf_map_def)
  from join_migrates_lazily [OF demo_ring _ demo2_join [symmetric] s demo3_answers, of 5 "''v''"]
  show ?thesis
    by (simp add: demo2_member demo2_facts demo2_holds demo3_routes demo3_holds accepts_roomy isMissOrError_def starts_with_def
        c_str_def)
qed

end
