(* ===== verification/DistributorState.thy ===== *)
theory DistributorState
  imports DistributorClaims GossipLife
begin

text \<open>
  The state of the distributor: its invariant, that construction establishes it and every operation
  keeps it, and what a membership refresh makes of the table of a server.
\<close>

subsection \<open>The invariant\<close>

definition distributor_ok :: "kv_distributor \<Rightarrow> bool" where
  "distributor_ok d \<longleftrightarrow> wf_map (node_to_ip d) \<and> count_of_node d = of_nat (length (node_to_ip d))
     \<and> (if node_to_ip d = [] then ring (hash_ring d) = [] else ring_current default_virtual_nodes d)"

lemma distributor_okI:
  "wf_map (node_to_ip d) \<Longrightarrow> count_of_node d = of_nat (length (node_to_ip d)) \<Longrightarrow>
   ring (hash_ring d) = ring (rebuild (node_to_ip d) default_virtual_nodes r) \<Longrightarrow> distributor_ok d"
  by (auto simp: distributor_ok_def ring_current_def ring_rebuild default_virtual_nodes_def word_sle_eq)

lemma distributor_ok_ring: "distributor_ok d \<Longrightarrow> node_to_ip d \<noteq> [] \<Longrightarrow> ring_current default_virtual_nodes d"
  by (simp add: distributor_ok_def)

lemma wf_read_endpoints: "read_endpoints get_ep i n nodes = Inr nodes' \<Longrightarrow> wf_map nodes \<Longrightarrow> wf_map nodes'"
  by (induction get_ep i n nodes rule: read_endpoints.induct) (auto simp: and_then_Inr_iff)

lemma foldl_live_wf:
  "wf_map live \<Longrightarrow> wf_map (foldl (\<lambda>live m. if mr_status m \<noteq> ALIVE then live
      else AList.update (mr_node_id m) (member_endpoint (mr_endpoint m)) live) live ms)"
  by (induction ms arbitrary: live) simp_all

lemma wf_live_members [simp]: "wf_map (live_members ms)"
  by (simp add: live_members_def foldl_live_wf)

text \<open>With no node, the lookups give the id \<open>- 1\<close>, which the operations skip.\<close>

lemma no_node:
  assumes "distributor_ok d" "node_to_ip d = []"
  shows "primary_of d k = - 1" "buddy_of d k = - 1"
  using assms by (simp_all add: distributor_ok_def getPrimaryNode_def getBuddyNode_def)

lemma minus_one_negative: "(- 1 :: node_id) <s 0"
  by (simp add: word_sless_alt)

lemma operations_without_node:
  assumes "distributor_ok d" "node_to_ip d = []"
  shows "get A k d w = (''RPC Failed'', d, w)" "write_both A op k v d w = (d, w)" "deleteKey A k d w = (d, w)"
  using minus_one_negative
  by (simp_all add: get_def write_both_def deleteKey_def no_node [OF assms] readFromNode_def writeToNode_def
      deleteOnNode_def)

lemma operations_keep_state:
  assumes "distributor_ok d"
  shows "fst (snd (get A k d w)) = d" "fst (insert_key A k v d w) = d" "fst (update_key A k v d w) = d"
    "fst (deleteKey A k d w) = d"
proof -
  have "fst (snd (get A k d w)) = d \<and> fst (insert_key A k v d w) = d \<and> fst (update_key A k v d w) = d
      \<and> fst (deleteKey A k d w) = d"
  proof (cases "node_to_ip d = []")
    case True
    then show ?thesis by (simp add: operations_without_node [OF assms] insert_key_def update_key_def)
  next
    case False
    note r = distributor_ok_ring [OF assms False]
    show ?thesis
      by (simp add: get_value(2) [OF r] insert_key_def update_key_def write_routed [OF ring_current_routes [OF r]]
          delete_routed [OF ring_current_routes [OF r]])
  qed
  then show "fst (snd (get A k d w)) = d" "fst (insert_key A k v d w) = d" "fst (update_key A k v d w) = d"
    "fst (deleteKey A k d w) = d" by simp_all
qed

lemma take_over_keeps: "distributor_ok d \<Longrightarrow> wf_map live \<Longrightarrow> distributor_ok (take_over live d)"
  by (auto simp: take_over_def intro!: distributor_okI)

lemma refresh_keeps:
  assumes "distributor_ok d"
  shows "distributor_ok (fst (snd (fetchMembershipFromServer A ep d w)))"
  using assms take_over_keeps by (auto simp: fetchMembershipFromServer_def Let_def split: prod.split sum.split)

lemma new_distributor_ok: "new_distributor L config = Inr d \<Longrightarrow> distributor_ok d"
  by (auto simp: new_distributor_def and_then_Inr_iff dest: wf_read_endpoints intro!: distributor_okI)

text \<open>
  Claim C5: the state of the distributor is well formed whatever happens: construction from a
  configuration, every membership refresh and every operation, whatever the client returns, keep the
  node table free of duplicates, its count exact and the ring the one of the table. With such a
  state every key is routed to nodes of the table, and the operations never add an entry to it.
\<close>

theorem distributor_well_formed:
  "(\<forall>d. new_distributor L config = Inr d \<longrightarrow> distributor_ok d)
   \<and> (\<forall>d nodes. wf_map nodes \<longrightarrow> distributor_ok (rebuildRing nodes default_virtual_nodes d))
   \<and> (\<forall>d. distributor_ok d \<longrightarrow>
        distributor_ok (fst (snd (fetchMembershipFromServer A ep d w)))
        \<and> fst (snd (get A k d w)) = d \<and> fst (insert_key A k v d w) = d \<and> fst (update_key A k v d w) = d
        \<and> fst (deleteKey A k d w) = d
        \<and> (node_to_ip d \<noteq> [] \<longrightarrow> member_node d (primary_of d k) \<and> member_node d (buddy_of d k)))"
proof (intro conjI allI impI)
  show "distributor_ok d" if "new_distributor L config = Inr d" for d
    using that by (rule new_distributor_ok)
  show "distributor_ok (rebuildRing nodes default_virtual_nodes d)" if "wf_map nodes" for d nodes
    using that by (auto simp: rebuildRing_def intro!: distributor_okI)
next
  fix d
  assume ok: "distributor_ok d"
  show "distributor_ok (fst (snd (fetchMembershipFromServer A ep d w)))"
    by (rule refresh_keeps [OF ok])
  show "fst (snd (get A k d w)) = d" "fst (insert_key A k v d w) = d" "fst (update_key A k v d w) = d"
    "fst (deleteKey A k d w) = d"
    by (rule operations_keep_state [OF ok])+
  show "member_node d (primary_of d k)" "member_node d (buddy_of d k)" if "node_to_ip d \<noteq> []"
    using member_primary member_buddy distributor_ok_ring [OF ok that] by blast+
qed

lemma demo_ok: "wf_map nodes \<Longrightarrow> distributor_ok (demo_client nodes)"
  by (auto simp: demo_client_def rebuildRing_def default_virtual_nodes_def intro!: distributor_okI)

theorem distributor_well_formed_witness:
  "distributor_ok (fst (snd (fetchMembershipFromServer (demo_access []) ''a'' demo3 (world3 [] [] []))))
   \<and> member_node demo3 (primary_of demo3 7)"
proof -
  have ok: "distributor_ok demo3" by (rule demo_ok) (simp add: wf_map_def)
  show ?thesis
    using distributor_well_formed [where A = "demo_access []" and ep = "''a''" and w = "world3 [] [] []" and k = 7,
        THEN conjunct2, THEN conjunct2, THEN spec, THEN mp, OF ok]
    by simp
qed

subsection \<open>Membership refresh\<close>

lemma lookup_foldl_live:
  assumes "distinct (map mr_node_id ms)"
  shows "lookup (foldl (\<lambda>live m. if mr_status m \<noteq> ALIVE then live
      else AList.update (mr_node_id m) (member_endpoint (mr_endpoint m)) live) live ms) n =
    (case find (\<lambda>m. mr_node_id m = n \<and> mr_status m = ALIVE) ms of
       None \<Rightarrow> lookup live n
     | Some m \<Rightarrow> Some (member_endpoint (mr_endpoint m)))"
  using assms
proof (induction ms arbitrary: live)
  case (Cons m ms)
  have "find (\<lambda>x. mr_node_id x = n \<and> mr_status x = ALIVE) ms = None" if "mr_node_id m = n"
    using Cons.prems that by (auto simp: find_None_iff image_iff)
  with Cons show ?case by (auto simp: map_simps split: option.split)
qed simp

lemma find_view:
  "find (\<lambda>m. mr_node_id m = n \<and> mr_status m = ALIVE) (map (entry_record \<circ> snd) t) =
     map_option (entry_record \<circ> snd) (find (\<lambda>p. mr_node_id (entry_record (snd p)) = n \<and> mr_status (entry_record (snd p)) = ALIVE) t)"
  by (induction t) simp_all

lemma view_ids: "keyed (member_table g) \<Longrightarrow> map mr_node_id (getMemberView g) = map fst (member_table g)"
  by (auto simp: getMemberView_def keyed_def wf_map_def)

lemma live_members_view:
  assumes "keyed (member_table g)"
  shows "lookup (live_members (getMemberView g)) n = map_option member_endpoint (live_map (member_table g) n)"
proof -
  have d: "distinct (map mr_node_id (getMemberView g))"
    using assms by (simp only: view_ids) (simp add: keyed_def wf_map_def)
  have id: "lookup (member_table g) (mr_node_id r) = Some e \<Longrightarrow> mr_node_id (entry_record e) = mr_node_id r" for r e
    using assms keyed_lookup by blast
  show ?thesis
  proof (cases "find (\<lambda>m. mr_node_id m = n \<and> mr_status m = ALIVE) (getMemberView g)")
    case (Some r)
    then have r: "r \<in> set (getMemberView g)" "mr_node_id r = n" "mr_status r = ALIVE" by (auto dest: find_Some_in)
    from view_records [OF assms r(1)] r Some show ?thesis
      by (auto simp: live_members_def lookup_foldl_live [OF d] live_map_def)
  next
    case None
    have "live_map (member_table g) n = None"
    proof (rule ccontr)
      assume "live_map (member_table g) n \<noteq> None"
      then obtain e where e: "lookup (member_table g) n = Some e" "mr_status (entry_record e) = ALIVE"
        by (auto simp: live_map_def split: option.splits if_splits)
      then have "entry_record e \<in> set (getMemberView g)" "mr_node_id (entry_record e) = n"
        using keyed_lookup [OF assms] by (force simp: getMemberView_def dest: map_of_SomeD)+
      with None e show False by (auto simp: find_None_iff)
    qed
    with None show ?thesis by (simp add: live_members_def lookup_foldl_live [OF d])
  qed
qed

lemma same_nodes_lookup:
  assumes "wf_map m" "wf_map m'" "same_nodes m m'"
  shows "lookup m' = lookup m"
proof
  fix n
  have sub: "\<And>i x. lookup m i = Some x \<Longrightarrow> lookup m' i = Some x"
    using assms(3) by (auto simp: same_nodes_def list_all_iff dest: map_of_SomeD)
  then have "dom (lookup m) \<subseteq> dom (lookup m')" by blast
  moreover have "card (dom (lookup m)) = length m" "card (dom (lookup m')) = length m'"
    using assms(1,2) distinct_card [of "map fst m"] distinct_card [of "map fst m'"]
    by (simp_all add: dom_map_of_conv_image_fst wf_map_def)
  ultimately have "dom (lookup m) = dom (lookup m')"
    using assms(3) by (intro card_subset_eq) (simp_all add: same_nodes_def finite_dom_map_of)
  then have "lookup m n = None \<longleftrightarrow> lookup m' n = None" by (metis domIff)
  with sub [of n] show "lookup m' n = lookup m n" by (cases "lookup m n") auto
qed

text \<open>The refresh, in terms of what the client returns.\<close>

lemma refresh_cases:
  assumes "wf_map (node_to_ip d)" "fetchMembershipFromServer A ep d w = (r, d', w')"
  shows "(case client_membership (kv_client A) ep w of
      (Inl e, w1) \<Rightarrow> \<not> r \<and> d' = d \<and> w' = w1
    | (Inr ms, w1) \<Rightarrow>
        w' = w1 \<and> (if live_members ms = [] then \<not> r \<and> d' = d else r \<and> lookup (node_to_ip d') = lookup (live_members ms)))"
  using assms(2) same_nodes_lookup [OF wf_live_members assms(1)]
  by (auto simp: fetchMembershipFromServer_def take_over_def Let_def split: prod.splits sum.splits if_splits)

lemma live_map_empty:
  "keyed (member_table g) \<Longrightarrow> live_members (getMemberView g) = [] \<longleftrightarrow> live_map (member_table g) = Map.empty"
proof -
  assume "keyed (member_table g)"
  then have "lookup (live_members (getMemberView g)) = (\<lambda>n. map_option member_endpoint (live_map (member_table g) n))"
    by (simp add: live_members_view fun_eq_iff)
  then show ?thesis
    by (metis (no_types, lifting) map_of_eq_empty_iff fun_eq_iff option.map_disc_iff)
qed

text \<open>
  Claim C4: after a membership refresh that arrives the client follows the server it asked. When
  that server knows a live node, the client's node table has exactly the nodes the server holds
  alive, at their endpoints without the protocol, and every key is routed to live nodes only; when
  it knows none, or when the call is lost, the client keeps the state it had. Entries are untouched.
\<close>

theorem client_follows_server:
  assumes "distributor_ok d" "x = full_endpoint P ep" "server_kv w x = Some s" "memberships w x = Some g"
    and "keyed (member_table g)" "fetchMembershipFromServer (access_of F P c a) ep d w = (r, d', w')"
  shows "hosts w' = hosts w
       \<and> (if fate F (calls w) x = Delivered \<and> live_map (member_table g) \<noteq> Map.empty
          then r \<and> (\<forall>n. lookup (node_to_ip d') n = map_option member_endpoint (live_map (member_table g) n))
               \<and> (\<forall>k. live_map (member_table g) (primary_of d' k) \<noteq> None \<and> live_map (member_table g) (buddy_of d' k) \<noteq> None)
          else \<not> r \<and> d' = d)"
proof -
  let ?h = "\<lambda>s (\<sigma> :: os). (get_membership (memberships w x), \<sigma>)"
  have wf: "wf_map (node_to_ip d)" using assms(1) by (simp add: distributor_ok_def)
  note c = refresh_cases [OF wf assms(6)]
  have "snd (?h t \<sigma>) = \<sigma>" for t \<sigma> by simp
  note R = rpc_read [OF assms(3), of ?h, OF this, of F]
  have m: "client_membership (kv_client (access_of F P c a)) ep w =
      (case rpc F x ?h w of (Inl e, w1) \<Rightarrow> (Inr [], w1) | (Inr view, w1) \<Rightarrow> (Inr view, w1))"
    by (simp add: access_of_def KVClient_def KVClient_getMembership_def assms(2) Let_def)
  obtain res w1 where rw: "rpc F x ?h w = (res, w1)" by (metis surj_pair)
  with R(1) have h: "hosts w1 = hosts w" by auto
  show ?thesis
  proof (cases "fate F (calls w) x = Delivered")
    case True
    then have res: "res = Inr (getMemberView g)" using R(2) rw by (simp add: get_membership_def assms(4))
    show ?thesis
    proof (cases "live_map (member_table g) = Map.empty")
      case e: True
      then show ?thesis using c m rw res h by (simp add: live_map_empty [OF assms(5)])
    next
      case e: False
      then have u: "r" "w' = w1" "lookup (node_to_ip d') = lookup (live_members (getMemberView g))"
        using c m rw res by (simp_all add: live_map_empty [OF assms(5)])
      then have l: "\<forall>n. lookup (node_to_ip d') n = map_option member_endpoint (live_map (member_table g) n)"
        by (simp add: live_members_view [OF assms(5)])
      have ne: "node_to_ip d' \<noteq> []"
        using e l by (metis (no_types, lifting) map_of_eq_empty_iff fun_eq_iff option.map_disc_iff)
      have "distributor_ok d'" using refresh_keeps [OF assms(1), of "access_of F P c a" ep w] assms(6) by simp
      from distributor_ok_ring [OF this ne] have "member_node d' (primary_of d' k)" "member_node d' (buddy_of d' k)" for k
        by (auto intro: member_primary member_buddy)
      with l have "live_map (member_table g) (primary_of d' k) \<noteq> None \<and> live_map (member_table g) (buddy_of d' k) \<noteq> None" for k
        by (metis member_node_def option.map_disc_iff)
      with u l h e True show ?thesis by simp
    qed
  next
    case False
    then have "res = Inl (call_failed F x)" using rw assms(3) by (auto simp: rpc_def Let_def split_beta split: outcome.splits)
    with c m rw have "\<not> r \<and> d' = d \<and> w' = w1" by (simp add: live_members_def)
    with h False show ?thesis by simp
  qed
qed

theorem client_follows_server_witness:
  "case fetchMembershipFromServer (demo_access []) ''a'' demo3 ((world3 [] [] [])\<lparr>memberships := (\<lambda>x. Some (peer0 ALIVE))\<rparr>)
     of (r, d', w') \<Rightarrow> r \<and> lookup (node_to_ip d') 2 = None \<and> live_map (member_table (peer0 ALIVE)) (primary_of d' 5) \<noteq> None"
proof -
  let ?w = "(world3 [] [] [])\<lparr>memberships := (\<lambda>x. Some (peer0 ALIVE))\<rparr>"
  obtain r d' w' where f: "fetchMembershipFromServer (demo_access []) ''a'' demo3 ?w = (r, d', w')" by (metis surj_pair)
  have ok: "distributor_ok demo3" by (rule demo_ok) (simp add: wf_map_def)
  have s: "server_kv ?w (full_endpoint ''p'' ''a'') = Some demo_server"
    by (simp add: world3_def demo_world_def full_endpoint_def)
  have "live_map (member_table (peer0 ALIVE)) 1 \<noteq> None" by (simp add: live_map_def known_entry_def)
  then have ne: "live_map (member_table (peer0 ALIVE)) \<noteq> Map.empty" by metis
  have "live_map (member_table (peer0 ALIVE)) 2 = None"
    by (simp add: live_map_def) (simp add: peer0_def member0_def)
  moreover have "memberships ?w (full_endpoint ''p'' ''a'') = Some (peer0 ALIVE)"
    "fate (demo_fabric []) (calls ?w) (full_endpoint ''p'' ''a'') = Delivered" by simp_all
  ultimately show ?thesis
    using client_follows_server [OF ok refl s _ keyed_peer0 [of ALIVE] f] ne unfolding f by auto
qed

end
