(* ===== verification/ReplicaLimits.thy ===== *)
theory ReplicaLimits
  imports DistributorClaims
begin

text \<open>
  What the two copies do not give: nothing re-replicates after a departure, a deletion reaches only
  the present primary and buddy, a node that misses a write is repaired only when it has no value at
  all, and a client cannot tell some values from failures. Each limit is a theorem about the same
  operations as the guarantees, next to what does hold in that situation.
\<close>

subsection \<open>A write that does not arrive\<close>

definition unreachable :: "fabric \<Rightarrow> string \<Rightarrow> kv_distributor \<Rightarrow> node_id \<Rightarrow> bool" where
  "unreachable F P d n \<longleftrightarrow> n \<noteq> local_node_id d \<and> (\<forall>i. fate F i (node_address P d n) = RequestLost)"

lemma rpc_lost:
  "fate F (calls w) x = RequestLost \<Longrightarrow> \<exists>i. snd (rpc F x handler w) = w\<lparr>calls := i\<rparr>"
  by (auto simp: rpc_def Let_def split_beta split: option.split)

lemma write_unreachable:
  assumes "member_node d n" "\<not> n <s 0" "unreachable F P d n"
  shows "\<exists>i. node_write (access_of F P c a) d op n k v w = w\<lparr>calls := i\<rparr>"
  using assms rpc_lost [of F w "node_address P d n"]
  by (cases op) (auto simp: node_write_def writeToNode_def isLocalNode_def access_of_def KVClient_def KVClient_insert_def
      KVClient_update_def node_address_def unreachable_def)

lemma write_misses_primary:
  assumes "serving P c a d w" "ring_current vn d" "buddy_of d k \<noteq> primary_of d k" "unreachable F P d (primary_of d k)"
    and "answers F P d (buddy_of d k)" "accepts (node_boost F) v" "op = INSERT \<longleftrightarrow> holds P d w (buddy_of d k) k = None"
    and "write_both (access_of F P c a) op k v d w = (d1, w1)"
  shows "d1 = d" "serving P c a d w1" "holds P d w1 (buddy_of d k) k = Some (c_str v)"
    "holds P d w1 (primary_of d k) k = holds P d w (primary_of d k) k"
proof -
  note mem = member_primary [OF assms(2), of k] member_buddy [OF assms(2), of k]
  have neg: "\<not> primary_of d k <s 0" using servingE [OF assms(1) mem(1)] by auto
  obtain i where i: "node_write (access_of F P c a) d op (primary_of d k) k v w = w\<lparr>calls := i\<rparr>"
    using write_unreachable [OF mem(1) neg assms(4)] by blast
  have w1: "d1 = d" "w1 = node_write (access_of F P c a) d op (buddy_of d k) k v (w\<lparr>calls := i\<rparr>)"
    using assms(3,8) i unfolding write_routed [OF ring_current_routes [OF assms(2)]]
    by (auto simp: route_write_def Let_def)
  have s: "serving P c a d (w\<lparr>calls := i\<rparr>)" using assms(1) by simp
  show "d1 = d" by (rule w1)
  show "serving P c a d w1" unfolding w1(2) by (rule nodes.wr_inv [OF s mem(2)])
  show "holds P d w1 (buddy_of d k) k = Some (c_str v)"
    unfolding w1(2) using nodes.wr_answer [OF s mem(2) assms(5,6), of op k] assms(7) by simp
  show "holds P d w1 (primary_of d k) k = holds P d w (primary_of d k) k"
    unfolding w1(2) using nodes.wr_frame [OF s mem(2,1)] assms(3) by simp
qed

text \<open>
  An insertion that misses an unreachable primary is repaired by the first read once the
  node is back: the read returns the value, and leaves it on the primary as well.
\<close>

theorem missed_insert_is_repaired:
  assumes "serving P c a d w" "ring_current vn d" "member_node d m" "m \<noteq> primary_of d k"
    and "unreachable F P d (primary_of d k)" "answers F P d (buddy_of d k)" "accepts (node_boost F) v"
    and "holds P d w (primary_of d k) k = None" "holds P d w (buddy_of d k) k = None" "\<not> isMissOrError (c_str v)"
    and "insert_key (access_of F P c a) k v d w = (d1, w1)"
    and "\<forall>n. member_node d n \<longrightarrow> answers F2 P d n" "accepts (node_boost F2) (c_str v)"
  shows "fst (get (access_of F2 P c a) k d1 w1) = c_str v
       \<and> holds P d (snd (snd (get (access_of F2 P c a) k d1 w1))) (primary_of d k) k = Some (c_str v)
       \<and> holds P d (snd (snd (get (access_of F2 P c a) k d1 w1))) (buddy_of d k) k = Some (c_str v)"
proof -
  note mem = member_primary [OF assms(2), of k] member_buddy [OF assms(2), of k]
  note bp = buddy_distinct [OF assms(2-4)]
  note i = write_misses_primary [OF assms(1,2) bp assms(5-7) _ assms(11) [unfolded insert_key_def]]
  have h: "d1 = d" "serving P c a d w1" "holds P d w1 (primary_of d k) k = None"
    "visible (holds P d w1 (buddy_of d k) k) = Some (c_str v)" "holds P d w1 (buddy_of d k) k = Some (c_str v)"
    using i assms(8-10) by (simp_all add: visible_value)
  have ans: "answers F2 P d (primary_of d k)" "answers F2 P d (buddy_of d k)" using assms(12) mem by auto
  note g = nodes.get_migrates [OF h(2) mem bp ans assms(13) h(3,4)]
  have "fst (get (access_of F2 P c a) k d w1) = c_str v"
    unfolding get_value [OF assms(2)] using nodes.get_found [OF h(2) mem, where F = F2 and v = "c_str v"] h(3,4) bp ans
    by (simp add: visible_def)
  with g(1) g(2) [OF mem(2)] h(5) bp show ?thesis unfolding h(1) get_value [OF assms(2)] by simp
qed

lemma demo3_lost: "unreachable (demo_fabric [''p://c'']) ''p'' demo3 (primary_of demo3 5)"
  "answers (demo_fabric [''p://c'']) ''p'' demo3 (buddy_of demo3 5)"
  by (simp_all add: demo3_routes unreachable_def demo_answers)

lemmas demo_simps = demo3_member demo3_routes demo3_holds accepts_roomy isMissOrError_def starts_with_def c_str_def

theorem missed_insert_is_repaired_witness:
  "case insert_key (demo_access [''p://c'']) 5 ''v'' demo3 (world3 [] [] []) of (d1, w1) \<Rightarrow>
     fst (get (demo_access []) 5 d1 w1) = ''v''
     \<and> holds ''p'' demo3 (snd (snd (get (demo_access []) 5 d1 w1))) 2 5 = Some ''v''"
proof -
  obtain d1 w1 where i: "insert_key (demo_access [''p://c'']) 5 ''v'' demo3 (world3 [] [] []) = (d1, w1)" by (metis surj_pair)
  have "serving ''p'' demo_server ''q'' demo3 (world3 [] [] [])" by (simp add: demo3_serving)
  from missed_insert_is_repaired [OF this demo_ring, of 0 5, OF _ _ _ demo3_lost _ _ _ _ i demo3_answers]
  show ?thesis using i by (simp add: demo_simps)
qed

text \<open>
  Claim C13: an update that misses an unreachable primary is never repaired: the client is not told,
  and once the node is back every read returns the old value, with the new one on the buddy.
\<close>

theorem missed_update_reads_stale:
  assumes "serving P c a d w" "ring_current vn d" "member_node d m" "m \<noteq> primary_of d k"
    and "unreachable F P d (primary_of d k)" "answers F P d (buddy_of d k)" "accepts (node_boost F) v"
    and "holds P d w (primary_of d k) k = Some u" "holds P d w (buddy_of d k) k = Some u" "\<not> isMissOrError u"
    and "update_key (access_of F P c a) k v d w = (d1, w1)" "\<forall>n. member_node d n \<longrightarrow> answers F2 P d n"
  shows "fst (get (access_of F2 P c a) k d1 w1) = u
       \<and> holds P d (snd (snd (get (access_of F2 P c a) k d1 w1))) (primary_of d k) k = Some u
       \<and> holds P d (snd (snd (get (access_of F2 P c a) k d1 w1))) (buddy_of d k) k = Some (c_str v)"
proof -
  note mem = member_primary [OF assms(2), of k] member_buddy [OF assms(2), of k]
  note i = write_misses_primary [OF assms(1,2) buddy_distinct [OF assms(2-4)] assms(5-7) _ assms(11) [unfolded update_key_def]]
  have h: "d1 = d" "serving P c a d w1" "holds P d w1 (primary_of d k) k = Some u"
    "holds P d w1 (buddy_of d k) k = Some (c_str v)"
    using i assms(8,9) by simp_all
  have vis: "visible (holds P d w1 (primary_of d k) k) = Some u" using h(3) assms(10) by (simp add: visible_value)
  have ans: "answers F2 P d (primary_of d k)" using assms(12) mem by auto
  note g = nodes.get_served [OF h(2) mem(1) ans vis]
  from g(1) g(3) [OF mem(1)] g(3) [OF mem(2)] h(3,4) show ?thesis unfolding h(1) get_value [OF assms(2)] by simp
qed

theorem missed_update_reads_stale_witness:
  "case update_key (demo_access [''p://c'']) 5 ''v'' demo3 (world3 [] [(5, ''u'')] [(5, ''u'')]) of (d1, w1) \<Rightarrow>
     fst (get (demo_access []) 5 d1 w1) = ''u''"
proof -
  let ?w = "world3 [] [(5, ''u'')] [(5, ''u'')]"
  obtain d1 w1 where i: "update_key (demo_access [''p://c'']) 5 ''v'' demo3 ?w = (d1, w1)" by (metis surj_pair)
  have "serving ''p'' demo_server ''q'' demo3 ?w" by (simp add: demo3_serving wf_map_def)
  from missed_update_reads_stale [OF this demo_ring, of 0 5, OF _ _ _ demo3_lost _ _ _ _ i demo3_answers]
  show ?thesis using i by (simp add: demo_simps)
qed

subsection \<open>Nothing re-replicates\<close>

lemma get_after_second_departure:
  assumes "serving P c a d w" "ring_current vn d" "member_node d q" "q \<noteq> x"
    and "\<forall>n. member_node d n \<and> n \<noteq> x \<longrightarrow> holds P d w n k = None"
  shows "fst (get (access_of F P c a) k (without_node x vn d) w) = ''RPC Failed''"
proof -
  let ?d = "without_node x vn d"
  have r: "ring_current vn ?d" by (rule ring_current_without [OF assms(2-4)])
  have "visible (holds P ?d w (primary_of ?d k) k) = None" "visible (holds P ?d w (buddy_of ?d k) k) = None"
    using assms(5) member_primary [OF r, of k] member_buddy [OF r, of k] by (auto simp: holds_without visible_def)
  from get_no_copy(1) [OF serving_without [OF assms(1)] r this] show ?thesis .
qed

text \<open>
  Claim C9: the second crash loses the value. In a cluster of three or more nodes of which only the
  primary and the buddy of a key hold it, a read after the crash of the primary still returns the
  value, but gives no other node a copy; when the buddy crashes as well, reads report failure,
  although a node that was up all the time has become the key's primary.
\<close>

theorem second_crash_loses:
  assumes "serving P c a d w" "ring_current vn d" "member_node d q" "q \<noteq> primary_of d k" "q \<noteq> buddy_of d k"
    and "\<forall>n. member_node d n \<longrightarrow> answers F P d n"
    and "holds P d w (primary_of d k) k = Some v" "holds P d w (buddy_of d k) k = Some v" "\<not> isMissOrError v"
    and "\<forall>n. member_node d n \<and> n \<noteq> primary_of d k \<and> n \<noteq> buddy_of d k \<longrightarrow> holds P d w n k = None"
    and "d1 = without_node (primary_of d k) vn d" "get (access_of F P c a) k d1 w = (u, d1', w1)"
    and "d2 = without_node (buddy_of d k) vn d1'"
  shows "u = v \<and> member_node d2 (primary_of d2 k) \<and> fst (get (access_of F P c a) k d2 w1) = ''RPC Failed''"
proof -
  let ?x = "primary_of d k"
  have bx: "buddy_of d k \<noteq> ?x" by (rule buddy_distinct [OF assms(2-4)])
  have r: "ring_current vn d1" unfolding assms(11) by (rule ring_current_without [OF assms(2-4)])
  have s: "serving P c a d1 w" unfolding assms(11) by (rule serving_without [OF assms(1)])
  have p: "primary_of d1 k = buddy_of d k" unfolding assms(11) using primary_without [OF assms(2-4), of k] by simp
  have mem: "member_node d1 n \<longleftrightarrow> member_node d n \<and> n \<noteq> ?x" for n unfolding assms(11) by simp
  have h: "holds P d1 w n k = holds P d w n k" if "n \<noteq> ?x" for n unfolding assms(11) using that by (rule holds_without)
  have pm: "member_node d1 (primary_of d1 k)" by (rule member_primary [OF r])
  have vis: "visible (holds P d1 w (primary_of d1 k) k) = Some v" using h bx p assms(8,9) by (simp add: visible_value)
  have ans: "answers F P d1 (primary_of d1 k)"
    using assms(6,11) pm mem p bx by (simp add: answers_without)
  note g = nodes.get_served [OF s pm ans vis, where b = "buddy_of d1 k"]
  have e: "u = v" "d1' = d1" "w1 = snd (route_get (node_read (access_of F P c a) d1) (node_write (access_of F P c a) d1)
      (primary_of d1 k) (buddy_of d1 k) k w)"
    using get_value [OF r, of "access_of F P c a" k w] g(1) assms(12) by simp_all
  have s1: "serving P c a d1 w1" unfolding e(3) by (rule g(2))
  have none: "\<forall>n. member_node d1 n \<and> n \<noteq> buddy_of d k \<longrightarrow> holds P d1 w1 n k = None"
    unfolding e(3) using g(3) mem h assms(10) by simp
  have q1: "member_node d1 q" "q \<noteq> buddy_of d k" using mem assms(3-5) by simp_all
  have "ring_current vn d2" unfolding assms(13) e(2) by (rule ring_current_without [OF r q1])
  then have "member_node d2 (primary_of d2 k)" by (rule member_primary)
  moreover have "fst (get (access_of F P c a) k d2 w1) = ''RPC Failed''"
    unfolding assms(13) e(2) by (rule get_after_second_departure [OF s1 r q1 none])
  ultimately show ?thesis using e(1) by simp
qed

theorem second_crash_loses_witness:
  "case get (demo_access []) 5 (without_node 2 2 demo3) (world3 [] [(5, ''u'')] [(5, ''u'')]) of (u, d1, w1) \<Rightarrow>
     u = ''u'' \<and> fst (get (demo_access []) 5 (without_node 1 2 d1) w1) = ''RPC Failed''"
proof -
  let ?w = "world3 [] [(5, ''u'')] [(5, ''u'')]"
  obtain u d1 w1 where i: "get (demo_access []) 5 (without_node (primary_of demo3 5) 2 demo3) ?w = (u, d1, w1)"
    by (metis surj_pair)
  have "serving ''p'' demo_server ''q'' demo3 ?w" by (simp add: demo3_serving wf_map_def)
  moreover have "\<forall>n. member_node demo3 n \<and> n \<noteq> primary_of demo3 5 \<and> n \<noteq> buddy_of demo3 5 \<longrightarrow> holds ''p'' demo3 ?w n 5 = None"
    by (auto simp: demo_simps)
  ultimately show ?thesis
    using second_crash_loses [OF _ demo_ring _ _ _ demo3_answers _ _ _ _ refl i refl, where q = 0 and v = "''u''"] i
    by (auto simp: demo_simps)
qed

subsection \<open>A deletion leaves earlier copies\<close>

lemma without_with:
  assumes "ring_current vn d" "\<not> member_node d n"
  shows "node_to_ip (without_node n vn (with_node n ep vn d)) = node_to_ip d"
    and "primary_of (without_node n vn (with_node n ep vn d)) k = primary_of d k"
    and "buddy_of (without_node n vn (with_node n ep vn d)) k = buddy_of d k"
proof -
  let ?d = "without_node n vn (with_node n ep vn d)"
  have "n \<notin> fst ` set (node_to_ip d)" using assms(2) by (simp add: member_table_nodes)
  then show t: "node_to_ip ?d = node_to_ip d" unfolding without_node_simps with_node_simps delete_update_same by (rule delete_id)
  have "node_to_ip d \<noteq> []" "\<not> vn \<le>s 0" using assms(1) by (auto simp: ring_current_def)
  then have "ring_current vn ?d"
    using t unfolding without_node_def by (metis ring_current_rebuildRing without_node_def without_node_simps(1))
  from ring_current_lookups [OF this, of k "empty_ring 0"] ring_current_lookups [OF assms(1), of k "empty_ring 0"]
  show "primary_of ?d k = primary_of d k" "buddy_of ?d k = buddy_of d k" unfolding t by simp_all
qed

text \<open>
  Claim C14: a deleted key comes back. Node \<open>n\<close> joins and takes over the key, so that the former
  primary becomes the buddy and the former buddy keeps its copy unseen. A deletion, with all nodes
  reachable, removes the key from both present replicas and reads report failure; when \<open>n\<close> leaves
  again, reads return the deleted value.
\<close>

theorem deleted_key_comes_back:
  assumes "ring_current vn d" "\<not> member_node d n" "d' = with_node n ep vn d" "serving P c a d' w"
    and "member_node d m" "m \<noteq> primary_of d k" "\<forall>j. member_node d' j \<longrightarrow> answers F P d' j"
    and "primary_of d' k = n" "holds P d' w (buddy_of d k) k = Some v" "\<not> isMissOrError v"
    and "deleteKey (access_of F P c a) k d' w = (d1, w1)"
  shows "fst (get (access_of F P c a) k d1 w1) = ''RPC Failed''
       \<and> fst (get (access_of F P c a) k (without_node n vn d1) w1) = v"
proof -
  let ?d = "without_node n vn d'"
  have r: "ring_current vn d'" unfolding assms(3) by (rule ring_current_with [OF assms(1)])
  note mem = member_primary [OF r, of k] member_buddy [OF r, of k]
  have b': "buddy_of d' k = primary_of d k"
    using primary_with(2) [OF assms(1,2), of ep k, folded assms(3)] assms(8) by simp
  have bd: "member_node d (buddy_of d k)" "buddy_of d k \<noteq> n" "buddy_of d k \<noteq> primary_of d k"
    using member_buddy [OF assms(1), of k] assms(2) buddy_distinct [OF assms(1,5,6)] by auto
  have pd: "member_node d (primary_of d k)" "primary_of d k \<noteq> n"
    using member_primary [OF assms(1), of k] assms(2) by auto
  have w1: "d1 = d'" "w1 = route_delete (node_delete (access_of F P c a) d') (primary_of d' k) (buddy_of d' k) k w"
    using assms(11) unfolding delete_routed [OF ring_current_routes [OF r]] by (metis Pair_inject)+
  have s1: "serving P c a d' w1" unfolding w1(2) by (rule nodes.delete_inv [OF assms(4) mem])
  have ans: "answers F P d' (primary_of d' k)" "answers F P d' (buddy_of d' k)" using assms(7) mem by auto
  note g = nodes.delete_gone [OF assms(4) mem ans, where k = k, folded w1(2)]
  have "member_node d' (buddy_of d k)" using bd(1) assms(3) by simp
  then have hb: "holds P d' w1 (buddy_of d k) k = Some v" using g(3) [where m = "buddy_of d k" and k' = k] bd b' assms(8,9) by simp
  have gone: "fst (get (access_of F P c a) k d' w1) = ''RPC Failed''"
    using get_no_copy(1) [OF s1 r] g(1,2) by (simp add: visible_def)
  have "ring_current vn ?d" using ring_current_without [OF r, of "primary_of d k" n] pd assms(3) by simp
  moreover have "primary_of ?d k = primary_of d k" "buddy_of ?d k = buddy_of d k"
    unfolding assms(3) by (rule without_with [OF assms(1,2)])+
  moreover have "visible (holds P ?d w1 (primary_of d k) k) = None" "visible (holds P ?d w1 (buddy_of d k) k) = Some v"
    "answers F P ?d (buddy_of d k)"
    using g(2) b' pd bd hb assms(3,7,10) by (simp_all add: holds_without answers_without visible_value) (simp add: visible_def)
  moreover have "member_node ?d (primary_of d k)" "member_node ?d (buddy_of d k)" using pd bd assms(3) by simp_all
  ultimately have "fst (get (access_of F P c a) k ?d w1) = v"
    using nodes.get_found [OF serving_without [OF s1], where p = "primary_of d k" and b = "buddy_of d k" and F = F and v = v] bd(3)
    by (simp add: get_value)
  with gone w1(1) show ?thesis by simp
qed

theorem deleted_key_comes_back_witness:
  "case deleteKey (demo_access []) 5 demo3 (world3 [(5, ''v'')] [(5, ''v'')] []) of (d1, w1) \<Rightarrow>
     fst (get (demo_access []) 5 d1 w1) = ''RPC Failed'' \<and> fst (get (demo_access []) 5 (without_node 2 2 d1) w1) = ''v''"
proof -
  let ?w = "world3 [(5, ''v'')] [(5, ''v'')] []"
  obtain d1 w1 where i: "deleteKey (demo_access []) 5 demo3 ?w = (d1, w1)" by (metis surj_pair)
  have "serving ''p'' demo_server ''q'' demo3 ?w" by (simp add: demo3_serving wf_map_def)
  from deleted_key_comes_back [OF demo_ring _ demo2_join [symmetric] this _ _ demo3_answers _ _ _ i, of 0 "''v''"]
  show ?thesis using i by (simp add: demo_simps demo2_member demo2_facts)
qed

subsection \<open>What a client is not told\<close>

text \<open>
  Claim C15: a put returns nothing, and two kinds of put have no visible effect. Putting a key that
  both nodes hold changes no copy, so reads go on returning the old value; a value that reads like
  an error message (\<^verbatim>\<open>isMissOrError\<close>) is stored on both nodes, but reads report failure.
\<close>

theorem put_without_effect:
  assumes "serving P c a d w" "ring_current vn d" "\<forall>n. member_node d n \<longrightarrow> answers F P d n" "accepts (node_boost F) v"
    and "insert_key (access_of F P c a) k v d w = (d1, w1)"
    and "(\<exists>u. \<not> isMissOrError u \<and> holds P d w (primary_of d k) k = Some u \<and> holds P d w (buddy_of d k) k = Some u)
       \<or> (isMissOrError (c_str v) \<and> holds P d w (primary_of d k) k = None \<and> holds P d w (buddy_of d k) k = None)"
  shows "(holds P d w (primary_of d k) k \<noteq> None \<longrightarrow>
            Some (fst (get (access_of F P c a) k d1 w1)) = holds P d w (primary_of d k) k
            \<and> (\<forall>n k'. member_node d n \<longrightarrow> holds P d w1 n k' = holds P d w n k'))
       \<and> (holds P d w (primary_of d k) k = None \<longrightarrow>
            holds P d w1 (primary_of d k) k = Some (c_str v) \<and> holds P d w1 (buddy_of d k) k = Some (c_str v)
            \<and> fst (get (access_of F P c a) k d1 w1) = ''RPC Failed'')"
proof (cases "holds P d w (primary_of d k) k")
  case None
  then have n: "holds P d w (buddy_of d k) k = None" "isMissOrError (c_str v)" using assms(6) by auto
  note i = inserted_everywhere [OF assms(1-4) None n(1) assms(5)]
  have "fst (get (access_of F P c a) k d w1) = ''RPC Failed''"
    using get_no_copy(1) [OF i(2) assms(2)] i(3,4) n(2) by (simp add: visible_value)
  with i None show ?thesis by simp
next
  case (Some u)
  then have u: "holds P d w (buddy_of d k) k = Some u" "\<not> isMissOrError u" using assms(6) by auto
  note mem = member_primary [OF assms(2), of k] member_buddy [OF assms(2), of k]
  have w1: "d1 = d" "w1 = route_write (node_write (access_of F P c a) d) INSERT (primary_of d k) (buddy_of d k) k v w"
    using assms(5) unfolding insert_key_def write_routed [OF ring_current_routes [OF assms(2)]] by (metis Pair_inject)+
  have same: "holds P d w1 n k' = holds P d w n k'" if "member_node d n" for n k'
    unfolding w1(2) using nodes.insert_present [OF assms(1) mem _ _ that, where F = F] Some u by simp
  have s1: "serving P c a d w1" unfolding w1(2) by (rule nodes.write_inv [OF assms(1) mem])
  have "visible (holds P d w1 (primary_of d k) k) = Some u" using same mem Some u by (simp add: visible_value)
  then have "fst (get (access_of F P c a) k d w1) = u"
    unfolding get_value [OF assms(2)] using nodes.get_served(1) [OF s1 mem(1)] assms(3) mem by simp
  with same Some w1(1) show ?thesis by simp
qed

theorem put_without_effect_witness:
  "case insert_key (demo_access []) 5 ''Error: none'' demo3 (world3 [] [] []) of (d1, w1) \<Rightarrow>
     holds ''p'' demo3 w1 2 5 = Some ''Error: none'' \<and> fst (get (demo_access []) 5 d1 w1) = ''RPC Failed''"
proof -
  obtain d1 w1 where i: "insert_key (demo_access []) 5 ''Error: none'' demo3 (world3 [] [] []) = (d1, w1)" by (metis surj_pair)
  have "serving ''p'' demo_server ''q'' demo3 (world3 [] [] [])" by (simp add: demo3_serving)
  from put_without_effect [OF this demo_ring demo3_answers _ i]
  show ?thesis using i by (simp add: demo_simps)
qed

end
