(* ===== verification/ServerMain.thy ===== *)
theory ServerMain
  imports Complex_Main Config KvGuarantees KvLifecycle Gossip HashRing
begin

text \<open>
  \<^verbatim>\<open>src/main_server.cpp\<close>: the server process. Its arguments, its identity in the configuration, its
  start, the callback that rebuilds the ring, and its shutdown. Only the effects are modelled, not
  what is printed. Undefined behaviour of the C++ program is the result \<open>None\<close>.
\<close>

subsection \<open>The memory size\<close>

text \<open>
  \<^verbatim>\<open>std::stod\<close>. The rounding to a \<^verbatim>\<open>double\<close>, which may be out of range, and the texts for
  hexadecimal numbers, infinity and NaN belong to the platform and are the arguments \<open>round_double\<close>
  and \<open>stod_special\<close>; a \<^verbatim>\<open>double\<close> is the rational number it stands for.
\<close>

record platform =
  round_double :: "rat \<Rightarrow> exn + rat"
  stod_special :: "string \<Rightarrow> exn + rat"

definition special_number :: "string \<Rightarrow> bool" where
  "special_number s \<longleftrightarrow> starts_with ''INF'' (map upcase s) \<or> starts_with ''NAN'' (map upcase s)
     \<or> starts_with ''0X'' (map upcase s)"

definition skip_sign :: "string \<Rightarrow> string" where
  "skip_sign s = (case s of [] \<Rightarrow> [] | c # cs \<Rightarrow> if c = CHR ''-'' \<or> c = CHR ''+'' then cs else s)"

text \<open>The exponent, where the text has a complete one.\<close>

definition exponent :: "string \<Rightarrow> int" where
  "exponent s =
     (case s of
        [] \<Rightarrow> 0
      | c # cs \<Rightarrow>
          if upcase c = CHR ''E'' then
            (let n = digits_value (takeWhile is_digit (skip_sign cs))
             in if starts_with ''-'' cs then - n else n)
          else 0)"

definition stod :: "platform \<Rightarrow> string \<Rightarrow> exn + rat" where
  "stod pf text =
     (let s = dropWhile is_space text; unsigned = skip_sign s;
          whole = takeWhile is_digit unsigned; rest = dropWhile is_digit unsigned;
          fraction = (if starts_with ''.'' rest then takeWhile is_digit (tl rest) else []);
          rest = (if starts_with ''.'' rest then dropWhile is_digit (tl rest) else rest);
          e = exponent rest - int (length fraction);
          magnitude = of_int (digits_value (whole @ fraction)) * (if 0 \<le> e then 10 ^ nat e else 1 / 10 ^ nat (- e))
      in if special_number unsigned then stod_special pf text
         else if whole @ fraction = [] then Inl (invalid_argument ''stod'')
         else round_double pf (if starts_with ''-'' s then - magnitude else magnitude))"

text \<open>The conversion to \<^verbatim>\<open>size_t\<close> truncates, and is undefined outside the range.\<close>

definition to_size :: "rat \<Rightarrow> u64 option" where
  "to_size x =
     (let i = (if 0 \<le> x then \<lfloor>x\<rfloor> else - \<lfloor>- x\<rfloor>)
      in if 0 \<le> i \<and> i < 2 ^ 64 then Some (word_of_int i) else None)"

definition unit_bytes :: "char \<Rightarrow> rat" where
  "unit_bytes unit = (if unit = CHR ''K'' then 1024 else if unit = CHR ''G'' then 1073741824 else 1048576)"

definition parseMemorySize :: "platform \<Rightarrow> string \<Rightarrow> u64 option" where
  "parseMemorySize pf size_str =
     (let num_part = map upcase size_str in
      if num_part = [] then None
      else (let suffixed = last num_part \<in> {CHR ''K'', CHR ''M'', CHR ''G''};
                unit = (if suffixed then last num_part else CHR ''M'');
                num_part = (if suffixed then butlast num_part else num_part)
            in case stod pf num_part of
                 Inl e \<Rightarrow> Some (100 * 1024 * 1024)
               | Inr num_value \<Rightarrow> to_size (num_value * unit_bytes unit)))"

subsection \<open>Identity\<close>

text \<open>The endpoint cut at its first colon, which stays with the second part.\<close>

definition split_colon :: "endpoint \<Rightarrow> (string \<times> string) option" where
  "split_colon ep =
     (if CHR '':'' \<in> set ep then Some (takeWhile (\<lambda>c. c \<noteq> CHR '':'') ep, dropWhile (\<lambda>c. c \<noteq> CHR '':'') ep) else None)"

fun find_from :: "(node_id \<Rightarrow> exn + endpoint) \<Rightarrow> string \<Rightarrow> string \<Rightarrow> nat \<Rightarrow> nat \<Rightarrow> exn + node_id" where
  "find_from endpoint_of local_ip port_str i 0 = Inr (- 1)"
| "find_from endpoint_of local_ip port_str i (Suc n) =
     and_then (endpoint_of (of_nat i)) (\<lambda>ep.
     if split_colon ep = Some (local_ip, port_str) then Inr (of_nat i)
     else find_from endpoint_of local_ip port_str (Suc i) n)"

definition findNodeId :: "'j json_library \<Rightarrow> 'j \<Rightarrow> string \<Rightarrow> cint \<Rightarrow> exn + node_id" where
  "findNodeId L config local_ip port =
     and_then (read_count L config) (\<lambda>count.
     find_from (get_endpoint L config) local_ip ('':'' @ to_string port) 0 (nat (sint count)))"

subsection \<open>Arguments\<close>

record server_args =
  arg_protocol :: string
  arg_port :: cint
  arg_mem_size :: u64
  arg_storage_mode :: StorageMode

definition parse_port :: "string \<Rightarrow> cint" where
  "parse_port s = (case stoi s of Inl e \<Rightarrow> 8080 | Inr p \<Rightarrow> p)"

definition parse_mode :: "string \<Rightarrow> StorageMode" where
  "parse_mode s = (if map downcase s = ''persistent'' then PERSISTENT else MEMORY)"

definition parse_server_args :: "platform \<Rightarrow> string list \<Rightarrow> server_args option" where
  "parse_server_args pf argv =
     (case (if 4 \<le> length argv then parseMemorySize pf (argv ! 3) else Some (100 * 1024 * 1024)) of
        None \<Rightarrow> None
      | Some mem_size \<Rightarrow>
          Some \<lparr>arg_protocol = (if 2 \<le> length argv then argv ! 1 else ''ofi+tcp''),
                arg_port = (if 3 \<le> length argv then parse_port (argv ! 2) else 8080),
                arg_mem_size = mem_size,
                arg_storage_mode = (if 5 \<le> length argv then parse_mode (argv ! 4) else MEMORY)\<rparr>)"

text \<open>The line \<^verbatim>\<open>fgets\<close> reads from \<^verbatim>\<open>hostname\<close>, if the pipe opens.\<close>

definition local_ip_of :: "string option \<Rightarrow> string" where
  "local_ip_of line = filter (\<lambda>c. c \<noteq> CHR 0x0A) (case line of None \<Rightarrow> ''127.0.0.1'' | Some l \<Rightarrow> l)"

definition server_address :: "server_args \<Rightarrow> string \<Rightarrow> endpoint" where
  "server_address args local_ip = arg_protocol args @ ''://'' @ local_ip @ '':'' @ to_string (arg_port args)"

subsection \<open>The running server\<close>

record server =
  srv_kv :: kv_store
  srv_membership :: gossip
  server_ring :: ConsistentHashRing
  shutdown_signal :: cint

text \<open>The change callback: the ring is rebuilt with the live nodes it is given.\<close>

definition on_change :: "live_nodes option \<Rightarrow> server \<Rightarrow> server" where
  "on_change live s =
     (case live of
        None \<Rightarrow> s
      | Some l \<Rightarrow> s\<lparr>server_ring := rebuild l default_virtual_nodes (server_ring s)\<rparr>)"

text \<open>
  The start, up to the beginning of \<^verbatim>\<open>membership.start()\<close>: the callback and the provider are
  registered by then, so requests are served while the seeds are being asked.
\<close>

definition boot_server ::
  "boost \<Rightarrow> 'j json_library \<Rightarrow> file_write \<Rightarrow> u64 \<Rightarrow> server_args \<Rightarrow> string \<Rightarrow>
   (string \<rightharpoonup> string) \<Rightarrow> os \<Rightarrow> (exn + server) \<times> (string \<rightharpoonup> string) \<times> os" where
  "boot_server b L w now args local_ip fs \<sigma> =
     (case and_then (open_config L fs ''config/config.json'') (\<lambda>config.
           and_then (findNodeId L config local_ip (arg_port args)) (\<lambda>found.
           and_then (if found <s 0 then Inr [] else get_endpoint L config found) (\<lambda>printed.
           and_then (read_gossip_config L config) (\<lambda>gossip_cfg.
           Inr (if found <s 0 then 0 else found, gossip_cfg))))) of
        Inl e \<Rightarrow> (Inl e, fs, \<sigma>)
      | Inr (n, gossip_cfg) \<Rightarrow>
          (case get_instance b None (arg_mem_size args) (arg_storage_mode args) SERVER (to_string (arg_port args)) \<sigma> of
             (Inl e, \<sigma>) \<Rightarrow> (Inl e, fs, \<sigma>)
           | (Inr kv, \<sigma>) \<Rightarrow>
               (let (membership, fs) = new_membership w n (server_address args local_ip) (seeds gossip_cfg)
                      (suspect_ms gossip_cfg) (dead_ms gossip_cfg) now fs
                in (Inr \<lparr>srv_kv = kv, srv_membership = (setChangeCallback membership)\<lparr>running := True\<rparr>,
                         server_ring = empty_ring 0, shutdown_signal = 0\<rparr>, fs, \<sigma>))))"

text \<open>
  What can happen to a server from then on, one event for each critical section. The answer of a seed
  is taken in (\<open>SeedAnswer\<close>); an iteration of the gossip loop is its critical section (\<open>Beat\<close>) and, when
  its round is answered, the merge of the response (\<open>Response\<close>); \<open>Retire\<close> is the one of \<^verbatim>\<open>stop\<close>. A
  peer is called with the lock free, so between a call and its answer any other events may come. All
  the orders that the threads allow are sequences of these events.
\<close>

datatype server_event =
    KvRequest kv_command
  | GossipRequest "nat \<Rightarrow> u64" "MemberRecord list"
  | SeedAnswer "nat \<Rightarrow> u64" "MemberRecord list"
  | Beat u64 u64
  | Response "nat \<Rightarrow> u64" "MemberRecord list"
  | Retire

fun handle_event :: "boost \<Rightarrow> server_event \<Rightarrow> server \<times> os \<Rightarrow> server \<times> os" where
  "handle_event b (KvRequest c) (s, \<sigma>) = (s, snd (exec b (srv_kv s) c \<sigma>))"
| "handle_event b (GossipRequest clk incoming) (s, \<sigma>) =
     (let (g, live, response) = mergeView clk incoming (srv_membership s)
      in (on_change live (s\<lparr>srv_membership := g\<rparr>), \<sigma>))"
| "handle_event b (SeedAnswer clk rs) (s, \<sigma>) =
     (s\<lparr>srv_membership := take_seed clk rs (srv_membership s)\<rparr>, \<sigma>)"
| "handle_event b (Beat now now') (s, \<sigma>) =
     (let (g, live) = heartbeat_step now now' (srv_membership s)
      in (on_change live (s\<lparr>srv_membership := g\<rparr>), \<sigma>))"
| "handle_event b (Response clk rs) (s, \<sigma>) =
     (let (g, live) = round_response clk rs (srv_membership s)
      in (on_change live (s\<lparr>srv_membership := g\<rparr>), \<sigma>))"
| "handle_event b Retire (s, \<sigma>) = (s\<lparr>srv_membership := retire_self (srv_membership s)\<rparr>, \<sigma>)"

subsection \<open>Shutdown\<close>

text \<open>A second signal ends the process at once, without destructors: \<open>None\<close>.\<close>

definition handleShutdownSignal :: "cint \<Rightarrow> server \<Rightarrow> server option" where
  "handleShutdownSignal sig s = (if shutdown_signal s \<noteq> 0 then None else Some (s\<lparr>shutdown_signal := sig\<rparr>))"

definition prefinalize :: "server \<Rightarrow> server" where
  "prefinalize s = (if shutdown_signal s = 0 then s\<lparr>shutdown_signal := 1\<rparr> else s)"

text \<open>
  The watcher, once it sees the signal, up to \<^verbatim>\<open>finalize\<close>, with nothing in between (its critical
  sections are the events \<open>Retire\<close> and \<open>Response\<close>); requests that have arrived may still be served. Then \<^verbatim>\<open>main\<close> returns and the static store is destroyed.
\<close>

definition shutdown_watcher ::
  "boost \<Rightarrow> exchange \<Rightarrow> (nat \<Rightarrow> nat) \<Rightarrow> (nat \<Rightarrow> u64) \<Rightarrow> server \<times> os \<Rightarrow> (server \<times> os) option" where
  "shutdown_watcher b send randomInt clk so =
     (let (s, \<sigma>) = so in
      if shutdown_signal s = 0 then None
      else (let (g, live) = stop send randomInt clk (srv_membership s); s = on_change live (s\<lparr>srv_membership := g\<rparr>)
            in Some (prefinalize s, Sync b (srv_kv s) \<sigma>)))"

text \<open>
  The destructor of the membership announces the departure a second time before the static store is
  destroyed.
\<close>

definition exit_main ::
  "boost \<Rightarrow> exchange \<Rightarrow> (nat \<Rightarrow> nat) \<Rightarrow> (nat \<Rightarrow> u64) \<Rightarrow> server \<times> os \<Rightarrow> server \<times> os" where
  "exit_main b send randomInt clk so =
     (let (s, \<sigma>) = so; (g, live) = stop send randomInt clk (srv_membership s);
          s = on_change live (s\<lparr>srv_membership := g\<rparr>)
      in (s, destroy_store b (srv_kv s) \<sigma>))"

end
