(* ===== verification/DemoConfig.thy ===== *)
theory DemoConfig
  imports Config
begin

text \<open>
  A concrete JSON library and a configuration of two nodes, for the witnesses.
\<close>

datatype json =
    JNumber int
  | JString string
  | JArray "json list"
  | JObject "(string \<times> json) list"

fun json_member :: "json \<Rightarrow> string \<Rightarrow> json option" where
  "json_member (JObject kvs) k = map_of kvs k"
| "json_member _ k = None"

fun json_int :: "json \<Rightarrow> exn + cint" where
  "json_int (JNumber n) = Inr (word_of_int n)"
| "json_int _ = Inl (invalid_argument ''type_error'')"

fun json_string :: "json \<Rightarrow> exn + string" where
  "json_string (JString s) = Inr s"
| "json_string _ = Inl (invalid_argument ''type_error'')"

definition json_get :: "json \<Rightarrow> string \<Rightarrow> exn + json" where
  "json_get j k = (case json_member j k of None \<Rightarrow> Inl (out_of_range k) | Some v \<Rightarrow> Inr v)"

definition demo_json :: "json \<Rightarrow> json json_library" where
  "demo_json doc =
     \<lparr>json_parse = (\<lambda>text. Inr doc), json_at = json_get, json_index = json_get,
      json_contains = (\<lambda>j k. json_member j k \<noteq> None),
      json_value_int = (\<lambda>j k x. case json_member j k of None \<Rightarrow> Inr x | Some v \<Rightarrow> json_int v),
      json_elements = (\<lambda>j. case j of JArray l \<Rightarrow> l | _ \<Rightarrow> []),
      as_int = json_int, as_uint16 = (\<lambda>j. Inr 1), as_string = json_string\<rparr>"

definition demo_document :: json where
  "demo_document = JObject
     [(''protocol'', JString ''tcp''), (''count_of_node'', JNumber 2),
      (''ip_addresses'', JObject [(''0'', JString ''h:5000''), (''1'', JString ''h:5001'')]),
      (''size'', JNumber 1), (''local_ip'', JString [])]"

abbreviation demo_lib :: "json json_library" where
  "demo_lib \<equiv> demo_json demo_document"

definition demo_files :: "string \<rightharpoonup> string" where
  "demo_files = [''config/config.json'' \<mapsto> ''{}'']"

lemma demo_texts [simp]: "to_string 0 = ''0''" "to_string 1 = ''1''" "to_string 5000 = ''5000''" "to_string 5001 = ''5001''"
  "to_string 5002 = ''5002''"
  by code_simp+

lemma demo_config [simp]:
  "open_config demo_lib demo_files ''config/config.json'' = Inr demo_document"
  "read_count demo_lib demo_document = Inr 2" "read_protocol demo_lib demo_document = Inr ''tcp''"
  "get_endpoint demo_lib demo_document 0 = Inr ''h:5000''" "get_endpoint demo_lib demo_document 1 = Inr ''h:5001''"
  "read_gossip_config demo_lib demo_document = Inr \<lparr>interval_ms = 1000, suspect_ms = 3000, dead_ms = 10000, seeds = []\<rparr>"
  by (simp_all add: open_config_def demo_files_def demo_json_def demo_document_def read_count_def read_protocol_def
      get_endpoint_def read_gossip_config_def json_get_def)

end
