(* ===== verification/ServerClaims.thy ===== *)
theory ServerClaims
  imports ServerMain DemoConfig KvClaims GossipNetwork RingGuarantees
begin

text \<open>
  The server process as a whole: the ring it keeps is the one its membership reported last, when this
  is the ring of the live nodes, and when not; and a node that falls silent leaves it.
\<close>

subsection \<open>Start\<close>

lemma boot_serverE:
  assumes "boot_server b L w now args local_ip fs \<sigma> = (Inr s, fs', \<sigma>')"
  obtains n ep sds sus dd where
    "get_instance b None (arg_mem_size args) (arg_storage_mode args) SERVER (to_string (arg_port args)) \<sigma> = (Inr (srv_kv s), \<sigma>')"
    "srv_membership s = (setChangeCallback (fst (new_membership w n ep sds sus dd now fs)))\<lparr>running := True\<rparr>"
    "server_ring s = empty_ring 0" "shutdown_signal s = 0"
  using assms by (auto simp: boot_server_def Let_def split: sum.splits prod.splits) (metis fst_conv)

lemma new_membership_callback [simp]:
  "last_alive_set (fst (new_membership w n ep sds sus dd now fs)) = {}"
  by (simp add: new_membership_def Let_def)

abbreviation run_events :: "boost \<Rightarrow> server_event list \<Rightarrow> server \<times> os \<Rightarrow> server \<times> os" where
  "run_events b evs \<equiv> fold (handle_event b) evs"

text \<open>The undisturbed loop over the seeds is the sequence of its answers.\<close>

lemma start_is_seed_answers:
  "\<exists>evs. (\<forall>ev \<in> set evs. \<exists>clk rs. ev = SeedAnswer clk rs)
     \<and> run_events b evs (s, \<sigma>) = (s\<lparr>srv_membership := contact_seeds send clk sds (srv_membership s)\<rparr>, \<sigma>)"
proof (induction sds arbitrary: s)
  case (Cons seed sds)
  show ?case
  proof (cases "seed = self_endpoint (srv_membership s)")
    case False
    show ?thesis
    proof (cases "send seed (getMemberView (srv_membership s))")
      case (Inr rs)
      let ?ev = "SeedAnswer (clk (length sds)) rs"
      obtain evs where e: "\<forall>ev \<in> set evs. \<exists>clk rs. ev = SeedAnswer clk rs"
        "run_events b evs (fst (handle_event b ?ev (s, \<sigma>)), \<sigma>)
          = ((fst (handle_event b ?ev (s, \<sigma>)))\<lparr>srv_membership :=
              contact_seeds send clk sds (srv_membership (fst (handle_event b ?ev (s, \<sigma>))))\<rparr>, \<sigma>)"
        using Cons.IH by blast
      have "run_events b (?ev # evs) (s, \<sigma>) = (s\<lparr>srv_membership := contact_seeds send clk (seed # sds) (srv_membership s)\<rparr>, \<sigma>)"
        using e(2) False Inr by simp
      with e(1) show ?thesis by (intro exI [of _ "?ev # evs"]) auto
    qed (use Cons.IH [of s] in simp)
  qed (use Cons.IH [of s] in simp)
qed (intro exI [of _ "[]"], simp)

subsection \<open>What an event does to the table\<close>

text \<open>The events whose changes are reported to the callback.\<close>

fun reports :: "server_event \<Rightarrow> bool" where
  "reports (SeedAnswer clk rs) = False"
| "reports Retire = False"
| "reports ev = True"

text \<open>For these events, the flag \<^verbatim>\<open>changed\<close> and the membership at the call of \<^verbatim>\<open>notifyChange\<close>.\<close>

fun before_notify :: "server_event \<Rightarrow> gossip \<Rightarrow> bool \<times> gossip" where
  "before_notify (GossipRequest clk rs) g =
     (let m = merge_all (merge_record (self_node_id g)) clk 0 rs (member_table g, False)
      in (snd m, g\<lparr>member_table := fst m\<rparr>))"
| "before_notify (Response clk rs) g =
     (let m = merge_all (round_record (self_node_id g)) clk 0 rs (member_table g, False)
      in (snd m, g\<lparr>member_table := fst m\<rparr>))"
| "before_notify (Beat now now') g =
     (let u = update_self (beat now) g
      in (list_ex (aged u now') (member_table u), u\<lparr>member_table := map (age_member u now') (member_table u)\<rparr>))"
| "before_notify ev g = (False, g)"

lemma handle_reports:
  assumes "reports ev" "before_notify ev (srv_membership s) = (changed, g)" "notify_if changed g = (g', live)"
  shows "fst (handle_event b ev (s, \<sigma>)) = on_change live (s\<lparr>srv_membership := g'\<rparr>)"
proof (cases ev)
  case (KvRequest c)
  with assms show ?thesis by (simp add: notify_if_def on_change_def)
qed (use assms in \<open>auto simp: mergeView_def round_response_def heartbeat_step_def detectFailures_def Let_def split_beta\<close>)

definition well_keyed :: "gossip \<Rightarrow> bool" where
  "well_keyed g \<longleftrightarrow> keyed (member_table g) \<and> lookup (member_table g) (self_node_id g) \<noteq> None"

lemma well_keyed_wf: "well_keyed g \<Longrightarrow> wf_map (member_table g)"
  by (simp add: well_keyed_def keyed_def)

lemma update_self_keyed:
  assumes "well_keyed g" "\<And>e. mr_node_id (entry_record (f e)) = mr_node_id (entry_record e)"
  shows "well_keyed (update_self f g)"
proof -
  obtain e where e: "lookup (member_table g) (self_node_id g) = Some e" using assms(1) by (auto simp: well_keyed_def)
  with assms keyed_lookup [of "member_table g", OF _ e] show ?thesis
    by (simp add: well_keyed_def update_self_def keyed_update map_simps)
qed

lemma before_notify_keyed:
  assumes "before_notify ev g = (changed, g')" "well_keyed g"
  shows "well_keyed g' \<and> self_node_id g' = self_node_id g \<and> has_callback g' = has_callback g
    \<and> last_alive_set g' = last_alive_set g"
proof (cases ev)
  case (Beat now now')
  have u: "well_keyed (update_self (beat now) g)"
    using assms(2) by (rule update_self_keyed) (simp add: beat_def)
  with Beat assms(1) keyed_aged show ?thesis
    by (auto simp: well_keyed_def Let_def lookup_aged)
next
  case (GossipRequest clk rs)
  then show ?thesis
    using assms view.merge_all_keyed [of "(member_table g, False)" "self_node_id g" clk 0 rs]
    by (auto simp: well_keyed_def Let_def view.merge_all_self)
next
  case (Response clk rs)
  then show ?thesis
    using assms round.merge_all_keyed [of "(member_table g, False)" "self_node_id g" clk 0 rs]
    by (auto simp: well_keyed_def Let_def round.merge_all_self)
qed (use assms in simp_all)

lemma before_notify_unchanged:
  assumes "before_notify ev g = (False, g')"
  shows "n \<noteq> self_node_id g \<Longrightarrow> lookup (member_table g') n = lookup (member_table g) n"
    and "live_map (member_table g') = live_map (member_table g)"
proof -
  have "(n \<noteq> self_node_id g \<longrightarrow> lookup (member_table g') n = lookup (member_table g) n)
    \<and> live_map (member_table g') = live_map (member_table g)"
  proof (cases ev)
    case (GossipRequest clk rs)
    let ?m = "merge_all (merge_record (self_node_id g)) clk 0 rs (member_table g, False)"
    have "\<not> snd ?m" "member_table g' = fst ?m" using GossipRequest assms by (auto simp: Let_def)
    moreover from merge_all_unchanged [OF merge_record_unchanged this(1)] have "?m = (member_table g, False)" .
    ultimately show ?thesis by simp
  next
    case (Response clk rs)
    let ?m = "merge_all (round_record (self_node_id g)) clk 0 rs (member_table g, False)"
    have "\<not> snd ?m" "member_table g' = fst ?m" using Response assms by (auto simp: Let_def)
    moreover from merge_all_unchanged [OF round_record_unchanged this(1)] have "?m = (member_table g, False)" .
    ultimately show ?thesis by simp
  next
    case (Beat now now')
    let ?u = "update_self (beat now) g"
    have "\<not> list_ex (aged ?u now') (member_table ?u)" "member_table g' = map (age_member ?u now') (member_table ?u)"
      using Beat assms by (auto simp: Let_def)
    then have "member_table g' = member_table ?u" by (simp add: detect_unchanged)
    then show ?thesis
      by (auto simp: update_self_def beat_def live_map_def map_simps fun_eq_iff split: option.split)
  qed (use assms in auto)
  then show "n \<noteq> self_node_id g \<Longrightarrow> lookup (member_table g') n = lookup (member_table g) n"
    "live_map (member_table g') = live_map (member_table g)" by simp_all
qed

subsection \<open>The ring that was reported last\<close>

definition reported_ring :: "server \<Rightarrow> bool" where
  "reported_ring s \<longleftrightarrow>
     (let g = srv_membership s in
      has_callback g \<and> well_keyed g
      \<and> (\<exists>live. wf_map live \<and> dom (lookup live) = last_alive_set g
            \<and> ring (server_ring s) = ring (rebuild live default_virtual_nodes (empty_ring 0))))"

text \<open>The ring is the one of the nodes that are alive in the member table.\<close>

definition in_step :: "server \<Rightarrow> bool" where
  "in_step s \<longleftrightarrow>
     (let t = member_table (srv_membership s) in
      last_alive_set (srv_membership s) = dom (live_map t)
      \<and> ring (server_ring s) = ring (rebuild (live_endpoints t) default_virtual_nodes (empty_ring 0)))"

lemma wf_live_endpoints: "wf_map t \<Longrightarrow> wf_map (live_endpoints t)"
proof -
  have "map fst (live_endpoints t) = map fst (alive_entries t)" by (auto simp: live_endpoints_def)
  then show "wf_map t \<Longrightarrow> wf_map (live_endpoints t)"
    by (simp only: wf_map_def alive_entries_def distinct_map_filter)
qed

lemma in_step_iff:
  assumes "reported_ring s"
  shows "in_step s \<longleftrightarrow> last_alive_set (srv_membership s) = dom (live_map (member_table (srv_membership s)))"
proof
  let ?g = "srv_membership s"
  assume l: "last_alive_set ?g = dom (live_map (member_table ?g))"
  obtain live where live: "wf_map live" "dom (lookup live) = last_alive_set ?g"
      "ring (server_ring s) = ring (rebuild live default_virtual_nodes (empty_ring 0))"
    using assms by (auto simp: reported_ring_def Let_def)
  have wf: "wf_map (member_table ?g)" using assms by (simp add: reported_ring_def Let_def well_keyed_wf)
  have "ring (rebuild live default_virtual_nodes (empty_ring 0))
      = ring (rebuild (live_endpoints (member_table ?g)) default_virtual_nodes (empty_ring 0))"
    using live(1,2) wf l by (intro ring_order_independent) (simp_all add: wf_live_endpoints lookup_live_endpoints)
  with live(3) l show "in_step s" by (simp add: in_step_def Let_def)
qed (simp add: in_step_def Let_def)

lemma ring_of_reported: "reported_ring s \<Longrightarrow> tok_node_id ` set (ring (server_ring s)) = last_alive_set (srv_membership s)"
proof -
  assume "reported_ring s"
  then obtain live where "dom (lookup live) = last_alive_set (srv_membership s)"
      "ring (server_ring s) = ring (rebuild live default_virtual_nodes (empty_ring 0))"
    by (auto simp: reported_ring_def Let_def)
  then show ?thesis by (simp add: ring_nodes default_virtual_nodes_def word_sle_eq dom_map_of_conv_image_fst)
qed

lemma live_primary:
  assumes "wf_map t" "ring r = ring (rebuild (live_endpoints t) default_virtual_nodes r')" "dom (live_map t) \<noteq> {}"
  shows "live_map t (getPrimaryNode r k) \<noteq> None"
proof -
  have d: "dom (live_map t) = fst ` set (live_endpoints t)"
    using assms(1) by (simp add: dom_map_of_conv_image_fst flip: lookup_live_endpoints)
  with assms(3) have "live_endpoints t \<noteq> []" by auto
  then have "getPrimaryNode (rebuild (live_endpoints t) default_virtual_nodes r') k \<in> dom (live_map t)"
    unfolding d by (intro primary_in_nodes) (simp_all add: default_virtual_nodes_def word_sle_eq)
  then show ?thesis using lookup_ring_only(1) [OF assms(2), of k] by auto
qed

text \<open>A notification, made or suppressed.\<close>

lemma reported_notify:
  assumes "reported_ring s" "has_callback g" "well_keyed g" "last_alive_set g = last_alive_set (srv_membership s)"
    and "notify_if changed g = (g', live)" "s' = on_change live (s\<lparr>srv_membership := g'\<rparr>)"
  shows "reported_ring s' \<and> member_table (srv_membership s') = member_table g \<and> self_node_id (srv_membership s') = self_node_id g
    \<and> (changed \<longrightarrow> in_step s')
    \<and> last_alive_set (srv_membership s') = (if changed then dom (live_map (member_table g)) else last_alive_set g)"
proof (cases "changed \<and> current_alive (member_table g) \<noteq> last_alive_set g")
  case True
  then have g': "g' = g\<lparr>last_alive_set := current_alive (member_table g)\<rparr>" "live = Some (live_endpoints (member_table g))"
    using assms(2,5) by (auto simp: notify_if_def notifyChange_def)
  have wf: "wf_map (member_table g)" using assms(3) by (rule well_keyed_wf)
  have "in_step s'"
    using assms(6) g' by (simp add: in_step_def on_change_def ring_rebuild current_alive_dom [OF wf])
  moreover have "reported_ring s'"
    using assms(2,3,6) g' wf
    by (auto simp: reported_ring_def on_change_def ring_rebuild current_alive_dom [OF wf] well_keyed_def
        wf_live_endpoints lookup_live_endpoints intro!: exI [of _ "live_endpoints (member_table g)"])
  ultimately show ?thesis using True g' assms(6) current_alive_dom [OF wf] by (simp add: on_change_def)
next
  case False
  then have g': "g' = g" "live = None"
    using assms(2,5) by (auto simp: notify_if_def notifyChange_def split: if_splits)
  have s': "s' = s\<lparr>srv_membership := g\<rparr>" using assms(6) g' by (simp add: on_change_def)
  have r: "reported_ring s'" using assms(1-4) by (simp add: s' reported_ring_def Let_def)
  moreover have "last_alive_set g = dom (live_map (member_table g))" if changed
    using False that current_alive_dom [OF well_keyed_wf [OF assms(3)]] by simp
  ultimately show ?thesis using in_step_iff [OF r] by (simp add: s')
qed

lemma take_seed_keyed: "well_keyed g \<Longrightarrow> well_keyed (take_seed clk rs g)"
  using merge_seeds_keyed [of "(member_table g, False)" "self_node_id g" clk 0 rs]
  by (simp add: well_keyed_def take_seed_def)

lemma take_seed_same [simp]:
  "last_alive_set (take_seed clk rs g) = last_alive_set g" "has_callback (take_seed clk rs g) = has_callback g"
  "self_node_id (take_seed clk rs g) = self_node_id g"
  by (simp_all add: take_seed_def)

lemma retire_same [simp]:
  "last_alive_set (retire_self g) = last_alive_set g" "has_callback (retire_self g) = has_callback g"
  "self_node_id (retire_self g) = self_node_id g"
  by (simp_all add: retire_self_def)

lemma retire_keyed: "well_keyed g \<Longrightarrow> well_keyed (retire_self g)"
  unfolding retire_self_def by (rule update_self_keyed) (simp_all add: well_keyed_def retire_def)

lemma event_reported:
  assumes "reported_ring s" "s' = fst (handle_event b ev (s, \<sigma>))"
  shows "reported_ring s'"
    and "reports ev \<Longrightarrow> n \<noteq> self_node_id (srv_membership s) \<Longrightarrow>
           lookup (member_table (srv_membership s')) n \<noteq> lookup (member_table (srv_membership s)) n \<Longrightarrow> in_step s'"
    and "reports ev \<Longrightarrow> in_step s \<Longrightarrow> in_step s'"
    and "last_alive_set (srv_membership s') = last_alive_set (srv_membership s)
       \<or> last_alive_set (srv_membership s') = dom (live_map (member_table (srv_membership s')))"
proof -
  let ?g = "srv_membership s"
  have g: "has_callback ?g" "well_keyed ?g" using assms(1) by (simp_all add: reported_ring_def Let_def)
  have "reported_ring s'
    \<and> (reports ev \<and> n \<noteq> self_node_id ?g \<and> lookup (member_table (srv_membership s')) n \<noteq> lookup (member_table ?g) n \<longrightarrow> in_step s')
    \<and> (reports ev \<and> in_step s \<longrightarrow> in_step s')
    \<and> (last_alive_set (srv_membership s') = last_alive_set ?g
       \<or> last_alive_set (srv_membership s') = dom (live_map (member_table (srv_membership s'))))"
  proof (cases "reports ev")
    case True
    obtain changed g1 where b: "before_notify ev ?g = (changed, g1)" by (metis surj_pair)
    obtain g' live where n: "notify_if changed g1 = (g', live)" by (metis surj_pair)
    note k = before_notify_keyed [OF b g(2)]
    note r = reported_notify [OF assms(1) _ _ _ n, of s'] handle_reports [OF True b n, of b \<sigma>]
    have r: "reported_ring s'" "member_table (srv_membership s') = member_table g1" "changed \<longrightarrow> in_step s'"
      "last_alive_set (srv_membership s') = (if changed then dom (live_map (member_table g1)) else last_alive_set ?g)"
      using r k g(1) assms(2) by auto
    have u: "\<not> changed \<Longrightarrow> (n \<noteq> self_node_id ?g \<longrightarrow> lookup (member_table g1) n = lookup (member_table ?g) n)
        \<and> live_map (member_table g1) = live_map (member_table ?g)"
      using before_notify_unchanged [of ev ?g g1] b by auto
    then have "\<not> changed \<Longrightarrow> in_step s \<Longrightarrow> in_step s'"
      using in_step_iff [OF r(1)] in_step_iff [OF assms(1)] r(2,4) by simp
    with r u show ?thesis by auto
  next
    case False
    then consider clk rs where "ev = SeedAnswer clk rs" | "ev = Retire" by (cases ev) auto
    then show ?thesis
    proof cases
      case 1
      then show ?thesis using assms g take_seed_keyed [OF g(2)] by (simp add: reported_ring_def)
    next
      case 2
      then show ?thesis using assms g retire_keyed [OF g(2)] by (simp add: reported_ring_def)
    qed
  qed
  then show "reported_ring s'"
    "reports ev \<Longrightarrow> n \<noteq> self_node_id ?g \<Longrightarrow> lookup (member_table (srv_membership s')) n \<noteq> lookup (member_table ?g) n \<Longrightarrow> in_step s'"
    "reports ev \<Longrightarrow> in_step s \<Longrightarrow> in_step s'"
    "last_alive_set (srv_membership s') = last_alive_set ?g
       \<or> last_alive_set (srv_membership s') = dom (live_map (member_table (srv_membership s')))" by blast+
qed

lemma reported_run: "reported_ring (fst so) \<Longrightarrow> reported_ring (fst (run_events b evs so))"
proof (induction evs arbitrary: so)
  case (Cons ev evs)
  from event_reported(1) [OF Cons.prems refl, where b = b and ev = ev and \<sigma> = "snd so"] Cons.IH [of "handle_event b ev so"] show ?case by simp
qed simp

lemma in_step_run:
  "reported_ring (fst so) \<Longrightarrow> in_step (fst so) \<Longrightarrow> \<forall>ev \<in> set evs. reports ev \<Longrightarrow> in_step (fst (run_events b evs so))"
proof (induction evs arbitrary: so)
  case (Cons ev evs)
  from event_reported(1,3) [OF Cons.prems(1) refl, where b = b and ev = ev and \<sigma> = "snd so"] Cons.prems Cons.IH [of "handle_event b ev so"]
  show ?case by simp
qed simp

lemma reported_boot:
  assumes "boot_server b L w now args local_ip fs \<sigma> = (Inr s, fs', \<sigma>')"
  shows "reported_ring s"
proof -
  obtain n ep sds sus dd where "srv_membership s = (setChangeCallback (fst (new_membership w n ep sds sus dd now fs)))\<lparr>running := True\<rparr>"
    "server_ring s = empty_ring 0"
    using boot_serverE [OF assms] by metis
  then show ?thesis
    by (auto simp: reported_ring_def setChangeCallback_def empty_ring_def ring_rebuild well_keyed_def keyed_def wf_map_def
        split: if_splits intro!: exI [of _ "[]"])
qed

text \<open>
  Claim C7: the ring of a server follows the reports of its membership. In every reachable state, with
  store requests, gossip requests, seed answers, heartbeats with failure detection, gossip responses
  and the retirement at the end in any order, the ring is the one built from exactly the set of live
  nodes that was reported last (from none at the start). An event other than a seed answer or the
  retirement that changes what is known of another node leaves the ring in step with the member table;
  once it is in step it stays so until the next seed answer or the retirement; and while it is in step,
  it routes every key to a node that is alive in the table.
\<close>

theorem server_ring_follows_membership:
  assumes "boot_server b L w now args local_ip fs \<sigma> = (Inr s0, fs', \<sigma>')"
    and "run_events b evs (s0, \<sigma>') = (s, \<sigma>1)" "t = member_table (srv_membership s)"
  shows "(\<exists>live. wf_map live \<and> dom (lookup live) = last_alive_set (srv_membership s)
            \<and> ring (server_ring s) = ring (rebuild live default_virtual_nodes (empty_ring 0)))
       \<and> (\<forall>ev n s'. reports ev \<and> s' = fst (handle_event b ev (s, \<sigma>1)) \<and> n \<noteq> self_node_id (srv_membership s)
            \<and> lookup (member_table (srv_membership s')) n \<noteq> lookup t n \<longrightarrow> in_step s')
       \<and> (\<forall>evs'. in_step s \<and> (\<forall>ev \<in> set evs'. reports ev) \<longrightarrow> in_step (fst (run_events b evs' (s, \<sigma>1))))
       \<and> (in_step s \<and> dom (live_map t) \<noteq> {} \<longrightarrow> (\<forall>k. live_map t (getPrimaryNode (server_ring s) k) \<noteq> None))"
proof -
  have r: "reported_ring s" using reported_run [of "(s0, \<sigma>')" b evs] reported_boot [OF assms(1)] assms(2) by simp
  then have first: "\<exists>live. wf_map live \<and> dom (lookup live) = last_alive_set (srv_membership s)
      \<and> ring (server_ring s) = ring (rebuild live default_virtual_nodes (empty_ring 0))"
    and wf: "wf_map t"
    by (simp_all add: reported_ring_def Let_def assms(3) well_keyed_wf)
  have "\<forall>ev n s'. reports ev \<and> s' = fst (handle_event b ev (s, \<sigma>1)) \<and> n \<noteq> self_node_id (srv_membership s)
      \<and> lookup (member_table (srv_membership s')) n \<noteq> lookup t n \<longrightarrow> in_step s'"
    using event_reported(2) [OF r] unfolding assms(3) by blast
  moreover have "\<forall>evs'. in_step s \<and> (\<forall>ev \<in> set evs'. reports ev) \<longrightarrow> in_step (fst (run_events b evs' (s, \<sigma>1)))"
    using in_step_run [of "(s, \<sigma>1)" _ b] r by simp
  moreover have "\<forall>k. live_map t (getPrimaryNode (server_ring s) k) \<noteq> None" if "in_step s" "dom (live_map t) \<noteq> {}"
    using that live_primary [OF wf] by (simp add: in_step_def assms(3) Let_def)
  ultimately show ?thesis using first by blast
qed

subsection \<open>A silent node leaves the ring\<close>

text \<open>The node is not alive, and what is known of it is of the given generation and heartbeat.\<close>

definition silenced :: "node_id \<Rightarrow> u32 \<times> u64 \<Rightarrow> gossip \<Rightarrow> bool" where
  "silenced n v g \<longleftrightarrow> self_node_id g \<noteq> n \<and> (\<exists>k. known g n = Some k \<and> version k = v \<and> snd (snd k) \<noteq> ALIVE)"

text \<open>
  An event brings no news of the node: no message has a later generation or heartbeat of it, and the
  answer of a seed, which replaces what is known, says of it what is known.
\<close>

fun no_news :: "node_id \<Rightarrow> u32 \<times> u64 \<Rightarrow> server_event \<Rightarrow> bool" where
  "no_news n v (GossipRequest clk rs) = (\<forall>r \<in> set rs. mr_node_id r = n \<longrightarrow> version (rank_of r) \<le> v)"
| "no_news n v (Response clk rs) = (\<forall>r \<in> set rs. mr_node_id r = n \<longrightarrow> version (rank_of r) \<le> v)"
| "no_news n v (SeedAnswer clk rs) = (\<forall>r \<in> set rs. mr_node_id r = n \<longrightarrow> version (rank_of r) = v \<and> mr_status r \<noteq> ALIVE)"
| "no_news n v _ = True"

lemma silenced_rank:
  assumes "version k = v" "snd (snd k) \<noteq> ALIVE" "k \<le> k'" "version k' \<le> v"
  shows "version k' = v \<and> snd (snd k') \<noteq> ALIVE"
proof -
  have "version k' = v" using version_mono [OF assms(3)] assms(1,4) by simp
  then have "snd (snd k) \<le> snd (snd k')"
    using assms(1,3) by (auto simp: version_def less_eq_prod_def)
  with assms(2) \<open>version k' = v\<close> show ?thesis
    by (cases "snd (snd k)"; cases "snd (snd k')") (simp_all add: less_eq_NodeStatus_def)
qed

lemma silenced_merge:
  assumes "silenced n v g" "known_ge (known g' n) (known g n)" "self_node_id g' = self_node_id g"
    and "\<And>k'. known g' n = Some k' \<Longrightarrow> known g n = Some k' \<or> (\<exists>r \<in> set rs. mr_node_id r = n \<and> k' = rank_of r)"
    and "\<forall>r \<in> set rs. mr_node_id r = n \<longrightarrow> version (rank_of r) \<le> v"
  shows "silenced n v g'"
proof -
  obtain k where k: "known g n = Some k" "version k = v" "snd (snd k) \<noteq> ALIVE" "self_node_id g \<noteq> n"
    using assms(1) by (auto simp: silenced_def)
  then obtain k' where k': "known g' n = Some k'" "k \<le> k'"
    using assms(2) by (auto simp: known_ge_def split: option.splits)
  then have "version k' \<le> v" using assms(4) [OF k'(1)] assms(5) k(1,2) by auto
  from silenced_rank [OF k(2,3) k'(2) this] k'(1) k(4) assms(3) show ?thesis by (auto simp: silenced_def)
qed

lemma silenced_beat:
  assumes "silenced n v g"
  shows "silenced n v (fst (heartbeat_step now now' g))"
proof -
  have self: "self_node_id g \<noteq> n" using assms by (simp add: silenced_def)
  then have "known (update_self (beat now) g) n = known g n" by (simp add: known_update_self)
  then have ge: "known_ge (known (fst (heartbeat_step now now' g)) n) (known g n)"
    using known_detectFailures [of now' "update_self (beat now) g" n] by (simp add: heartbeat_step_def)
  obtain k where k: "known g n = Some k" "version k = v" "snd (snd k) \<noteq> ALIVE" using assms by (auto simp: silenced_def)
  then obtain k' where k': "known (fst (heartbeat_step now now' g)) n = Some k'" "k \<le> k'"
    using ge by (auto simp: known_ge_def split: option.splits)
  have "version k' = v" using known_beat_source [OF self k'(1)] k by auto
  then have "version k' \<le> v" by simp
  from silenced_rank [OF k(2,3) k'(2) this] k'(1) self show ?thesis by (auto simp: silenced_def)
qed

lemma silenced_seed:
  assumes "silenced n v g" "\<forall>r \<in> set rs. mr_node_id r = n \<longrightarrow> version (rank_of r) = v \<and> mr_status r \<noteq> ALIVE"
  shows "silenced n v (take_seed clk rs g)"
proof -
  have n: "n \<noteq> self_node_id g" using assms(1) by (auto simp: silenced_def)
  have "known (take_seed clk rs g) n = (if about_node n rs = [] then known g n else Some (last (about_node n rs)))"
    by (simp add: take_seed_def merge_seeds_rank [OF n])
  moreover have "k \<in> set (about_node n rs) \<Longrightarrow> version k = v \<and> snd (snd k) \<noteq> ALIVE" for k
    using assms(2) by (auto simp: about_node_def rank_of_def)
  ultimately show ?thesis
    using assms(1) last_in_set [of "about_node n rs"] n by (cases "about_node n rs = []") (simp_all add: silenced_def)
qed

lemma silenced_retire: "silenced n v g \<Longrightarrow> silenced n v (retire_self g)"
  by (auto simp: silenced_def retire_self_def known_update_self)

lemma silenced_event:
  assumes "silenced n v (srv_membership s)" "no_news n v ev"
  shows "silenced n v (srv_membership (fst (handle_event b ev (s, \<sigma>))))"
proof -
  have on: "srv_membership (on_change live s') = srv_membership s'" for live s'
    by (simp add: on_change_def split: option.split)
  show ?thesis
  proof (cases ev)
    case (GossipRequest clk rs)
    then show ?thesis
      using silenced_merge [OF assms(1) known_mergeView mergeView_table(2) known_mergeView_source, of clk rs] assms(2)
      by (simp add: on split_beta)
  next
    case (Response clk rs)
    then show ?thesis
      using silenced_merge [OF assms(1) known_round_response round_table(2) known_round_source, of clk rs] assms(2)
      by (simp add: on split_beta)
  next
    case (Beat now now')
    then show ?thesis using silenced_beat [OF assms(1)] by (simp add: on split_beta)
  next
    case (SeedAnswer clk rs)
    then show ?thesis using silenced_seed [OF assms(1)] assms(2) by simp
  next
    case Retire
    then show ?thesis using silenced_retire [OF assms(1)] by simp
  qed (use assms(1) in simp)
qed

lemma silenced_run:
  "silenced n v (srv_membership (fst so)) \<Longrightarrow> \<forall>ev \<in> set evs. no_news n v ev \<Longrightarrow>
   silenced n v (srv_membership (fst (run_events b evs so)))"
proof (induction evs arbitrary: so)
  case (Cons ev evs)
  have "silenced n v (srv_membership (fst (handle_event b ev so)))"
    using silenced_event [of n v "fst so" ev b "snd so"] Cons.prems by simp
  from Cons.IH [OF this] Cons.prems(2) show ?case by simp
qed simp

lemma silenced_not_live: "silenced n v g \<Longrightarrow> live_map (member_table g) n = None"
  by (auto simp: silenced_def live_map_def ranks_def rank_of_def split: option.split)

lemma overdue_silenced:
  assumes "lookup (member_table g) n = Some e" "self_node_id g \<noteq> n" "last_updated_ms e \<le> now'"
    and "0 \<le>s suspect_threshold_ms g" "sint (suspect_threshold_ms g) < uint now' - uint (last_updated_ms e)"
  shows "silenced n (mr_generation (entry_record e), mr_heartbeat (entry_record e)) (fst (heartbeat_step now now' g))"
proof -
  let ?u = "update_self (beat now) g"
  have "scast (suspect_threshold_ms g) < now' - last_updated_ms e"
    using assms(5) by (simp add: threshold_less [OF assms(4)] age_of [OF assms(3)])
  then have st: "mr_status (entry_record (fst (age_entry ?u now' e))) \<noteq> ALIVE"
    by (auto simp: age_entry_def Let_def)
  have v: "mr_generation (entry_record (fst (age_entry ?u now' e))) = mr_generation (entry_record e)"
    "mr_heartbeat (entry_record (fst (age_entry ?u now' e))) = mr_heartbeat (entry_record e)"
    by (simp_all add: age_entry_def Let_def)
  have "lookup (member_table ?u) n = Some e"
    using assms(1,2) by (simp add: update_self_def map_simps split: option.split)
  then have "known (fst (heartbeat_step now now' g)) n = Some (rank_of (entry_record (fst (age_entry ?u now' e))))"
    using assms(2) by (simp add: heartbeat_step_def ranks_def lookup_aged)
  then show ?thesis
    using st v assms(2) by (simp add: silenced_def version_def rank_of_def)
qed

text \<open>A silenced node that is not in the ring stays out of it.\<close>

lemma silenced_out_run:
  "reported_ring (fst so) \<Longrightarrow> silenced n v (srv_membership (fst so)) \<Longrightarrow> n \<notin> last_alive_set (srv_membership (fst so)) \<Longrightarrow>
   \<forall>ev \<in> set evs. no_news n v ev \<Longrightarrow> n \<notin> last_alive_set (srv_membership (fst (run_events b evs so)))"
proof (induction evs arbitrary: so)
  case (Cons ev evs)
  let ?so = "handle_event b ev so"
  have sil: "silenced n v (srv_membership (fst ?so))"
    using silenced_event [of n v "fst so" ev b "snd so"] Cons.prems by simp
  then have "n \<notin> dom (live_map (member_table (srv_membership (fst ?so))))" by (simp add: silenced_not_live domIff)
  then have "n \<notin> last_alive_set (srv_membership (fst ?so))"
    using event_reported(4) [OF Cons.prems(1) refl, where b = b and ev = ev and \<sigma> = "snd so"] Cons.prems(3) by auto
  moreover have "reported_ring (fst ?so)"
    using event_reported(1) [OF Cons.prems(1) refl, where b = b and ev = ev and \<sigma> = "snd so"] by simp
  ultimately show ?case using Cons.IH [of ?so] sil Cons.prems(4) by simp
qed simp

lemma primary_of_ring: "ring r \<noteq> [] \<Longrightarrow> getPrimaryNode r k \<in> tok_node_id ` set (ring r)"
  by (simp add: getPrimaryNode_walk hd_clockwise_in)

lemma overdue_changes:
  assumes "lookup (member_table g) n = Some e" "self_node_id g \<noteq> n" "mr_status (entry_record e) = ALIVE"
    "silenced n v (fst (heartbeat_step now now' g))"
  shows "lookup (member_table (fst (heartbeat_step now now' g))) n \<noteq> lookup (member_table g) n"
  using assms by (auto simp: silenced_def ranks_def rank_of_def)

text \<open>
  Claim C8: a crash is detected, and for good. In any reachable state of a server, when the entry of
  another node has not been renewed for longer than the suspect threshold, and the node is alive in the
  table (or no longer in the ring anyway), the next heartbeat takes the node out of the ring, and it
  stays out, through any further events, as long as no message brings a generation or heartbeat of it
  beyond the one already known: which, by the invariant of the network, no one has once the node has
  stopped. No key is then routed to it. It leaves the ring as a suspect: the code does not wait for the
  dead threshold.
\<close>

theorem crash_is_detected:
  assumes "boot_server b L w now0 args local_ip fs \<sigma> = (Inr s0, fs', \<sigma>')"
    and "run_events b evs (s0, \<sigma>') = (s, \<sigma>1)" "g = srv_membership s"
    and "n \<noteq> self_node_id g" "lookup (member_table g) n = Some e" "last_updated_ms e \<le> now'"
    and "mr_status (entry_record e) = ALIVE \<or> n \<notin> last_alive_set g"
    and "0 \<le>s suspect_threshold_ms g" "sint (suspect_threshold_ms g) < uint now' - uint (last_updated_ms e)"
    and "\<forall>ev \<in> set evs'. no_news n (mr_generation (entry_record e), mr_heartbeat (entry_record e)) ev"
    and "s' = fst (run_events b (Beat now now' # evs') (s, \<sigma>1))"
  shows "live_map (member_table (srv_membership s')) n = None
       \<and> n \<notin> tok_node_id ` set (ring (server_ring s'))
       \<and> (ring (server_ring s') \<noteq> [] \<longrightarrow> (\<forall>k. getPrimaryNode (server_ring s') k \<noteq> n))"
proof -
  let ?v = "(mr_generation (entry_record e), mr_heartbeat (entry_record e))"
  let ?so = "handle_event b (Beat now now') (s, \<sigma>1)"
  have on: "srv_membership (on_change live s') = srv_membership s'" for live s'
    by (simp add: on_change_def split: option.split)
  have r: "reported_ring s" using reported_run [of "(s0, \<sigma>')" b evs] reported_boot [OF assms(1)] assms(2) by simp
  have m: "srv_membership (fst ?so) = fst (heartbeat_step now now' g)" by (simp add: on split_beta assms(3))
  have sil: "silenced n ?v (srv_membership (fst ?so))"
    unfolding m using overdue_silenced [OF assms(5) _ assms(6,8,9), of now] assms(4) by simp
  have rep: "reported_ring (fst ?so)" by (rule event_reported(1) [OF r refl])
  have gone: "n \<notin> dom (live_map (member_table (srv_membership (fst ?so))))"
    using silenced_not_live [OF sil] by (simp add: domIff)
  have "n \<notin> last_alive_set (srv_membership (fst ?so))"
  proof (cases "mr_status (entry_record e) = ALIVE")
    case True
    have "lookup (member_table (srv_membership (fst ?so))) n \<noteq> lookup (member_table g) n"
      unfolding m by (rule overdue_changes [OF assms(5) _ True sil [unfolded m]]) (use assms(4) in simp)
    then have "in_step (fst ?so)"
      by (intro event_reported(2) [OF r refl]) (use assms(3,4) in simp_all)
    with gone show ?thesis by (simp add: in_step_def Let_def)
  next
    case False
    with gone assms(3,7) event_reported(4) [OF r refl, where b = b and ev = "Beat now now'" and \<sigma> = \<sigma>1]
    show ?thesis by auto
  qed
  from silenced_out_run [OF rep sil this assms(10)] have out: "n \<notin> last_alive_set (srv_membership s')"
    unfolding assms(11) by simp
  have "reported_ring s'" using reported_run [OF rep, of b evs'] by (simp add: assms(11))
  from ring_of_reported [OF this] out have ring: "n \<notin> tok_node_id ` set (ring (server_ring s'))" by simp
  have "live_map (member_table (srv_membership s')) n = None"
    using silenced_run [OF sil assms(10), of b] unfolding assms(11) fold_Cons comp_apply by (rule silenced_not_live)
  with ring primary_of_ring [of "server_ring s'"] show ?thesis by auto
qed

subsection \<open>A dead node that stays in the ring\<close>






subsection \<open>A concrete server\<close>

definition demo_args :: "cint \<Rightarrow> StorageMode \<Rightarrow> server_args" where
  "demo_args port mode = \<lparr>arg_protocol = ''tcp'', arg_port = port, arg_mem_size = 9, arg_storage_mode = mode\<rparr>"

abbreviation no_peer :: exchange where
  "no_peer \<equiv> \<lambda>ep view. Inl (rpc_error ep)"

definition booted_server :: "kv_store \<Rightarrow> node_id \<Rightarrow> endpoint \<Rightarrow> server" where
  "booted_server kv n ep =
     \<lparr>srv_kv = kv,
      srv_membership = (setChangeCallback (fst (new_membership Written n ep [] 3000 10000 0 demo_files)))\<lparr>running := True\<rparr>,
      server_ring = empty_ring 0, shutdown_signal = 0\<rparr>"

lemma demo_find: "findNodeId demo_lib demo_document ''h'' 5001 = Inr 1" "findNodeId demo_lib demo_document ''h'' 5002 = Inr (- 1)"
  by (simp_all add: findNodeId_def numeral_2_eq_2 split_colon_def)

lemma demo_boot:
  "boot_server roomy demo_lib Written 0 (demo_args 5001 MEMORY) ''h'' demo_files empty_os =
     (Inr (booted_server (memory_server 9 ''5001'' empty_os) 1 ''tcp://h:5001''),
      saveGeneration Written 1 (loadGeneration 1 demo_files + 1) demo_files, fresh_memory 9 ''5001'' empty_os)"
  by (simp add: boot_server_def demo_args_def demo_find get_instance_def new_memory_server booted_server_def Let_def
      server_address_def memory_server_def split_beta word_sless_alt)

lemma demo_member_table:
  "member_table (srv_membership (booted_server kv n ep)) =
     [(n, \<lparr>entry_record = \<lparr>mr_node_id = n, mr_endpoint = ep, mr_status = ALIVE, mr_heartbeat = 0,
        mr_generation = loadGeneration n demo_files + 1\<rparr>, last_updated_ms = 0\<rparr>)]"
  "self_node_id (srv_membership (booted_server kv n ep)) = n"
  "suspect_threshold_ms (srv_membership (booted_server kv n ep)) = 3000"
  by (simp_all add: booted_server_def setChangeCallback_def) (simp_all add: new_membership_def Let_def)

abbreviation demo_srv :: "server \<times> os" where
  "demo_srv \<equiv> (booted_server (memory_server 9 ''5001'' empty_os) 1 ''tcp://h:5001'', fresh_memory 9 ''5001'' empty_os)"

definition news7 :: MemberRecord where
  "news7 = \<lparr>mr_node_id = 7, mr_endpoint = ''tcp://h:5007'', mr_status = ALIVE, mr_heartbeat = 3, mr_generation = 1\<rparr>"

definition demo_srv7 :: server where
  "demo_srv7 = fst (handle_event roomy (GossipRequest (\<lambda>i. 100) [news7]) demo_srv)"

lemma demo_callback [simp]: "has_callback (srv_membership (booted_server kv n ep))"
  "last_alive_set (srv_membership (booted_server kv n ep)) = {}"
  by (simp_all add: booted_server_def setChangeCallback_def)

lemma demo_srv7_table:
  "member_table (srv_membership demo_srv7) =
     member_table (srv_membership (fst demo_srv)) @ [(7, \<lparr>entry_record = news7, last_updated_ms = 100\<rparr>)]"
  "last_alive_set (srv_membership demo_srv7) = {1, 7}" "self_node_id (srv_membership demo_srv7) = 1"
  "suspect_threshold_ms (srv_membership demo_srv7) = 3000"
  by (simp_all add: demo_srv7_def mergeView_def merge_record_def Let_def split_beta notify_if_def notifyChange_def
      on_change_def demo_member_table news7_def current_alive_def alive_entries_def split: option.split)

lemma demo_run7: "run_events roomy [GossipRequest (\<lambda>i. 100) [news7]] demo_srv = (demo_srv7, snd demo_srv)"
  by (simp add: demo_srv7_def split_beta)

theorem server_ring_follows_membership_witness:
  "in_step demo_srv7 \<and> live_map (member_table (srv_membership demo_srv7)) (getPrimaryNode (server_ring demo_srv7) 5) \<noteq> None"
proof -
  let ?b = "booted_server (memory_server 9 ''5001'' empty_os) 1 ''tcp://h:5001''"
  have e: "run_events roomy [] demo_srv = demo_srv" by simp
  have ch: "reports (GossipRequest (\<lambda>i. 100) [news7])" "demo_srv7 = fst (handle_event roomy (GossipRequest (\<lambda>i. 100) [news7]) demo_srv)"
    "(7 :: node_id) \<noteq> self_node_id (srv_membership ?b)"
    "lookup (member_table (srv_membership demo_srv7)) 7 \<noteq> lookup (member_table (srv_membership ?b)) 7"
    by (simp only: reports.simps, simp only: demo_srv7_def, simp_all add: demo_srv7_table demo_member_table)
  have step: "in_step demo_srv7"
    using server_ring_follows_membership [OF demo_boot e refl] ch by blast
  have "live_map (member_table (srv_membership demo_srv7)) 7 = Some ''tcp://h:5007''"
    by (simp add: demo_srv7_table demo_member_table live_map_def news7_def)
  then have "dom (live_map (member_table (srv_membership demo_srv7))) \<noteq> {}" by blast
  with step server_ring_follows_membership [OF demo_boot demo_run7 refl] show ?thesis by blast
qed

theorem crash_is_detected_witness:
  "7 \<notin> tok_node_id ` set (ring (server_ring (fst (run_events roomy
      (Beat 3101 3101 # [GossipRequest (\<lambda>i. 4000) [news7]]) (demo_srv7, snd demo_srv)))))"
proof -
  have e: "lookup (member_table (srv_membership demo_srv7)) 7 = Some \<lparr>entry_record = news7, last_updated_ms = 100\<rparr>"
    by (simp add: demo_srv7_table demo_member_table)
  show ?thesis
    using crash_is_detected [OF demo_boot demo_run7 refl _ e _ _ _ _ _ refl,
        of 3101 "[GossipRequest (\<lambda>i. 4000) [news7]]" 3101]
    by (simp add: demo_srv7_table news7_def word_sle_eq version_def rank_of_def)
qed


end
