(* ===== verification/ServerSetup.thy ===== *)
theory ServerSetup
  imports ServerClaims
begin

text \<open>
  What a server makes of its arguments and of the configuration: its memory size and its identity.
\<close>

subsection \<open>The memory size\<close>

text \<open>The platform represents the integers up to \<open>2 ^ 53\<close> exactly, as IEEE 754 prescribes.\<close>

definition exact_integers :: "platform \<Rightarrow> bool" where
  "exact_integers pf \<longleftrightarrow> (\<forall>i. 0 \<le> i \<and> i \<le> 2 ^ 53 \<longrightarrow> round_double pf (of_int i) = Inr (of_int i))"

lemma upcase_digit: "is_digit c \<Longrightarrow> upcase c = c"
  by (simp add: upcase_def is_digit_def Let_def)

lemma upcase_dec [simp]: "0 \<le> n \<Longrightarrow> map upcase (dec_string n) = dec_string n"
  by (simp add: map_idI upcase_digit dec_string_digits)

lemma digit_not_sign: "is_digit c \<Longrightarrow> c \<noteq> CHR ''-'' \<and> c \<noteq> CHR ''+''"
  by auto

lemma skip_sign_dec [simp]: "0 \<le> n \<Longrightarrow> skip_sign (dec_string n) = dec_string n"
  by (cases "dec_string n") (auto simp: skip_sign_def dest!: dec_string_Cons digit_not_sign)

lemma dropWhile_dec [simp]: "0 \<le> n \<Longrightarrow> dropWhile is_digit (dec_string n) = []"
  by (simp add: dec_string_digits)

lemma dropWhile_space_dec [simp]: "0 \<le> n \<Longrightarrow> dropWhile is_space (dec_string n) = dec_string n"
  by (cases "dec_string n") (auto dest!: dec_string_Cons not_space_digit)

lemma not_digits: "\<not> is_digit (CHR ''I'')" "\<not> is_digit (CHR ''N'')" "\<not> is_digit (CHR ''X'')" "\<not> is_digit (CHR ''.'')"
  "\<not> is_digit (CHR ''K'')" "\<not> is_digit (CHR ''M'')" "\<not> is_digit (CHR ''G'')"
  by code_simp+

lemma starts_with_in: "starts_with p s \<Longrightarrow> c \<in> set p \<Longrightarrow> c \<in> set s"
  unfolding starts_with_def by (metis in_set_takeD)

lemma not_special_dec: "0 \<le> n \<Longrightarrow> \<not> special_number (dec_string n)"
  using dec_string_digits [of n "CHR ''I''"] dec_string_digits [of n "CHR ''N''"] dec_string_digits [of n "CHR ''X''"]
    starts_with_in [of "''INF''" "dec_string n" "CHR ''I''"] starts_with_in [of "''NAN''" "dec_string n" "CHR ''N''"]
    starts_with_in [of "''0X''" "dec_string n" "CHR ''X''"]
  by (auto simp: special_number_def not_digits)

lemma starts_minus_dec: "0 \<le> n \<Longrightarrow> \<not> starts_with ''-'' (dec_string n)"
  using dec_string_digits [of n "CHR ''-''"] starts_with_in [of "''-''" "dec_string n" "CHR ''-''"] by auto

lemma starts_with_Nil [simp]: "\<not> starts_with (c # p) []"
  by (simp add: starts_with_def)

lemma stod_dec:
  assumes "exact_integers pf" "0 \<le> n" "n \<le> 2 ^ 53"
  shows "stod pf (dec_string n) = Inr (of_int n)"
  using assms
  by (simp add: stod_def Let_def not_special_dec starts_minus_dec exponent_def exact_integers_def)

lemma last_dec: "0 \<le> n \<Longrightarrow> last (dec_string n) \<notin> {CHR ''K'', CHR ''M'', CHR ''G''}"
  using dec_string_digits [of n "last (dec_string n)"] by (auto simp: not_digits)

lemma to_size_int: "0 \<le> i \<Longrightarrow> to_size (of_int i) = (if i < 2 ^ 64 then Some (word_of_int i) else None)"
  by (simp add: to_size_def)

text \<open>
  Claim C39: a decimal memory size is taken exactly. For every number up to 2^53, with no suffix or
  with K, M or G in either case (megabytes without one), the size is the number times its unit when
  that fits \<^verbatim>\<open>size_t\<close>; when it does not, the conversion of the \<^verbatim>\<open>double\<close> is undefined behaviour.
\<close>

theorem memory_size_exact:
  assumes "exact_integers pf" "0 \<le> n" "n \<le> 2 ^ 53"
    and "(suffix, unit) \<in> {([], 2 ^ 20), (''K'', 2 ^ 10), (''k'', 2 ^ 10), (''M'', 2 ^ 20), (''m'', 2 ^ 20), (''G'', 2 ^ 30), (''g'', 2 ^ 30)}"
  shows "parseMemorySize pf (dec_string n @ suffix) = (if n * unit < 2 ^ 64 then Some (word_of_int (n * unit)) else None)"
proof -
  have up: "upcase (CHR ''k'') = CHR ''K''" "upcase (CHR ''K'') = CHR ''K''" "upcase (CHR ''m'') = CHR ''M''"
    "upcase (CHR ''M'') = CHR ''M''" "upcase (CHR ''g'') = CHR ''G''" "upcase (CHR ''G'') = CHR ''G''"
    by code_simp+
  have scale: "to_size (of_int n * of_int u) = (if n * u < 2 ^ 64 then Some (word_of_int (n * u)) else None)" if "0 \<le> u" for u
    using to_size_int [of "n * u"] assms(2) that by simp
  note s = scale [of 1024] scale [of 1048576] scale [of 1073741824]
  from assms(4) consider "suffix = []" "unit = 2 ^ 20" | c where "suffix = [c]" "c \<in> {CHR ''K'', CHR ''k''}" "unit = 2 ^ 10"
    | c where "suffix = [c]" "c \<in> {CHR ''M'', CHR ''m''}" "unit = 2 ^ 20"
    | c where "suffix = [c]" "c \<in> {CHR ''G'', CHR ''g''}" "unit = 2 ^ 30" by auto
  then show ?thesis
    using s up last_dec [OF assms(2)] assms(2) stod_dec [OF assms(1-3)]
    by cases (auto simp: parseMemorySize_def Let_def unit_bytes_def)
qed

theorem memory_size_exact_witness:
  "parseMemorySize \<lparr>round_double = Inr, stod_special = (\<lambda>s. Inl (invalid_argument s))\<rparr> (dec_string 3 @ ''g'') = Some 3221225472"
  using memory_size_exact [of "\<lparr>round_double = Inr, stod_special = (\<lambda>s. Inl (invalid_argument s))\<rparr>" 3 "''g''" "2 ^ 30"]
  by (simp add: exact_integers_def)

subsection \<open>Identity\<close>

lemma split_colon_exact:
  assumes "CHR '':'' \<notin> set ip"
  shows "split_colon ep = Some (ip, '':'' @ port) \<longleftrightarrow> ep = ip @ '':'' @ port"
proof
  assume "split_colon ep = Some (ip, '':'' @ port)"
  then have "takeWhile (\<lambda>c. c \<noteq> CHR '':'') ep = ip" "dropWhile (\<lambda>c. c \<noteq> CHR '':'') ep = '':'' @ port"
    by (simp_all add: split_colon_def split: if_splits)
  then show "ep = ip @ '':'' @ port" by (metis takeWhile_dropWhile_id)
next
  assume e: "ep = ip @ '':'' @ port"
  have a: "\<And>c. c \<in> set ip \<Longrightarrow> c \<noteq> CHR '':''" using assms by auto
  show "split_colon ep = Some (ip, '':'' @ port)"
    unfolding e split_colon_def by (simp add: takeWhile_append2 [OF a] dropWhile_append2 [OF a])
qed

lemma find_from_least:
  assumes "\<And>j. i \<le> j \<Longrightarrow> j < i + n \<Longrightarrow> f (of_nat j) = Inr (ep j)" "CHR '':'' \<notin> set ip"
  shows "find_from f ip ('':'' @ port) i n =
     Inr (if \<exists>j. i \<le> j \<and> j < i + n \<and> ep j = ip @ '':'' @ port
          then of_nat (LEAST j. i \<le> j \<and> ep j = ip @ '':'' @ port) else - 1)"
  using assms(1)
proof (induction n arbitrary: i)
  case (Suc n)
  have f: "f (of_nat i) = Inr (ep i)" using Suc.prems [of i] by simp
  show ?case
  proof (cases "ep i = ip @ '':'' @ port")
    case True
    then have "(LEAST j. i \<le> j \<and> ep j = ip @ '':'' @ port) = i" by (intro Least_equality) auto
    moreover have "\<exists>j. i \<le> j \<and> j < i + Suc n \<and> ep j = ip @ '':'' @ port" using True by auto
    moreover have "split_colon (ep i) = Some (ip, '':'' @ port)" using True split_colon_exact [OF assms(2)] by blast
    ultimately show ?thesis by (simp add: f del: append.simps)
  next
    case False
    then have "split_colon (ep i) \<noteq> Some (ip, '':'' @ port)" using split_colon_exact [OF assms(2)] by blast
    moreover have pt: "i \<le> j \<and> ep j = ip @ '':'' @ port \<longleftrightarrow> Suc i \<le> j \<and> ep j = ip @ '':'' @ port" for j
      using False by (cases "j = i") auto
    moreover have "(\<exists>j. i \<le> j \<and> j < i + Suc n \<and> ep j = ip @ '':'' @ port)
        \<longleftrightarrow> (\<exists>j. Suc i \<le> j \<and> j < Suc i + n \<and> ep j = ip @ '':'' @ port)"
      unfolding add_Suc add_Suc_right using pt by blast
    moreover have "f (of_nat j) = Inr (ep j)" if "Suc i \<le> j" "j < Suc i + n" for j
      using Suc.prems that by simp
    ultimately show ?thesis using Suc.IH [of "Suc i"] by (simp only: find_from.simps f and_then_simps if_False)
  qed
qed auto

lemma minus_negative: "(- 1 :: cint) <s 0"
  by (simp add: word_sless_alt)

lemma sint_of_nat_small:
  assumes "m < 2 ^ 31"
  shows "sint (of_nat m :: cint) = int m"
proof -
  have "sint (of_nat m :: cint) = signed_take_bit 31 (int m)"
    using sint_sbintrunc' [of "int m", where 'a = 32] by simp
  also have "\<dots> = int m" using assms by (intro signed_take_bit_int_eq_self) simp_all
  finally show ?thesis .
qed

text \<open>
  Claim C40: the identity of a server. With the configured endpoints readable and a local address
  without a colon, a server that starts is the first node whose endpoint is exactly its address and
  port; when none is, it takes the identity 0 all the same, so that it and the configured node 0 (and
  any other server that is not listed) share one identity.
\<close>

theorem server_identity:
  assumes "boot_server b L w now args local_ip fs \<sigma> = (Inr s, fs', \<sigma>')"
    and "open_config L fs ''config/config.json'' = Inr config" "read_count L config = Inr cnt"
    and "\<forall>i < nat (sint cnt). get_endpoint L config (of_nat i) = Inr (ep i)" "CHR '':'' \<notin> set local_ip"
    and "own = local_ip @ '':'' @ to_string (arg_port args)"
  shows "self_node_id (srv_membership s) = (if \<exists>i < nat (sint cnt). ep i = own then of_nat (LEAST i. ep i = own) else 0)"
proof -
  let ?n = "nat (sint cnt)"
  have "find_from (get_endpoint L config) local_ip ('':'' @ to_string (arg_port args)) 0 ?n =
     Inr (if \<exists>i < ?n. ep i = own then of_nat (LEAST i. ep i = own) else - 1)"
    using find_from_least [of 0 ?n "get_endpoint L config" ep local_ip "to_string (arg_port args)"] assms(4,5)
    unfolding assms(6) by (simp only: le0 simp_thms add_0)
  then have f: "findNodeId L config local_ip (arg_port args) = Inr (if \<exists>i < ?n. ep i = own then of_nat (LEAST i. ep i = own) else - 1)"
    unfolding findNodeId_def using assms(3) by (simp only: and_then_simps)
  have id: "self_node_id (srv_membership s) = (if r <s 0 then 0 else r)"
    if "findNodeId L config local_ip (arg_port args) = Inr r" for r
    using assms(1,2) that
    by (auto simp: boot_server_def setChangeCallback_def new_membership_def Let_def and_then_Inr_iff
        split: sum.splits prod.splits)
  show ?thesis
  proof (cases "\<exists>i < ?n. ep i = own")
    case True
    then obtain i where "i < ?n" "ep i = own" by blast
    then have "(LEAST i. ep i = own) < ?n" using Least_le [of "\<lambda>i. ep i = own" i] by linarith
    moreover have "sint cnt < 2 ^ 31" using sint_lt [of cnt] by simp
    ultimately have small: "(LEAST i. ep i = own) < 2 ^ 31" by simp
    then have "sint (of_nat (LEAST i. ep i = own) :: cint) = int (LEAST i. ep i = own)"
      by (simp add: sint_of_nat_small)
    then have "\<not> (of_nat (LEAST i. ep i = own) :: cint) <s 0" by (simp add: word_sless_alt)
    then show ?thesis using id [OF f] True by simp
  next
    case False
    show ?thesis using id [OF f] by (simp only: if_not_P [OF False] minus_negative if_True)
  qed
qed

lemma demo_boot_unlisted:
  "boot_server roomy demo_lib Written 0 (demo_args 5002 MEMORY) ''h'' demo_files empty_os =
     (Inr (booted_server (memory_server 9 ''5002'' empty_os) 0 ''tcp://h:5002''),
      saveGeneration Written 0 (loadGeneration 0 demo_files + 1) demo_files, fresh_memory 9 ''5002'' empty_os)"
  by (simp add: boot_server_def demo_args_def demo_find get_instance_def new_memory_server booted_server_def Let_def
      server_address_def memory_server_def split_beta word_sless_alt)

theorem server_identity_witness:
  "self_node_id (srv_membership (booted_server (memory_server 9 ''5002'' empty_os) 0 ''tcp://h:5002'')) = 0"
proof -
  have "\<forall>i < nat (sint (2 :: cint)). get_endpoint demo_lib demo_document (of_nat i)
      = Inr (if i = 0 then ''h:5000'' else ''h:5001'')"
    by (auto simp: less_Suc_eq numeral_2_eq_2)
  from server_identity [OF demo_boot_unlisted demo_config(1,2) this _ refl]
  show ?thesis by (simp add: demo_args_def split: if_splits)
qed

end
