(* ===== verification/ServerShutdown.thy ===== *)
theory ServerShutdown
  imports ServerClaims
begin

text \<open>
  The end of a server process and what the next one on the same tag finds: a clean shutdown, a
  second signal, and a crash of the machine.
\<close>

fun store_commands :: "server_event list \<Rightarrow> kv_command list" where
  "store_commands [] = []"
| "store_commands (KvRequest c # evs) = c # store_commands evs"
| "store_commands (_ # evs) = store_commands evs"

lemma on_change_kv [simp]: "srv_kv (on_change live s) = srv_kv s" "shutdown_signal (on_change live s) = shutdown_signal s"
  by (simp_all add: on_change_def split: option.split)

text \<open>The events act on the storage as the store operations among them.\<close>

lemma run_events_store:
  "srv_kv (fst (run_events b evs (s, \<sigma>))) = srv_kv s
   \<and> shutdown_signal (fst (run_events b evs (s, \<sigma>))) = shutdown_signal s
   \<and> snd (run_events b evs (s, \<sigma>)) = snd (run_commands (exec b (srv_kv s)) (store_commands evs) \<sigma>)"
proof (induction evs arbitrary: s \<sigma>)
  case (Cons ev evs)
  then show ?case by (cases ev) (simp_all add: split_beta Let_def)
qed simp

lemma boot_persistent:
  assumes "boot_server b L w now args local_ip fs \<sigma> = (Inr s, fs', \<sigma>')"
    and "reliable b" "flush_works b" "arg_storage_mode args = PERSISTENT" "sound_file (to_string (arg_port args)) \<sigma>"
  shows "backed (to_string (arg_port args)) (srv_kv s) \<sigma>'" "conn_mode (srv_kv s) = SERVER" "shutdown_signal s = 0"
proof -
  let ?tag = "to_string (arg_port args)"
  have g: "get_instance b None (arg_mem_size args) PERSISTENT SERVER ?tag \<sigma> = (Inr (srv_kv s), \<sigma>')" and "shutdown_signal s = 0"
    by (rule boot_serverE [OF assms(1)], simp add: assms(4))+
  define sz where "sz = (if 0 < arg_mem_size args then arg_mem_size args else DEFAULT_MEMORY_SIZE)"
  have "new_store b sz PERSISTENT SERVER ?tag \<sigma> = (Inr (srv_kv s), \<sigma>')"
    using g unfolding get_instance_def sz_def by (simp only: option.case)
  from started_backed [OF assms(2,3,5) this]
  show "backed ?tag (srv_kv s) \<sigma>'" "conn_mode (srv_kv s) = SERVER" by simp_all
  show "shutdown_signal s = 0" by fact
qed

lemma backed_events:
  assumes "flush_works b" "backed tag (srv_kv s) \<sigma>"
  shows "srv_kv (fst (run_events b evs (s, \<sigma>))) = srv_kv s \<and> backed tag (srv_kv s) (snd (run_events b evs (s, \<sigma>)))"
  using run_events_store [of b evs s \<sigma>] backed_run [OF assms] by simp

lemma backed_Sync: "flush_works b \<Longrightarrow> backed tag s \<sigma> \<Longrightarrow> backed tag s (Sync b s \<sigma>)"
  by (elim backedE)
    (simp add: backed_def attached_def map_ptr_def storage_def, simp add: Sync_def flush_def flush_works_def synced_def)

text \<open>
  Claim C27: of the ways a persistent server can end, the clean one loses its data. After any run, a
  first signal makes the watcher announce the departure, ask for the store to be flushed and finalize;
  whatever requests are still served then, the return from \<^verbatim>\<open>main\<close> destroys the map, and the next
  server on the port starts empty. When a second signal ends the process at once, the next server has
  every entry. When the machine crashes, it has the entries of the moment at which the system last
  carried out all the requests to write back, and what was stored after it is lost. The data file was
  missing or sound at the start, and no request to write back is refused.
\<close>

theorem clean_shutdown_loses_kill_keeps:
  assumes "boot_server b L w now args local_ip fs \<sigma>0 = (Inr s0, fs', \<sigma>1)"
    and "reliable b" "flush_works b" "arg_storage_mode args = PERSISTENT" "tag = to_string (arg_port args)"
    and "sound_file tag \<sigma>0" "run_events b evs (s0, \<sigma>1) = (s, \<sigma>)" "sig \<noteq> 0"
  shows "\<exists>s1. handleShutdownSignal sig s = Some s1
       \<and> (\<exists>s2 \<sigma>2. shutdown_watcher b send2 rnd clk2 (s1, \<sigma>) = Some (s2, \<sigma>2)
            \<and> (\<exists>s3 \<sigma>3. new_store b sz PERSISTENT SERVER tag
                    (snd (exit_main b send3 rnd3 clk3 (run_events b evs2 (s2, \<sigma>2)))) = (Inr s3, \<sigma>3)
                  \<and> attached s3 \<sigma>3 \<and> contents s3 \<sigma>3 = Map.empty))
       \<and> handleShutdownSignal sig' s1 = None
       \<and> (\<exists>s3 \<sigma>3. new_store b sz PERSISTENT SERVER tag \<sigma> = (Inr s3, \<sigma>3)
            \<and> attached s3 \<sigma>3 \<and> contents s3 \<sigma>3 = contents (srv_kv s) \<sigma>)
       \<and> (\<exists>s3 \<sigma>3. new_store b sz PERSISTENT SERVER tag
              (machine_crash (snd (run_events b evs3 (s, write_back (flush_requested \<sigma>) \<sigma>)))) = (Inr s3, \<sigma>3)
            \<and> attached s3 \<sigma>3 \<and> contents s3 \<sigma>3 = contents (srv_kv s) \<sigma>)"
proof -
  note boot = boot_persistent [OF assms(1-4) assms(6) [unfolded assms(5)], folded assms(5)]
  have kv: "srv_kv s = srv_kv s0" "shutdown_signal s = 0"
    using run_events_store [of b evs s0 \<sigma>1] assms(7) boot(3) by simp_all
  have d: "backed tag (srv_kv s) \<sigma>" using backed_events [OF assms(3) boot(1), of evs] assms(7) kv(1) by simp
  let ?s1 = "s\<lparr>shutdown_signal := sig\<rparr>"
  have sig: "handleShutdownSignal sig s = Some ?s1" "handleShutdownSignal sig' ?s1 = None"
    using kv(2) assms(8) by (simp_all add: handleShutdownSignal_def)
  obtain s2 \<sigma>2 where w: "shutdown_watcher b send2 rnd clk2 (?s1, \<sigma>) = Some (s2, \<sigma>2)" "srv_kv s2 = srv_kv s"
      "\<sigma>2 = Sync b (srv_kv s) \<sigma>"
    using assms(8) by (auto simp: shutdown_watcher_def prefinalize_def split_beta)
  have "backed tag (srv_kv s2) \<sigma>2" unfolding w(2,3) by (rule backed_Sync [OF assms(3) d])
  note served = backed_events [OF assms(3) this, of evs2]
  have "snd (exit_main b send3 rnd3 clk3 so) = destroy_store b (srv_kv (fst so)) (snd so)" for so
    by (simp add: exit_main_def split_beta)
  then have "\<exists>s3 \<sigma>3. new_store b sz PERSISTENT SERVER tag
        (snd (exit_main b send3 rnd3 clk3 (run_events b evs2 (s2, \<sigma>2)))) = (Inr s3, \<sigma>3)
      \<and> attached s3 \<sigma>3 \<and> contents s3 \<sigma>3 = Map.empty"
    using restart_after_destroy [OF assms(2)] served boot(2) kv(1) w(2) by simp
  moreover have "snd (run_events b evs3 (s, write_back (flush_requested \<sigma>) \<sigma>))
      = snd (run_commands (exec b (srv_kv s)) (store_commands evs3) (write_back (flush_requested \<sigma>) \<sigma>))"
    using run_events_store [of b evs3 s] by simp
  ultimately show ?thesis using sig w(1) restart_same_file [OF assms(2) d] restart_after_crash [OF assms(2) d] by blast
qed

lemma demo_boot_persistent:
  "boot_server roomy demo_lib Written 0 (demo_args 5001 PERSISTENT) ''h'' demo_files empty_os =
     (Inr (booted_server (persistent_server 9 ''5001'' empty_os) 1 ''tcp://h:5001''),
      saveGeneration Written 1 (loadGeneration 1 demo_files + 1) demo_files, fresh_file roomy 9 ''5001'' empty_os)"
proof -
  have "new_store roomy 9 PERSISTENT SERVER ''5001'' empty_os
      = (Inr (persistent_server 9 ''5001'' empty_os), fresh_file roomy 9 ''5001'' empty_os)"
    unfolding persistent_server_def by (rule new_persistent_fresh) (simp_all add: empty_os_def)
  then show ?thesis
    by (simp add: boot_server_def demo_args_def demo_find get_instance_def booted_server_def Let_def
        server_address_def split_beta word_sless_alt)
qed

abbreviation demo_kept :: "server \<times> os" where
  "demo_kept \<equiv> run_events roomy [KvRequest (InsertCmd 1 ''a'')]
     (booted_server (persistent_server 9 ''5001'' empty_os) 1 ''tcp://h:5001'', fresh_file roomy 9 ''5001'' empty_os)"

theorem clean_shutdown_loses_kill_keeps_witness:
  "(\<exists>s2 \<sigma>2 s3 \<sigma>3. shutdown_watcher roomy no_peer (\<lambda>m. 0) (\<lambda>i. 0) ((fst demo_kept)\<lparr>shutdown_signal := 2\<rparr>, snd demo_kept) = Some (s2, \<sigma>2)
      \<and> new_store roomy 9 PERSISTENT SERVER ''5001''
          (snd (exit_main roomy no_peer (\<lambda>m. 0) (\<lambda>i. 0) (run_events roomy [] (s2, \<sigma>2)))) = (Inr s3, \<sigma>3)
      \<and> contents s3 \<sigma>3 = Map.empty)
   \<and> (\<exists>s3 \<sigma>3. new_store roomy 9 PERSISTENT SERVER ''5001''
          (machine_crash (snd (run_events roomy [KvRequest (DeleteCmd 1)]
             (fst demo_kept, write_back (flush_requested (snd demo_kept)) (snd demo_kept))))) = (Inr s3, \<sigma>3)
      \<and> contents s3 \<sigma>3 = contents (srv_kv (fst demo_kept)) (snd demo_kept))"
proof -
  have f: "sound_file ''5001'' empty_os" by (simp add: sound_file_def empty_os_def)
  have a: "arg_storage_mode (demo_args 5001 PERSISTENT) = PERSISTENT" "''5001'' = to_string (arg_port (demo_args 5001 PERSISTENT))"
    by (simp_all add: demo_args_def)
  have two: "(2 :: cint) \<noteq> 0" by simp
  have r: "demo_kept = (fst demo_kept, snd demo_kept)" by simp
  have k: "handleShutdownSignal 2 (fst demo_kept) = Some s1 \<Longrightarrow> s1 = (fst demo_kept)\<lparr>shutdown_signal := 2\<rparr>" for s1
    by (simp add: handleShutdownSignal_def split: if_splits)
  from clean_shutdown_loses_kill_keeps [OF demo_boot_persistent reliable_roomy flush_works_roomy a f r two,
      of no_peer "\<lambda>m. 0" "\<lambda>i. 0" 9 no_peer "\<lambda>m. 0" "\<lambda>i. 0" "[]" 3 "[KvRequest (DeleteCmd 1)]"]
  show ?thesis using k by blast
qed

end
