(* ===== verification/Benchmark.thy ===== *)
theory Benchmark
  imports Complex_Main Distributor
begin

text \<open>
  The two benchmarks of \<^verbatim>\<open>src/main_client.cpp\<close>: 10000 insertions of random values, 10000 fetches in
  sequence or at random, and the figures printed at the end. The draws of the random generators, the
  readings of the clock, the rounding of a \<^verbatim>\<open>double\<close> and the format \<^verbatim>\<open>fixed\<close> with four digits belong to
  the platform and are a parameter; a \<^verbatim>\<open>double\<close> is the rational number it stands for.
\<close>

record bench_env =
  draw_char :: "nat \<Rightarrow> nat \<Rightarrow> nat"
  draw_key :: "nat \<Rightarrow> nat"
  insertion_ms :: int
  fetch_us :: "nat \<Rightarrow> int"
  fetching_ms :: int
  to_double :: "rat \<Rightarrow> rat"
  fixed4 :: "rat \<Rightarrow> string"

definition charset :: string where
  "charset = ''abcdefghijklmnopqrstuvwxyzABCDEFGHIJKLMNOPQRSTUVWXYZ0123456789''"

definition generateRandomString :: "(nat \<Rightarrow> nat) \<Rightarrow> nat \<Rightarrow> string" where
  "generateRandomString draw len = map (\<lambda>i. charset ! draw i) [0..<len]"

definition NUM_OPERATIONS :: nat where
  "NUM_OPERATIONS = 10000"

definition VALUE_SIZE :: nat where
  "VALUE_SIZE = 3"

subsection \<open>The two phases\<close>

text \<open>\<^verbatim>\<open>for(int i = 1; i <= NUM_OPERATIONS; ++i)\<close>, given the list of its indices.\<close>

fun insert_all :: "'w access \<Rightarrow> bench_env \<Rightarrow> nat list \<Rightarrow> kv_distributor \<times> 'w \<Rightarrow> kv_distributor \<times> 'w" where
  "insert_all A R [] dw = dw"
| "insert_all A R (i # is) (d, w) =
     insert_all A R is (insert_key A (of_nat i) (generateRandomString (draw_char R i) VALUE_SIZE) d w)"

text \<open>\<^verbatim>\<open>static_cast<double>(single_fetch_duration.count()) / 1000.0\<close>\<close>

definition fetch_time_ms :: "bench_env \<Rightarrow> nat \<Rightarrow> rat" where
  "fetch_time_ms R i = to_double R (to_double R (of_int (fetch_us R i)) / 1000)"

text \<open>The times of the fetches that return, whatever they return.\<close>

fun fetch_all :: "'w access \<Rightarrow> bench_env \<Rightarrow> key list \<Rightarrow> rat list \<Rightarrow> kv_distributor \<times> 'w \<Rightarrow> rat list \<times> kv_distributor \<times> 'w" where
  "fetch_all A R [] ts dw = (ts, dw)"
| "fetch_all A R (k # ks) ts (d, w) =
     (let (v, d, w) = get A k d w in fetch_all A R ks (ts @ [fetch_time_ms R (length ts)]) (d, w))"

subsection \<open>The figures\<close>

definition accumulate :: "bench_env \<Rightarrow> rat list \<Rightarrow> rat" where
  "accumulate R ts = foldl (\<lambda>a x. to_double R (a + x)) 0 ts"

definition average :: "bench_env \<Rightarrow> rat list \<Rightarrow> rat" where
  "average R ts = to_double R (accumulate R ts / to_double R (of_nat (length ts)))"

definition min_element :: "rat list \<Rightarrow> rat" where
  "min_element ts = fold min (tl ts) (hd ts)"

definition max_element :: "rat list \<Rightarrow> rat" where
  "max_element ts = fold max (tl ts) (hd ts)"

definition nat_string :: "nat \<Rightarrow> string" where
  "nat_string n = dec_string (int n)"

definition in_ms :: "string \<Rightarrow> string \<Rightarrow> string" where
  "in_ms label figure = label @ '': '' @ figure @ '' ms''"

text \<open>The sequential benchmark prints a heading before each group of figures.\<close>

definition results :: "bench_env \<Rightarrow> string \<Rightarrow> bool \<Rightarrow> rat list \<Rightarrow> string list" where
  "results R pattern headings ts =
     (if ts = [] then []
      else [[], ''=== '' @ pattern @ '' BENCHMARK RESULTS ==='']
        @ (if headings then [''--- INSERTION METRICS ---''] else [])
        @ [in_ms ''Total insertion time'' (int_string (insertion_ms R)),
           in_ms ''Average insertion time per operation''
             (fixed4 R (to_double R (to_double R (of_int (insertion_ms R)) / of_nat NUM_OPERATIONS)))]
        @ (if headings then [''--- OVERALL FETCH METRICS ---''] else [])
        @ [in_ms ''Total fetch time'' (int_string (fetching_ms R)),
           in_ms ''Average fetch time'' (fixed4 R (average R ts)),
           in_ms ''Minimum fetch time'' (fixed4 R (min_element ts)),
           in_ms ''Maximum fetch time'' (fixed4 R (max_element ts)),
           ''Successful fetches: '' @ nat_string (length ts) @ ''/'' @ nat_string NUM_OPERATIONS])"

definition bench_lines :: "string \<Rightarrow> string \<Rightarrow> string list" where
  "bench_lines title manner =
     [[], ''=== '' @ title @ '' ==='', ''Inserting '' @ nat_string NUM_OPERATIONS @ '' key-value pairs...'',
      ''Insertion completed!'', [], ''Fetching '' @ nat_string NUM_OPERATIONS @ '' key-value pairs '' @ manner @ ''...'']"

definition benchmark :: "'w access \<Rightarrow> bench_env \<Rightarrow> kv_distributor \<Rightarrow> 'w \<Rightarrow> string list \<times> kv_distributor \<times> 'w" where
  "benchmark A R d w =
     (let (ts, d, w) = fetch_all A R (map of_nat [1..<Suc NUM_OPERATIONS]) [] (insert_all A R [1..<Suc NUM_OPERATIONS] (d, w))
      in (bench_lines ''BENCHMARK (Sequential Fetch Pattern)'' ''sequentially'' @ results R ''SEQUENTIAL'' True ts, d, w))"

definition benchmark1 :: "'w access \<Rightarrow> bench_env \<Rightarrow> kv_distributor \<Rightarrow> 'w \<Rightarrow> string list \<times> kv_distributor \<times> 'w" where
  "benchmark1 A R d w =
     (let (ts, d, w) = fetch_all A R (map (\<lambda>i. of_nat (draw_key R i)) [0..<NUM_OPERATIONS]) []
                         (insert_all A R [1..<Suc NUM_OPERATIONS] (d, w))
      in (bench_lines ''BENCHMARK1 (Random Fetch Pattern)'' ''randomly'' @ results R ''RANDOM'' False ts, d, w))"

subsection \<open>Facts\<close>

text \<open>Every fetch is counted as successful, whatever the cluster answers.\<close>

lemma fetch_all_counts: "length (fst (fetch_all A R ks ts dw)) = length ts + length ks"
proof (induction A R ks ts dw rule: fetch_all.induct)
  case (2 A R k ks ts d w)
  obtain v d' w' where "get A k d w = (v, d', w')" by (metis prod_cases3)
  with 2 show ?case by simp
qed simp

lemma results_last: "ts \<noteq> [] \<Longrightarrow> last (results R pattern headings ts) =
    ''Successful fetches: '' @ nat_string (length ts) @ ''/'' @ nat_string NUM_OPERATIONS"
  by (simp add: results_def)

lemma benchmark_counts_all:
  "last (fst (benchmark A R d w)) = ''Successful fetches: 10000/10000''"
  "last (fst (benchmark1 A R d w)) = ''Successful fetches: 10000/10000''"
proof -
  have n: "nat_string NUM_OPERATIONS = ''10000''" by code_simp
  have one: "last (L @ results R p h ts) = ''Successful fetches: 10000/10000''" if "length ts = NUM_OPERATIONS" for L p h ts
  proof -
    have "ts \<noteq> []" using that by (auto simp: NUM_OPERATIONS_def)
    moreover from this have "results R p h ts \<noteq> []" by (simp add: results_def)
    ultimately show ?thesis using results_last [of ts R p h] that n by simp
  qed
  show "last (fst (benchmark A R d w)) = ''Successful fetches: 10000/10000''"
    "last (fst (benchmark1 A R d w)) = ''Successful fetches: 10000/10000''"
    by (simp_all only: benchmark_def benchmark1_def split_beta Let_def fst_conv) (rule one, simp add: fetch_all_counts)+
qed

lemma min_max_element: "ts \<noteq> [] \<Longrightarrow> min_element ts = Min (set ts) \<and> max_element ts = Max (set ts)"
  by (cases ts) (simp_all add: min_element_def max_element_def Min.set_eq_fold Max.set_eq_fold del: set_simps)

end
