(* ===== verification/ClientMain.thy ===== *)
theory ClientMain
  imports Benchmark ClusterStore KvLifecycle
begin

text \<open>
  \<^verbatim>\<open>src/main_client.cpp\<close>: the interactive client. Its start, the commands, the loop over the lines of
  the standard input, the background refresh of the membership, and the process from its start to its
  exit. A line is what \<^verbatim>\<open>getline\<close> leaves: the empty string at the end of the input. The banner, the prompts
  and the log lines are left out.
\<close>

subsection \<open>Text\<close>

function words_of :: "string \<Rightarrow> string list" where
  "words_of s =
     (let t = dropWhile is_space s in
      if t = [] then [] else takeWhile (\<lambda>c. \<not> is_space c) t # words_of (dropWhile (\<lambda>c. \<not> is_space c) t))"
  by pat_completeness auto
termination
proof (relation "measure length")
  fix s t :: string
  assume t: "t = dropWhile is_space s" "t \<noteq> []"
  then have "\<not> is_space (hd t)" by (metis hd_dropWhile)
  then have "length (dropWhile (\<lambda>c. \<not> is_space c) t) < length t"
    using t(2) by (cases t) (simp_all add: le_imp_less_Suc length_dropWhile_le)
  moreover have "length t \<le> length s" unfolding t(1) by (rule length_dropWhile_le)
  ultimately show "(dropWhile (\<lambda>c. \<not> is_space c) t, s) \<in> measure length" by simp
qed simp

declare words_of.simps [simp del]

definition parseCommand :: "string \<Rightarrow> string list" where
  "parseCommand command = words_of command"

text \<open>The words of a value, separated by one space each.\<close>

fun join_words :: "string list \<Rightarrow> string" where
  "join_words [] = []"
| "join_words [w] = w"
| "join_words (w # ws) = w @ '' '' @ join_words ws"

text \<open>The part behind the last colon; none without one.\<close>

definition node_tag :: "endpoint \<Rightarrow> string" where
  "node_tag ep = (if CHR '':'' \<in> set ep then rev (takeWhile (\<lambda>c. c \<noteq> CHR '':'') (rev ep)) else [])"

definition parse_client_mode :: "string \<Rightarrow> StorageMode" where
  "parse_client_mode line = (if map downcase line = ''persistent'' then PERSISTENT else MEMORY)"

definition help_text :: "string list" where
  "help_text =
     [[], ''Distributed Key-Value Store Commands:'', ''===================================='',
      ''  put <key> <value>        - Store a key-value pair'',
      ''  get <key>                - Get a value for a key'',
      ''  update <key> <value>     - Update an existing key-value pair'',
      ''  delete <key>             - Delete a key-value pair'',
      ''  benchmark                - To run with sequential fetch pattern'',
      ''  benchmark1               - Run benchmark with random fetch pattern'',
      ''  help                     - Show this help message'',
      ''  exit                     - Exit the program'']"

definition unknown_command :: string where
  "unknown_command = ''Unknown command. Type '' @ [CHR 0x27] @ ''help'' @ [CHR 0x27] @ '' for available commands.''"

subsection \<open>Commands\<close>

text \<open>The lines a command prints and the state it leaves; \<open>None\<close> for \<^verbatim>\<open>exit\<close>.\<close>

definition with_key :: "string \<Rightarrow> (key \<Rightarrow> string list \<times> 'a) \<Rightarrow> 'a \<Rightarrow> string list \<times> 'a" where
  "with_key text f s = (case stoi text of Inl e \<Rightarrow> ([''Error: '' @ what e], s) | Inr key \<Rightarrow> f key)"

definition run_command ::
  "'w access \<Rightarrow> bench_env \<Rightarrow> string list \<Rightarrow> kv_distributor \<Rightarrow> 'w \<Rightarrow> (string list \<times> kv_distributor \<times> 'w) option" where
  "run_command A R args d w =
     (let action = hd args in
      if action = ''exit'' then None
      else if action = ''help'' then Some (help_text, d, w)
      else if action = ''put'' \<and> 3 \<le> length args then
        Some (with_key (args ! 1) (\<lambda>key.
          ([''Put operation completed successfully''], insert_key A key (join_words (drop 2 args)) d w)) (d, w))
      else if action = ''get'' \<and> 2 \<le> length args then
        Some (with_key (args ! 1) (\<lambda>key.
          (let (v, d, w) = get A key d w in ([''Value: '' @ v], d, w))) (d, w))
      else if action = ''update'' \<and> 3 \<le> length args then
        Some (with_key (args ! 1) (\<lambda>key.
          ([''Update operation completed successfully''], update_key A key (join_words (drop 2 args)) d w)) (d, w))
      else if action = ''delete'' \<and> 2 \<le> length args then
        Some (with_key (args ! 1) (\<lambda>key.
          ([''Delete operation completed successfully''], deleteKey A key d w)) (d, w))
      else if action = ''benchmark'' then Some (let (lines, dw) = benchmark A R d w in (''Starting sequential benchmark...'' # lines, dw))
      else if action = ''benchmark1'' then Some (let (lines, dw) = benchmark1 A R d w in (''Starting random benchmark...'' # lines, dw))
      else Some ([unknown_command], d, w))"

subsection \<open>Membership refresh\<close>

fun refresh_from :: "'w access \<Rightarrow> endpoint list \<Rightarrow> kv_distributor \<Rightarrow> 'w \<Rightarrow> bool \<times> kv_distributor \<times> 'w" where
  "refresh_from A [] d w = (False, d, w)"
| "refresh_from A (ep # eps) d w =
     (let (refreshed, d, w) = fetchMembershipFromServer A ep d w
      in if refreshed then (True, d, w) else refresh_from A eps d w)"

text \<open>One turn of the loop of the background thread, when nothing interrupts it.\<close>

definition refresh_turn :: "'w access \<Rightarrow> kv_distributor \<times> 'w \<Rightarrow> kv_distributor \<times> 'w" where
  "refresh_turn A dw = snd (refresh_from A (getAllEndpoints (fst dw)) (fst dw) (snd dw))"

text \<open>
  The thread and the commands exclude each other only where the distributor holds its lock. The
  thread takes a turn in steps: it reads the endpoints, asks one after the other without the lock, and
  takes over the first answer.
\<close>

datatype refresher = Resting | Asking "endpoint list" | Holding "endpoint int_map"

fun refresh_step :: "'w access \<Rightarrow> refresher \<times> kv_distributor \<times> 'w \<Rightarrow> refresher \<times> kv_distributor \<times> 'w" where
  "refresh_step A (Resting, d, w) = (Asking (getAllEndpoints d), d, w)"
| "refresh_step A (Asking [], d, w) = (Resting, d, w)"
| "refresh_step A (Asking (ep # eps), d, w) =
     (case client_membership (kv_client A) ep w of
        (Inl e, w) \<Rightarrow> (Asking eps, d, w)
      | (Inr members, w) \<Rightarrow>
          (let live = live_members members in (if live = [] then Asking eps else Holding live, d, w)))"
| "refresh_step A (Holding live, d, w) = (Resting, take_over live d, w)"

subsection \<open>The loop\<close>

text \<open>
  \<^verbatim>\<open>args[0]\<close> of a line without words is out of bounds. Before line \<open>i\<close> is handled the background
  thread has taken \<open>steps i\<close> steps. The loop need not end.
\<close>

datatype repl_end = ExitCommand | OutOfBounds

partial_function (option) repl ::
  "'w access \<Rightarrow> (nat \<Rightarrow> bench_env) \<Rightarrow> (nat \<Rightarrow> nat) \<Rightarrow> (nat \<Rightarrow> string) \<Rightarrow> nat \<Rightarrow> string list \<Rightarrow>
   refresher \<times> kv_distributor \<times> 'w \<Rightarrow> (repl_end \<times> string list \<times> kv_distributor \<times> 'w) option" where
  "repl A R steps input i out s =
     (let (r, dw) = (refresh_step A ^^ steps i) s in
      if input i = [] then repl A R steps input (Suc i) out (r, dw)
      else if parseCommand (input i) = [] then Some (OutOfBounds, out, dw)
      else case run_command A (R i) (parseCommand (input i)) (fst dw) (snd dw) of
          None \<Rightarrow> Some (ExitCommand, out, dw)
        | Some (lines, dw) \<Rightarrow> repl A R steps input (Suc i) (out @ lines) (r, dw))"

subsection \<open>Start\<close>

text \<open>How a start can fail: an exception outside the \<^verbatim>\<open>try\<close>, or one that it catches.\<close>

datatype start_failure = Terminated exn | Reported exn

definition boot_client ::
  "boost \<Rightarrow> 'j json_library \<Rightarrow> (string \<rightharpoonup> string) \<Rightarrow> string \<Rightarrow> os \<Rightarrow> (start_failure + kv_store \<times> kv_distributor) \<times> os" where
  "boot_client b L fs mode_line \<sigma> =
     (case and_then (open_config L fs ''config/config.json'') (read_size L) of
        Inl e \<Rightarrow> (Inl (Terminated e), \<sigma>)
      | Inr mem_size \<Rightarrow>
          (case and_then (open_config L fs ''config/config.json'') (\<lambda>config.
                and_then (get_endpoint L config 0) (\<lambda>first_ep. Inr (config, node_tag first_ep))) of
             Inl e \<Rightarrow> (Inl (Reported e), \<sigma>)
           | Inr (config, tag) \<Rightarrow>
               (case get_instance b None mem_size (parse_client_mode mode_line) CLIENT tag \<sigma> of
                  (Inl e, \<sigma>) \<Rightarrow> (Inl (Reported e), \<sigma>)
                | (Inr kv, \<sigma>) \<Rightarrow>
                    (case new_distributor L config of
                       Inl e \<Rightarrow> (Inl (Reported e), \<sigma>)
                     | Inr d \<Rightarrow> (Inr (kv, d), \<sigma>)))))"

subsection \<open>The process\<close>

datatype LogLevel = Trace | Debug | Info | Warn | Err | Critical | Off

text \<open>The level taken from the environment variable \<^verbatim>\<open>LOG_LEVEL\<close>.\<close>

definition log_level :: "string option \<Rightarrow> LogLevel" where
  "log_level env_log =
     (case env_log of
        None \<Rightarrow> Info
      | Some s \<Rightarrow>
          (let lvl = map downcase s in
           if lvl = ''trace'' then Trace
           else if lvl = ''debug'' then Debug
           else if lvl = ''info'' then Info
           else if lvl = ''warn'' \<or> lvl = ''warning'' then Warn
           else if lvl = ''err'' \<or> lvl = ''error'' then Err
           else if lvl = ''critical'' then Critical
           else if lvl = ''off'' then Off
           else Info))"

text \<open>How the process ends, where it does: its exit code, an exception nobody catches, or out of bounds.\<close>

datatype process_end = Exited cint | Uncaught exn | Undefined

text \<open>What the process prints for an exception that \<^verbatim>\<open>main\<close> catches.\<close>

definition failure_lines :: "exn \<Rightarrow> string list" where
  "failure_lines e =
     [''Failed to connect to server storage: '' @ what e, ''Make sure the server is running before starting the client.'']"

text \<open>
  The whole process on the machine at address \<open>a\<close>: the first line of the input is the storage mode,
  the others are commands. The protocol of the RPC client is the one of the configuration, which the
  constructor of the distributor reads.
\<close>

definition client_main ::
  "fabric \<Rightarrow> 'j json_library \<Rightarrow> (string \<rightharpoonup> string) \<Rightarrow> address \<Rightarrow> (nat \<Rightarrow> bench_env) \<Rightarrow> (nat \<Rightarrow> nat) \<Rightarrow>
   string \<Rightarrow> (nat \<Rightarrow> string) \<Rightarrow> cluster \<Rightarrow> (process_end \<times> string list \<times> cluster) option" where
  "client_main F L fs a R steps mode_line input w =
     (case boot_client (node_boost F) L fs mode_line (hosts w a) of
        (Inl (Terminated e), \<sigma>) \<Rightarrow> Some (Uncaught e, [], on_host a (\<lambda>_. \<sigma>) w)
      | (Inl (Reported e), \<sigma>) \<Rightarrow> Some (Exited 1, failure_lines e, on_host a (\<lambda>_. \<sigma>) w)
      | (Inr (kv, d), \<sigma>) \<Rightarrow>
          (case and_then (open_config L fs ''config/config.json'') (read_protocol L) of
             Inl e \<Rightarrow> Some (Exited 1, failure_lines e, on_host a (destroy_store (node_boost F) kv \<circ> (\<lambda>_. \<sigma>)) w)
           | Inr protocol \<Rightarrow>
               (case repl (access_of F protocol kv a) R steps input 0 help_text (Resting, d, on_host a (\<lambda>_. \<sigma>) w) of
                  None \<Rightarrow> None
                | Some (OutOfBounds, out, d, w) \<Rightarrow> Some (Undefined, out, w)
                | Some (ExitCommand, out, d, w) \<Rightarrow>
                    Some (Exited 0, out @ [''Goodbye!''], on_host a (destroy_store (node_boost F) kv) w))))"

end
