(* ===== verification/ClientClaims.thy ===== *)
theory ClientClaims
  imports ClientMain ReplicaLimits DistributorState DemoConfig
begin

text \<open>
  The interactive client: when its loop ends and how, what a typed value becomes on its way through
  the parser, the distributor, the servers and back.
\<close>

subsection \<open>Sessions keep the state well formed\<close>

fun session_ok :: "refresher \<times> kv_distributor \<times> 'w \<Rightarrow> bool" where
  "session_ok (Holding live, d, w) \<longleftrightarrow> wf_map live \<and> distributor_ok d"
| "session_ok (_, d, w) \<longleftrightarrow> distributor_ok d"

lemma session_ok_distributor: "session_ok s \<Longrightarrow> distributor_ok (fst (snd s))"
  by (cases s rule: session_ok.cases) simp_all

lemma session_ok_world: "session_ok (r, d, w) \<Longrightarrow> session_ok (r, d, w')"
  by (cases r) simp_all

lemma refresh_step_keeps: "session_ok s \<Longrightarrow> session_ok (refresh_step A s)"
  by (cases "(A, s)" rule: refresh_step.cases)
    (auto simp: Let_def take_over_keeps split: prod.split sum.split)

lemma refresh_steps_keep: "session_ok s \<Longrightarrow> session_ok ((refresh_step A ^^ n) s)"
  by (induction n) (simp_all add: refresh_step_keeps)

text \<open>Undisturbed, the steps of a turn are the loop of the code.\<close>

lemma refresh_from_steps:
  "\<exists>n. (refresh_step A ^^ n) (Asking eps, d, w) = (Resting, snd (refresh_from A eps d w))"
proof (induction A eps d w rule: refresh_from.induct)
  case (1 A d w)
  show ?case by (rule exI [of _ 1]) simp
next
  case (2 A ep eps d w)
  obtain r w' where c: "client_membership (kv_client A) ep w = (r, w')" by (metis surj_pair)
  consider (again) "refresh_step A (Asking (ep # eps), d, w) = (Asking eps, d, w')"
      "fetchMembershipFromServer A ep d w = (False, d, w')"
    | (taken) live where "refresh_step A (Asking (ep # eps), d, w) = (Holding live, d, w')"
      "fetchMembershipFromServer A ep d w = (True, take_over live d, w')"
  proof (cases "case r of Inl e \<Rightarrow> [] | Inr members \<Rightarrow> live_members members")
    case Nil
    with c again show thesis by (cases r) (simp_all add: fetchMembershipFromServer_def)
  next
    case (Cons p ps)
    with c taken [of "p # ps"] show thesis by (cases r) (simp_all add: fetchMembershipFromServer_def)
  qed
  then show ?case
  proof cases
    case again
    with 2 [OF again(2) [symmetric] refl] obtain n where
      "(refresh_step A ^^ n) (Asking eps, d, w') = (Resting, snd (refresh_from A eps d w'))" by auto
    with again show ?thesis by (intro exI [of _ "Suc n"]) (simp add: funpow_swap1)
  next
    case taken
    then show ?thesis by (intro exI [of _ 2]) (simp add: numeral_2_eq_2)
  qed
qed

lemma refresh_turn_steps: "\<exists>n. (refresh_step A ^^ n) (Resting, d, w) = (Resting, refresh_turn A (d, w))"
proof -
  obtain n where "(refresh_step A ^^ n) (Asking (getAllEndpoints d), d, w) = (Resting, refresh_turn A (d, w))"
    using refresh_from_steps [of A "getAllEndpoints d" d w] by (auto simp: refresh_turn_def)
  then show ?thesis by (intro exI [of _ "Suc n"]) (simp add: funpow_swap1)
qed

lemma insert_all_state: "distributor_ok (fst dw) \<Longrightarrow> fst (insert_all A R is dw) = fst dw"
proof (induction A R "is" dw rule: insert_all.induct)
  case (2 A R i "is" d w)
  then have "fst (insert_key A (of_nat i) (generateRandomString (draw_char R i) VALUE_SIZE) d w) = d"
    by (simp add: operations_keep_state(2))
  with 2 show ?case by simp
qed simp

lemma fetch_all_state: "distributor_ok (fst dw) \<Longrightarrow> fst (snd (fetch_all A R ks ts dw)) = fst dw"
proof (induction A R ks ts dw rule: fetch_all.induct)
  case (2 A R k ks ts d w)
  obtain v d' w' where g: "get A k d w = (v, d', w')" by (metis prod_cases3)
  with 2(2) operations_keep_state(1) [of d A k w] have "d' = d" by simp
  with 2 g show ?case by simp
qed simp

lemma run_command_state:
  assumes "distributor_ok d" "run_command A R args d w = Some (lines, d', w')"
  shows "d' = d"
proof -
  note k = operations_keep_state [OF assms(1)]
  have b: "fst (snd (benchmark A R d w)) = d" "fst (snd (benchmark1 A R d w)) = d"
    using fetch_all_state [of "insert_all A R [1..<Suc NUM_OPERATIONS] (d, w)" A R] insert_all_state [of "(d, w)" A R] assms(1)
    by (simp_all add: benchmark_def benchmark1_def split_beta Let_def del: upt_Suc)
  show ?thesis
    using assms(2) k(1) [of A _ w] k(2,3) [of A _ _ w] k(4) [of A _ w] b
    by (auto simp: run_command_def Let_def with_key_def split_beta split: if_splits sum.splits) (metis fst_conv snd_conv)+
qed

subsection \<open>The end of a session\<close>

definition ends_session :: "string \<Rightarrow> bool" where
  "ends_session line \<longleftrightarrow> line \<noteq> [] \<and> (parseCommand line = [] \<or> hd (parseCommand line) = ''exit'')"

lemma run_command_None: "run_command A R args d w = None \<longleftrightarrow> hd args = ''exit''"
  by (simp add: run_command_def Let_def del: not_None_eq)

lemma repl_returns:
  assumes "i \<le> j" "ends_session (input j)" "\<forall>m. i \<le> m \<and> m < j \<longrightarrow> \<not> ends_session (input m)"
  shows "\<exists>out' dw'. repl A R steps input i out s =
     Some (if parseCommand (input j) = [] then OutOfBounds else ExitCommand, out', dw')"
  using assms
proof (induction "j - i" arbitrary: i out s)
  case 0
  then have e: "j = i" "input i \<noteq> []" "parseCommand (input i) \<noteq> [] \<Longrightarrow> hd (parseCommand (input i)) = ''exit''"
    by (auto simp: ends_session_def)
  show ?case
  proof (cases "parseCommand (input i) = []")
    case True
    with e(1,2) show ?thesis by (subst repl.simps) (simp add: Let_def split_beta)
  next
    case False
    then have "run_command A (R i) (parseCommand (input i)) d w = None" for d w
      using e(3) by (simp add: run_command_None)
    with False e(1,2) show ?thesis by (subst repl.simps) (simp add: Let_def split_beta)
  qed
next
  case (Suc n)
  have i: "i < j" "\<not> ends_session (input i)" using Suc.hyps(2) Suc.prems by auto
  have IH: "\<exists>out' dw'. repl A R steps input (Suc i) out s =
     Some (if parseCommand (input j) = [] then OutOfBounds else ExitCommand, out', dw')" for out s
    using Suc.hyps Suc.prems i by (intro Suc.hyps(1)) auto
  obtain r d w where s: "(refresh_step A ^^ steps i) s = (r, d, w)" by (metis prod_cases3)
  show ?case
  proof (cases "input i = []")
    case True
    with IH [of out "(r, d, w)"] s show ?thesis by (subst repl.simps) (simp only: Let_def prod.case simp_thms if_True)
  next
    case False
    then have p: "parseCommand (input i) \<noteq> []" "hd (parseCommand (input i)) \<noteq> ''exit''"
      using i(2) by (auto simp: ends_session_def)
    then obtain lines d' w' where "run_command A (R i) (parseCommand (input i)) d w = Some (lines, d', w')"
      using run_command_None by (metis option.exhaust prod_cases3)
    then show ?thesis
      using IH [of "out @ lines" "(r, d', w')"] False p(1) s
      by (subst repl.simps) (simp only: Let_def option.case prod.case fst_conv snd_conv simp_thms if_False)
  qed
qed

text \<open>One round of the loop, for reasoning about its results.\<close>

lemma repl_round:
  assumes "(let (r, dw) = (refresh_step A ^^ steps i) s in
       if input i = [] then rec A R steps input (Suc i) out (r, dw)
       else if parseCommand (input i) = [] then Some (OutOfBounds, out, dw)
       else case run_command A (R i) (parseCommand (input i)) (fst dw) (snd dw) of
           None \<Rightarrow> Some (ExitCommand, out, dw)
         | Some (lines, dw) \<Rightarrow> rec A R steps input (Suc i) (out @ lines) (r, dw)) = Some res"
  shows "(\<exists>e. ends_session (input i) \<and> res = (e, out, snd ((refresh_step A ^^ steps i) s)))
     \<or> \<not> ends_session (input i) \<and> rec A R steps input (Suc i) out ((refresh_step A ^^ steps i) s) = Some res
     \<or> \<not> ends_session (input i) \<and> (\<exists>r d w lines d' w'. (refresh_step A ^^ steps i) s = (r, d, w)
          \<and> run_command A (R i) (parseCommand (input i)) d w = Some (lines, d', w')
          \<and> rec A R steps input (Suc i) (out @ lines) (r, d', w') = Some res)"
proof -
  obtain r d w where s: "(refresh_step A ^^ steps i) s = (r, d, w)" by (metis prod_cases3)
  consider "input i = []" | "input i \<noteq> []" "parseCommand (input i) = []"
    | "input i \<noteq> []" "parseCommand (input i) \<noteq> []" "hd (parseCommand (input i)) = ''exit''"
    | "input i \<noteq> []" "parseCommand (input i) \<noteq> []" "hd (parseCommand (input i)) \<noteq> ''exit''" by blast
  then show ?thesis
  proof cases
    case 4
    then obtain lines d' w' where "run_command A (R i) (parseCommand (input i)) d w = Some (lines, d', w')"
      using run_command_None by (metis option.exhaust prod_cases3)
    with 4 s assms show ?thesis by (auto simp: ends_session_def)
  next
    case 3
    then have "run_command A (R i) (parseCommand (input i)) d w = None" by (simp add: run_command_None)
    with 3 s assms show ?thesis by (auto simp: ends_session_def)
  qed (use s assms in \<open>auto simp: ends_session_def\<close>)
qed

lemma repl_needs_end:
  assumes "repl A R steps input i out s = Some res"
  shows "\<exists>j \<ge> i. ends_session (input j)"
proof (rule repl.raw_induct [of "\<lambda>A R steps input i out s res. \<exists>j \<ge> i. ends_session (input j)", OF _ assms], goal_cases)
  case (1 rec A R steps input i out s res)
  from repl_round [where rec = rec, OF 1(2)] 1(1) show ?case by (meson Suc_leD order_refl)
qed

lemma repl_keeps:
  assumes "repl A R steps input i out s = Some res" "session_ok s"
  shows "distributor_ok (fst (snd (snd res)))"
proof -
  have "session_ok s \<longrightarrow> distributor_ok (fst (snd (snd res)))"
  proof (rule repl.raw_induct [of "\<lambda>A R steps input i out s res. session_ok s \<longrightarrow> distributor_ok (fst (snd (snd res)))",
        OF _ assms(1)], goal_cases)
    case (1 rec A R steps input i out s res)
    show ?case
    proof
      assume "session_ok s"
      then have ok: "session_ok ((refresh_step A ^^ steps i) s)" by (rule refresh_steps_keep)
      from repl_round [where rec = rec, OF 1(2)] show "distributor_ok (fst (snd (snd res)))"
      proof (elim disjE exE conjE)
        fix e assume "res = (e, out, snd ((refresh_step A ^^ steps i) s))"
        then show ?thesis using session_ok_distributor [OF ok] by simp
      next
        assume "rec A R steps input (Suc i) out ((refresh_step A ^^ steps i) s) = Some res"
        from 1(1) [OF this] ok show ?thesis by simp
      next
        fix r d w lines d' w'
        assume s: "(refresh_step A ^^ steps i) s = (r, d, w)"
          and c: "run_command A (R i) (parseCommand (input i)) d w = Some (lines, d', w')"
          and n: "rec A R steps input (Suc i) (out @ lines) (r, d', w') = Some res"
        have "d' = d" using session_ok_distributor [OF ok] s by (intro run_command_state [OF _ c]) simp
        then have "session_ok (r, d', w')" using ok s session_ok_world [of r d w w'] by simp
        with 1(1) [OF n] show ?thesis by simp
      qed
    qed
  qed
  with assms(2) show ?thesis by simp
qed

text \<open>
  Claim C38: the client's loop returns exactly when some line of the input ends it: the command
  \<^verbatim>\<open>exit\<close>, or a line of nothing but white space, whose first word is read out of bounds; the first
  such line decides. Without one, at the end of the input in particular, it runs for ever. Whatever
  the commands and the replies, and wherever the steps of the background refresh fall between the
  commands, the distributor's state stays well formed.
\<close>

theorem session_end:
  "(repl A R steps input 0 out (Resting, d, w) = None \<longleftrightarrow> (\<forall>i. \<not> ends_session (input i)))
   \<and> (\<forall>i. ends_session (input i) \<and> (\<forall>j < i. \<not> ends_session (input j)) \<longrightarrow>
        (\<exists>out' dw'. repl A R steps input 0 out (Resting, d, w) =
           Some (if parseCommand (input i) = [] then OutOfBounds else ExitCommand, out', dw')))
   \<and> (\<forall>r. repl A R steps input 0 out (Resting, d, w) = Some r \<and> distributor_ok d \<longrightarrow> distributor_ok (fst (snd (snd r))))"
proof -
  have first: "\<exists>out' dw'. repl A R steps input 0 out (Resting, d, w) =
      Some (if parseCommand (input i) = [] then OutOfBounds else ExitCommand, out', dw')"
    if "ends_session (input i)" "\<forall>j < i. \<not> ends_session (input j)" for i
    using repl_returns [of 0 i input A R steps out] that by blast
  have "repl A R steps input 0 out (Resting, d, w) \<noteq> None" if "ends_session (input i)" for i
  proof -
    let ?i = "LEAST i. ends_session (input i)"
    have "ends_session (input ?i)" "\<forall>j < ?i. \<not> ends_session (input j)"
      using that by (auto intro: LeastI dest: not_less_Least)
    from first [OF this] show ?thesis by (metis option.distinct(1))
  qed
  moreover have "\<exists>i. ends_session (input i)" if "repl A R steps input 0 out (Resting, d, w) = Some r" for r
    using repl_needs_end [OF that] by blast
  ultimately have "repl A R steps input 0 out (Resting, d, w) = None \<longleftrightarrow> (\<forall>i. \<not> ends_session (input i))"
    by (metis not_None_eq)
  moreover have "distributor_ok (fst (snd (snd r)))" if "repl A R steps input 0 out (Resting, d, w) = Some r" "distributor_ok d" for r
    using repl_keeps [OF that(1)] that(2) by simp
  ultimately show ?thesis using first by blast
qed

lemma exit_line: "ends_session ''exit''" "parseCommand ''exit'' = [''exit'']" "\<not> ends_session []"
  by code_simp+

definition demo_draws :: "nat \<Rightarrow> bench_env" where
  "demo_draws i = \<lparr>draw_char = (\<lambda>i j. 0), draw_key = (\<lambda>i. 1), insertion_ms = 0, fetch_us = (\<lambda>i. 0),
     fetching_ms = 0, to_double = id, fixed4 = (\<lambda>x. [])\<rparr>"

theorem session_end_witness:
  "(\<exists>out' dw'. repl (demo_access []) demo_draws (\<lambda>i. 0) (\<lambda>i. if i = 1 then ''exit'' else []) 0 [] (Resting, demo3, world3 [] [] [])
      = Some (ExitCommand, out', dw'))
   \<and> repl (demo_access []) demo_draws (\<lambda>i. 0) (\<lambda>i. []) 0 [] (Resting, demo3, world3 [] [] []) = None"
proof
  show "repl (demo_access []) demo_draws (\<lambda>i. 0) (\<lambda>i. []) 0 [] (Resting, demo3, world3 [] [] []) = None"
    using session_end [of "demo_access []" demo_draws "\<lambda>i. 0" "\<lambda>i. []" "[]" demo3 "world3 [] [] []"] exit_line(3) by blast
  have "ends_session ((\<lambda>i. if i = (1::nat) then ''exit'' else []) 1)
      \<and> (\<forall>j < 1. \<not> ends_session ((\<lambda>i. if i = (1::nat) then ''exit'' else []) j))"
    by (simp add: exit_line)
  with session_end [of "demo_access []" demo_draws "\<lambda>i. 0" "\<lambda>i. if i = 1 then ''exit'' else []" "[]" demo3 "world3 [] [] []",
      THEN conjunct2, THEN conjunct1, THEN spec, of 1, THEN mp]
  show "\<exists>out' dw'. repl (demo_access []) demo_draws (\<lambda>i. 0) (\<lambda>i. if i = 1 then ''exit'' else []) 0 [] (Resting, demo3, world3 [] [] [])
      = Some (ExitCommand, out', dw')"
    by (simp add: exit_line)
qed

subsection \<open>From the typed line to the stored value and back\<close>

text \<open>Words as the parser sees them.\<close>

definition plain_word :: "string \<Rightarrow> bool" where
  "plain_word w \<longleftrightarrow> w \<noteq> [] \<and> (\<forall>c \<in> set w. \<not> is_space c)"

lemma space_space [simp]: "is_space (CHR '' '')"
  by code_simp

lemma words_of_Nil [simp]: "words_of [] = []"
  by (simp add: words_of.simps)

lemma words_of_space [simp]: "words_of (CHR '' '' # s) = words_of s"
  by (subst (1 2) words_of.simps) simp

lemma words_of_word:
  assumes "plain_word w"
  shows "words_of (w @ s) = (if s = [] then [w] else if is_space (hd s) then w # words_of s else words_of (w @ s))"
proof -
  have w: "w \<noteq> []" "\<And>c. c \<in> set w \<Longrightarrow> \<not> is_space c" using assms by (auto simp: plain_word_def)
  then have d: "dropWhile is_space (w @ s) = w @ s" by (cases w) auto
  show ?thesis
  proof (cases "s = [] \<or> is_space (hd s)")
    case True
    then have "takeWhile (\<lambda>c. \<not> is_space c) (w @ s) = w" "dropWhile (\<lambda>c. \<not> is_space c) (w @ s) = s"
      using w(2) by (cases s; simp add: takeWhile_append2 dropWhile_append2 takeWhile_idem_all)+
    with True w(1) d show ?thesis by (subst words_of.simps) (auto simp: Let_def)
  qed auto
qed

lemma parse_join: "list_all plain_word ws \<Longrightarrow> parseCommand (join_words ws) = ws"
  unfolding parseCommand_def
  by (induction ws rule: join_words.induct) (simp_all add: words_of_word [of _ "[]", simplified] words_of_word)

lemma plain_int_string: "plain_word (to_string k)"
proof -
  have "\<not> is_space c" if "c \<in> set (int_string (sint k))" for c
  proof -
    have "is_digit c \<or> c = CHR ''-''"
      using that dec_string_digits [of "sint k" c] dec_string_digits [of "- sint k" c]
      by (auto simp: int_string_def split: if_splits)
    moreover have "\<not> is_space (CHR ''-'')" by code_simp
    ultimately show ?thesis using not_space_digit by auto
  qed
  then show ?thesis by (simp add: plain_word_def to_string_def int_string_def)
qed

lemma join_nonempty: "list_all plain_word ws \<Longrightarrow> ws \<noteq> [] \<Longrightarrow> join_words ws \<noteq> []"
  by (induction ws rule: join_words.induct) (auto simp: plain_word_def)

lemma plain_command: "plain_word ''put''" "plain_word ''get''" "plain_word ''update''" "plain_word ''delete''"
  by code_simp+

lemma run_put:
  "list_all plain_word ws \<Longrightarrow> ws \<noteq> [] \<Longrightarrow>
   run_command A R (parseCommand (join_words (''put'' # to_string k # ws))) d w =
     Some ([''Put operation completed successfully''], insert_key A k (join_words ws) d w)"
  by (subst parse_join)
    (simp_all add: plain_command plain_int_string run_command_def with_key_def length_greater_0_conv [symmetric] Suc_le_eq
      del: length_greater_0_conv)

lemma run_get:
  "run_command A R (parseCommand (join_words [''get'', to_string k])) d w =
     Some ([''Value: '' @ fst (get A k d w)], snd (get A k d w))"
  by (subst parse_join) (simp_all add: plain_command plain_int_string run_command_def with_key_def split_beta)

text \<open>
  What is typed comes back. In a cluster whose nodes can be reached, putting a value of
  words at a new key, both written on the line, and then getting that key prints the words with one
  space between them: through the parser, the numeral, the distributor, the servers and their stores.
  The value must have no NUL and not read like an error message.
\<close>

theorem typed_value_comes_back:
  assumes "serving P c a d w" "ring_current vn d" "\<forall>n. member_node d n \<longrightarrow> answers F P d n"
    and "holds P d w (primary_of d k) k = None" "holds P d w (buddy_of d k) k = None"
    and "list_all plain_word ws" "ws \<noteq> []" "v = join_words ws"
    and "accepts (node_boost F) v" "CHR 0x00 \<notin> set v" "\<not> isMissOrError v"
  shows "\<exists>w1 w2. run_command (access_of F P c a) R (parseCommand (join_words (''put'' # to_string k # ws))) d w =
       Some ([''Put operation completed successfully''], d, w1)
     \<and> run_command (access_of F P c a) R (parseCommand (join_words [''get'', to_string k])) d w1 = Some ([''Value: '' @ v], d, w2)"
proof -
  obtain d1 w1 where i: "insert_key (access_of F P c a) k v d w = (d1, w1)" by (metis surj_pair)
  note h = inserted_everywhere [OF assms(1-3,9,4,5) i]
  have c: "c_str v = v" using assms(10) by (auto simp: c_str_def intro: takeWhile_idem_all)
  have vis: "visible (holds P d w1 (primary_of d k) k) = Some v" using h(3) c assms(11) by (simp add: visible_value)
  have "answers F P d (primary_of d k)" using assms(3) member_primary [OF assms(2)] by blast
  then have "fst (get (access_of F P c a) k d w1) = v"
    unfolding get_value [OF assms(2)] using nodes.get_served(1) [OF h(2) member_primary [OF assms(2)] _ vis] by simp
  moreover have "fst (snd (get (access_of F P c a) k d w1)) = d" by (rule get_value(2) [OF assms(2)])
  ultimately show ?thesis
    unfolding run_put [OF assms(6,7)] run_get using i h(1) assms(8) by (metis prod.collapse)
qed

theorem typed_value_comes_back_witness:
  "\<exists>w1 w2. run_command (demo_access []) (demo_draws 0) (parseCommand ''put 5 hello world'') demo3 (world3 [] [] []) =
       Some ([''Put operation completed successfully''], demo3, w1)
     \<and> run_command (demo_access []) (demo_draws 0) (parseCommand ''get 5'') demo3 w1 = Some ([''Value: hello world''], demo3, w2)"
proof -
  have s: "serving ''p'' demo_server ''q'' demo3 (world3 [] [] [])" by (simp add: demo3_serving)
  have ws: "list_all plain_word [''hello'', ''world'']" "join_words [''hello'', ''world''] = ''hello world''"
    "join_words (''put'' # to_string 5 # [''hello'', ''world'']) = ''put 5 hello world''"
    "join_words [''get'', to_string 5] = ''get 5''" by code_simp+
  from typed_value_comes_back [OF s demo_ring demo3_answers, of 5 "[''hello'', ''world'']" "''hello world''" "demo_draws 0"] ws
  show ?thesis
    by (simp add: demo3_routes demo3_holds accepts_roomy isMissOrError_def starts_with_def)
qed

end
