(* ===== verification/ClientStart.thy ===== *)
theory ClientStart
  imports ClientMain ClusterStore KvClaims DemoConfig
begin

text \<open>
  The start of the client: which storage it takes for the local one and which node it takes for the
  local node. The two choices are made from different entries of the configuration.
\<close>

lemma new_distributor_parts:
  assumes "new_distributor L j = Inr d"
  shows "\<exists>ip. read_ip L j = Inr ip \<and> local_node_id d = find_local (node_to_ip d) ip"
  using assms by (auto simp: new_distributor_def and_then_def split: sum.splits)

lemma find_local_cases:
  "find_local nodes ip = - 1 \<or> (find_local nodes ip, ip) \<in> set nodes"
proof (cases "find (\<lambda>p. snd p = ip) nodes")
  case (Some p)
  then have "p \<in> set nodes" "snd p = ip" by (auto simp: find_Some_iff)
  with Some show ?thesis by (cases p) (simp add: find_local_def)
qed (simp add: find_local_def)

lemma find_local_none: "ip \<notin> snd ` set nodes \<Longrightarrow> find_local nodes ip = - 1"
  using find_local_cases [of nodes ip] by force

text \<open>A client opens the mutex of the storage it connects to, and leaves the rest as it is.\<close>

definition mutex_opened :: "string \<Rightarrow> os \<Rightarrow> os" where
  "mutex_opened tag \<sigma> = \<sigma>\<lparr>mutexes := insert (mutex_of tag) (mutexes \<sigma>)\<rparr>"

lemma contents_mutex [simp]: "contents s (mutex_opened tag \<sigma>) = contents s \<sigma>"
  by (simp add: mutex_opened_def contents_def map_at_def fun_eq_iff split: option.split)

lemma attached_mutex: "attached s \<sigma> \<Longrightarrow> attached s (mutex_opened tag \<sigma>)"
  by (auto simp: mutex_opened_def attached_def split: option.splits)

lemma boot_client_attaches:
  assumes "reliable b" "linked (node_tag ep) srv \<sigma>" "storage_mode srv = parse_client_mode line"
    and "open_config L fs ''config/config.json'' = Inr j" "read_size L j = Inr sz"
    and "get_endpoint L j 0 = Inr ep" "new_distributor L j = Inr d"
  shows "\<exists>c. boot_client b L fs line \<sigma> = (Inr (c, d), mutex_opened (node_tag ep) \<sigma>) \<and> shares c srv \<and> conn_mode c = CLIENT"
proof -
  obtain c where c: "new_store b (if 0 < sz then sz else DEFAULT_MEMORY_SIZE) (parse_client_mode line) CLIENT (node_tag ep) \<sigma>
        = (Inr c, mutex_opened (node_tag ep) \<sigma>)"
      "shares c srv" "conn_mode c = CLIENT"
    using client_attaches [OF assms(1,2)] unfolding assms(3) shares_def mutex_opened_def by metis
  with assms(4-) show ?thesis
    by (simp add: boot_client_def get_instance_def and_then_def)
qed

lemma local_operations:
  assumes "shares c srv" "local_store A = local_kv b c a" "isLocalNode n d" "\<not> n <s 0" "lookup (node_to_ip d) n \<noteq> None"
  shows "readFromNode A n k d w =
      (let v = Find b srv k (hosts w a) in (if isMissOrError v then None else Some v, d, w))"
    and "writeToNode A n k v op d w = (d, on_host a (\<lambda>\<sigma>. snd (exec b srv (write_cmd op k v) \<sigma>)) w)"
    and "deleteOnNode A n k d w = (d, on_host a (\<lambda>\<sigma>. snd (exec b srv (DeleteCmd k) \<sigma>)) w)"
  using assms shares_ops [OF assms(1), of b]
  by (auto simp: readFromNode_def writeToNode_def deleteOnNode_def touch_node_def local_kv_def Let_def
      split: RemoteOp.split)

text \<open>
  Claim C29: whatever node the client takes for the local one, its local operations go to the storage
  of the node configured first. A client that starts beside that node's server shares the server's
  storage; the operations on the node whose endpoint is \<^verbatim>\<open>local_ip\<close> then read and write this storage,
  also when it is another node's endpoint. When no endpoint is \<^verbatim>\<open>local_ip\<close>, as when it is left
  empty, no node is local and no operation uses the local storage.
\<close>

theorem local_storage_is_first_nodes:
  assumes "reliable b" "linked (node_tag ep) srv \<sigma>" "storage_mode srv = parse_client_mode line"
    and "open_config L fs ''config/config.json'' = Inr j" "read_size L j = Inr sz"
    and "get_endpoint L j 0 = Inr ep" "new_distributor L j = Inr d" "read_ip L j = Inr local_ip"
  shows "\<exists>c \<sigma>'. boot_client b L fs line \<sigma> = (Inr (c, d), \<sigma>') \<and> contents srv \<sigma>' = contents srv \<sigma>
     \<and> (\<forall>A n k v op w. local_store A = local_kv b c a \<and> isLocalNode n d \<and> \<not> n <s 0 \<longrightarrow>
          (n, local_ip) \<in> set (node_to_ip d)
          \<and> readFromNode A n k d w = (let v = Find b srv k (hosts w a) in (if isMissOrError v then None else Some v, d, w))
          \<and> writeToNode A n k v op d w = (d, on_host a (\<lambda>\<sigma>. snd (exec b srv (write_cmd op k v) \<sigma>)) w)
          \<and> deleteOnNode A n k d w = (d, on_host a (\<lambda>\<sigma>. snd (exec b srv (DeleteCmd k) \<sigma>)) w))
     \<and> (local_ip \<notin> snd ` set (node_to_ip d) \<longrightarrow> (\<forall>n. isLocalNode n d \<longrightarrow> n <s 0))"
proof -
  obtain c \<sigma>' where c: "boot_client b L fs line \<sigma> = (Inr (c, d), \<sigma>')" "shares c srv" "contents srv \<sigma>' = contents srv \<sigma>"
    using boot_client_attaches [OF assms(1-7)] by auto
  have l: "local_node_id d = find_local (node_to_ip d) local_ip"
    using new_distributor_parts [OF assms(7)] assms(8) by auto
  have minus: "(- 1 :: node_id) <s 0" by (simp add: word_sless_alt)
  then have local: "(n, local_ip) \<in> set (node_to_ip d)" if "isLocalNode n d" "\<not> n <s 0" for n
    using find_local_cases [of "node_to_ip d" local_ip] l that unfolding isLocalNode_def by metis
  have none: "n <s 0" if "local_ip \<notin> snd ` set (node_to_ip d)" "isLocalNode n d" for n
    using find_local_none [OF that(1)] l that(2) minus unfolding isLocalNode_def by metis
  have known: "lookup (node_to_ip d) n \<noteq> None" if "(n, local_ip) \<in> set (node_to_ip d)" for n
    using that by (simp add: map_of_eq_None_iff) force
  show ?thesis
    using c(1,3) local none local_operations [OF c(2) _ _ _ known [OF local]] by (intro exI [of _ c] exI [of _ \<sigma>']) auto
qed

text \<open>The node with port 5001 is local; the storage is that of port 5000.\<close>

definition local_document :: json where
  "local_document = JObject
     [(''protocol'', JString ''tcp''), (''count_of_node'', JNumber 2),
      (''ip_addresses'', JObject [(''0'', JString ''h:5000''), (''1'', JString ''h:5001'')]),
      (''size'', JNumber 1), (''local_ip'', JString ''h:5001'')]"

lemma local_config:
  "open_config (demo_json local_document) demo_files ''config/config.json'' = Inr local_document"
  "read_size (demo_json local_document) local_document = Inr 1048576"
  "get_endpoint (demo_json local_document) local_document 0 = Inr ''h:5000''"
  "read_ip (demo_json local_document) local_document = Inr ''h:5001''"
  by (simp_all add: open_config_def demo_files_def demo_json_def local_document_def read_size_def get_endpoint_def
      read_ip_def json_get_def and_then_def)

lemma local_client:
  "\<exists>d. new_distributor (demo_json local_document) local_document = Inr d
     \<and> node_to_ip d = [(0, ''h:5000''), (1, ''h:5001'')] \<and> isLocalNode 1 d"
  by (simp add: new_distributor_def local_document_def demo_json_def read_count_def read_protocol_def get_endpoint_def
      read_ip_def json_get_def and_then_def numeral_2_eq_2 find_local_def isLocalNode_def)

theorem local_storage_is_first_nodes_witness:
  "\<exists>c d \<sigma>'. boot_client roomy (demo_json local_document) demo_files ''memory'' (fresh_memory 9 ''5000'' empty_os) = (Inr (c, d), \<sigma>')
     \<and> isLocalNode 1 d \<and> (\<forall>A k w. local_store A = local_kv roomy c ''h'' \<longrightarrow> readFromNode A 1 k d w =
         (let v = Find roomy (memory_server 9 ''5000'' empty_os) k (hosts w ''h'')
          in (if isMissOrError v then None else Some v, d, w)))"
proof -
  obtain d where d: "new_distributor (demo_json local_document) local_document = Inr d" "isLocalNode 1 d"
    using local_client by blast
  have tag: "node_tag ''h:5000'' = ''5000''" "parse_client_mode ''memory'' = MEMORY" by code_simp+
  have l: "linked (node_tag ''h:5000'') (memory_server 9 ''5000'' empty_os) (fresh_memory 9 ''5000'' empty_os)"
    "storage_mode (memory_server 9 ''5000'' empty_os) = parse_client_mode ''memory''"
    by (simp_all add: tag linked_fresh) (simp add: memory_server_def)
  have one: "\<not> (1 :: node_id) <s 0" by (simp add: word_sless_alt)
  from local_storage_is_first_nodes [OF reliable_roomy l local_config(1,2,3) d(1) local_config(4), of "''h''"] d(2) one
  show ?thesis by blast
qed

end
