(* ===== verification/ClusterRefinement.thy ===== *)
theory ClusterRefinement
  imports DistributorClaims
begin

text \<open>
  The whole cluster as one map. While every node can be reached, what a client sees of any sequence
  of its operations, through the distributor, the RPCs and the stores of the nodes, is what a finite
  map would answer.
\<close>

subsection \<open>The operations of a client and their specification\<close>

datatype client_op =
    PutOp key string
  | UpdateOp key string
  | DeleteOp key
  | GetOp key

text \<open>One operation of the code; only \<^verbatim>\<open>get\<close> has an answer.\<close>

fun perform :: "'w access \<Rightarrow> client_op \<Rightarrow> kv_distributor \<times> 'w \<Rightarrow> string option \<times> kv_distributor \<times> 'w" where
  "perform A (PutOp k v) (d, w) = (None, insert_key A k v d w)"
| "perform A (UpdateOp k v) (d, w) = (None, update_key A k v d w)"
| "perform A (DeleteOp k) (d, w) = (None, deleteKey A k d w)"
| "perform A (GetOp k) (d, w) = (let (v, d, w) = get A k d w in (Some v, d, w))"

fun perform_all :: "'w access \<Rightarrow> client_op list \<Rightarrow> kv_distributor \<times> 'w \<Rightarrow> string option list \<times> kv_distributor \<times> 'w" where
  "perform_all A [] s = ([], s)"
| "perform_all A (c # cs) s =
     (let (r, s) = perform A c s; (rs, s) = perform_all A cs s in (r # rs, s))"

text \<open>The same of a map: a put of a present key and an update of an absent one change nothing.\<close>

fun spec_op :: "client_op \<Rightarrow> (key \<rightharpoonup> string) \<Rightarrow> string option \<times> (key \<rightharpoonup> string)" where
  "spec_op (PutOp k v) m = (None, if m k = None then m(k \<mapsto> v) else m)"
| "spec_op (UpdateOp k v) m = (None, if m k = None then m else m(k \<mapsto> v))"
| "spec_op (DeleteOp k) m = (None, m(k := None))"
| "spec_op (GetOp k) m = (Some (case m k of None \<Rightarrow> ''RPC Failed'' | Some v \<Rightarrow> v), m)"

fun spec_all :: "client_op list \<Rightarrow> (key \<rightharpoonup> string) \<Rightarrow> string option list \<times> (key \<rightharpoonup> string)" where
  "spec_all [] m = ([], m)"
| "spec_all (c # cs) m = (let (r, m) = spec_op c m; (rs, m) = spec_all cs m in (r # rs, m))"

text \<open>Values that fit, have no NUL and do not read like an error message.\<close>

definition plain_value :: "boost \<Rightarrow> string \<Rightarrow> bool" where
  "plain_value b v \<longleftrightarrow> accepts b v \<and> CHR 0x00 \<notin> set v \<and> \<not> isMissOrError v"

fun plain_op :: "boost \<Rightarrow> client_op \<Rightarrow> bool" where
  "plain_op b (PutOp k v) = plain_value b v"
| "plain_op b (UpdateOp k v) = plain_value b v"
| "plain_op b _ = True"

subsection \<open>The simulation\<close>

text \<open>Both replicas of every key hold what the map has, and it can be read.\<close>

definition mirrors :: "string \<Rightarrow> kv_distributor \<Rightarrow> cluster \<Rightarrow> (key \<rightharpoonup> string) \<Rightarrow> bool" where
  "mirrors P d w m \<longleftrightarrow>
     (\<forall>k. holds P d w (primary_of d k) k = m k \<and> holds P d w (buddy_of d k) k = m k \<and> visible (m k) = m k)"

lemma mirrorsI:
  assumes "mirrors P d w m" "holds P d w' (primary_of d k) k = u" "holds P d w' (buddy_of d k) k = u" "visible u = u"
    and "\<And>n k'. member_node d n \<Longrightarrow> k' \<noteq> k \<Longrightarrow> holds P d w' n k' = holds P d w n k'" "ring_current vn d"
  shows "mirrors P d w' (m(k := u))"
  using assms member_primary [OF assms(6)] member_buddy [OF assms(6)] by (auto simp: mirrors_def)

lemma mirrors_unchanged:
  "mirrors P d w m \<Longrightarrow> (\<And>n k. member_node d n \<Longrightarrow> holds P d w' n k = holds P d w n k) \<Longrightarrow> ring_current vn d \<Longrightarrow>
   mirrors P d w' m"
  using member_primary [of vn d] member_buddy [of vn d] by (simp add: mirrors_def)

lemma plain_visible: "plain_value b v \<Longrightarrow> c_str v = v \<and> visible (Some v) = Some v"
  by (simp add: plain_value_def c_str_id visible_value)

lemma write_simulates:
  assumes "serving P c a d w" "ring_current vn d" "\<forall>n. member_node d n \<longrightarrow> answers F P d n" "mirrors P d w m"
    and "plain_value (node_boost F) v" "write_both (access_of F P c a) op k v d w = (d1, w1)"
  shows "d1 = d" "serving P c a d w1" "mirrors P d w1 (if op = INSERT \<longleftrightarrow> m k = None then m(k \<mapsto> v) else m)"
proof -
  note mem = member_primary [OF assms(2), of k] member_buddy [OF assms(2), of k]
  have w1: "d1 = d" "w1 = route_write (node_write (access_of F P c a) d) op (primary_of d k) (buddy_of d k) k v w"
    using assms(6) unfolding write_routed [OF ring_current_routes [OF assms(2)]] by (metis Pair_inject)+
  show "d1 = d" by (rule w1)
  show "serving P c a d w1" unfolding w1(2) by (rule nodes.write_inv [OF assms(1) mem])
  have m: "holds P d w (primary_of d k) k = m k" "holds P d w (buddy_of d k) k = m k"
    using assms(4) by (simp_all add: mirrors_def)
  show "mirrors P d w1 (if op = INSERT \<longleftrightarrow> m k = None then m(k \<mapsto> v) else m)"
  proof (cases "op = INSERT \<longleftrightarrow> m k = None")
    case True
    have "accepts (node_boost F) v" using assms(5) by (simp add: plain_value_def)
    from nodes.write_both_hold [OF assms(1) mem this, where op = op] True m assms(3) mem
    have h: "holds P d w1 (primary_of d k) k = Some v" "holds P d w1 (buddy_of d k) k = Some v"
      using plain_visible [OF assms(5)] unfolding w1(2) by simp_all
    have "holds P d w1 n k' = holds P d w n k'" if "member_node d n" "k' \<noteq> k" for n k'
      unfolding w1(2) using nodes.write_frame [OF assms(1) mem that(1)] that(2) by blast
    from mirrorsI [OF assms(4) h _ this assms(2)] plain_visible [OF assms(5)] True show ?thesis by simp
  next
    case False
    then have r: "op = INSERT \<longleftrightarrow> holds P d w (primary_of d k) k \<noteq> None" "op = INSERT \<longleftrightarrow> holds P d w (buddy_of d k) k \<noteq> None"
      using m by auto
    have "mirrors P d w1 m"
      by (rule mirrors_unchanged [OF assms(4) _ assms(2)]) (unfold w1(2), rule nodes.write_refused [OF assms(1) mem r])
    with False show ?thesis by (simp only: if_False)
  qed
qed

lemma delete_simulates:
  assumes "serving P c a d w" "ring_current vn d" "\<forall>n. member_node d n \<longrightarrow> answers F P d n" "mirrors P d w m"
    and "deleteKey (access_of F P c a) k d w = (d1, w1)"
  shows "d1 = d" "serving P c a d w1" "mirrors P d w1 (m(k := None))"
proof -
  note mem = member_primary [OF assms(2), of k] member_buddy [OF assms(2), of k]
  have w1: "d1 = d" "w1 = route_delete (node_delete (access_of F P c a) d) (primary_of d k) (buddy_of d k) k w"
    using assms(5) unfolding delete_routed [OF ring_current_routes [OF assms(2)]] by (metis Pair_inject)+
  show "d1 = d" by (rule w1)
  show "serving P c a d w1" unfolding w1(2) by (rule nodes.delete_inv [OF assms(1) mem])
  have ans: "answers F P d (primary_of d k)" "answers F P d (buddy_of d k)" using assms(3) mem by simp_all
  note gone = nodes.delete_gone [OF assms(1) mem ans]
  show "mirrors P d w1 (m(k := None))"
    by (rule mirrorsI [OF assms(4) _ _ _ _ assms(2)])
      (unfold w1(2), simp_all add: gone(1,2) visible_def, rule gone(3), simp_all)
qed

lemma get_simulates:
  assumes "serving P c a d w" "ring_current vn d" "\<forall>n. member_node d n \<longrightarrow> answers F P d n" "mirrors P d w m"
    and "get (access_of F P c a) k d w = (v, d1, w1)"
  shows "d1 = d" "serving P c a d w1" "mirrors P d w1 m" "v = (case m k of None \<Rightarrow> ''RPC Failed'' | Some u \<Rightarrow> u)"
proof -
  note mem = member_primary [OF assms(2), of k] member_buddy [OF assms(2), of k]
  have g: "v = fst (get (access_of F P c a) k d w)" "w1 = snd (snd (get (access_of F P c a) k d w))" using assms(5) by simp_all
  show "d1 = d" using get_value(2) [OF assms(2), of "access_of F P c a" k w] assms(5) by simp
  show "serving P c a d w1"
    unfolding g(2) get_value(3) [OF assms(2)] by (rule nodes.get_inv [OF assms(1) mem])
  have m: "holds P d w (primary_of d k) k = m k" "holds P d w (buddy_of d k) k = m k" "visible (m k) = m k"
    using assms(4) by (simp_all add: mirrors_def)
  have "v = (case m k of None \<Rightarrow> ''RPC Failed'' | Some u \<Rightarrow> u)
      \<and> (\<forall>n k'. member_node d n \<longrightarrow> holds P d w1 n k' = holds P d w n k')"
  proof (cases "m k")
    case None
    with m get_no_copy [OF assms(1,2), where F = F and k = k] show ?thesis unfolding g by (simp add: visible_def)
  next
    case (Some u)
    have "answers F P d (primary_of d k)" "visible (holds P d w (primary_of d k) k) = Some u"
      using assms(3) mem m Some by simp_all
    from nodes.get_served [OF assms(1) mem(1) this] Some show ?thesis unfolding g get_value [OF assms(2)] by simp
  qed
  then show "v = (case m k of None \<Rightarrow> ''RPC Failed'' | Some u \<Rightarrow> u)" "mirrors P d w1 m"
    using mirrors_unchanged [OF assms(4) _ assms(2)] by blast+
qed

lemma perform_simulates:
  assumes "serving P c a d w" "ring_current vn d" "\<forall>n. member_node d n \<longrightarrow> answers F P d n" "mirrors P d w m"
    and "plain_op (node_boost F) op" "perform (access_of F P c a) op (d, w) = (r, d1, w1)"
  shows "d1 = d \<and> serving P c a d w1 \<and> r = fst (spec_op op m) \<and> mirrors P d w1 (snd (spec_op op m))"
proof (cases op)
  case (PutOp k v)
  with write_simulates [OF assms(1-4), of v INSERT k] assms(5,6) show ?thesis by (simp add: insert_key_def)
next
  case (UpdateOp k v)
  with write_simulates [OF assms(1-4), of v UPDATE k] assms(5,6) show ?thesis
    by (cases "m k") (simp_all add: update_key_def)
next
  case (DeleteOp k)
  with delete_simulates [OF assms(1-4), of k] assms(6) show ?thesis by simp
next
  case (GetOp k)
  obtain v where g: "get (access_of F P c a) k d w = (v, d1, w1)" and "r = Some v"
    using GetOp assms(6) by (cases "get (access_of F P c a) k d w") (simp add: split_beta)
  with get_simulates [OF assms(1-4) g] GetOp show ?thesis by simp
qed

text \<open>
  Claim C2: the cluster refines a map, as long as all is well. The side conditions are: every node of the
  client's table runs and can be reached, for every operation; the table does not change; both replicas
  of every key are equal to a map to start with (the empty map of empty servers, for one); and every
  value that is written is plain, that is, every store has the memory for it, it has no NUL character,
  and it does not read like an error message of the program (such as \<^verbatim>\<open>Error: x\<close>). Then a sequence of
  puts, updates, deletions and reads of one client is answered as the map answers it, and leaves both
  replicas of every key equal to the map it leads to. Without them it need not be, as the properties of
  \<open>ReplicaLimits\<close> show.
\<close>

theorem cluster_refines_map:
  assumes "serving P c a d w" "ring_current vn d" "\<forall>n. member_node d n \<longrightarrow> answers F P d n" "mirrors P d w m"
    and "list_all (plain_op (node_boost F)) ops"
  shows "case (perform_all (access_of F P c a) ops (d, w), spec_all ops m) of
     ((rs, d', w'), (rs', m')) \<Rightarrow> rs = rs' \<and> d' = d \<and> serving P c a d w' \<and> mirrors P d w' m'"
  using assms
proof (induction ops arbitrary: w m)
  case (Cons op ops)
  obtain r d1 w1 where p: "perform (access_of F P c a) op (d, w) = (r, d1, w1)" by (metis prod_cases3)
  have *: "d1 = d" "serving P c a d w1" "r = fst (spec_op op m)" "mirrors P d w1 (snd (spec_op op m))"
    using perform_simulates [OF Cons.prems(1-4) _ p] Cons.prems(5) by simp_all
  obtain rs d2 w2 where q: "perform_all (access_of F P c a) ops (d, w1) = (rs, d2, w2)" by (metis prod_cases3)
  have "list_all (plain_op (node_boost F)) ops" using Cons.prems(5) by simp
  from Cons.IH [OF *(2) Cons.prems(2,3) *(4) this] q p *(1,3) show ?case
    by (simp add: split_beta Let_def)
qed simp

lemma mirrors_demo: "mirrors ''p'' demo3 (world3 [] [] []) Map.empty"
proof -
  have none: "holds ''p'' demo3 (world3 [] [] []) n k = None" if "member_node demo3 n" for n k
    using that demo3_holds [of "[]" "[]" "[]" k] by (auto simp: demo3_member)
  have "member_node demo3 (primary_of demo3 k)" "member_node demo3 (buddy_of demo3 k)" for k
    by (rule member_primary [OF demo_ring], simp) (rule member_buddy [OF demo_ring], simp)
  with none show ?thesis by (simp add: mirrors_def visible_def)
qed

theorem cluster_refines_map_witness:
  "fst (perform_all (demo_access []) [PutOp 5 ''a'', PutOp 5 ''b'', GetOp 5, UpdateOp 5 ''b'', GetOp 5, DeleteOp 5, GetOp 5]
     (demo3, world3 [] [] [])) = [None, None, Some ''a'', None, Some ''b'', None, Some ''RPC Failed'']"
proof -
  have s: "serving ''p'' demo_server ''q'' demo3 (world3 [] [] [])" by (simp add: demo3_serving)
  show ?thesis
    using cluster_refines_map [OF s demo_ring demo3_answers mirrors_demo,
        of "[PutOp 5 ''a'', PutOp 5 ''b'', GetOp 5, UpdateOp 5 ''b'', GetOp 5, DeleteOp 5, GetOp 5]"]
    by (simp add: plain_value_def accepts_roomy isMissOrError_def starts_with_def split_beta Let_def del: perform_all.simps)
qed

end
