(* ===== verification/ClientSession.thy ===== *)
theory ClientSession
  imports ClientClaims ClientStart ClusterRefinement
begin

text \<open>
  The client process from its start to its exit, against the map it presents to its user: the lines
  typed at it are commands on a map, and what it prints is what the map answers.
\<close>

subsection \<open>The lines of a session\<close>

fun command_line :: "client_op \<Rightarrow> string" where
  "command_line (PutOp k v) = ''put '' @ to_string k @ '' '' @ v"
| "command_line (UpdateOp k v) = ''update '' @ to_string k @ '' '' @ v"
| "command_line (DeleteOp k) = ''delete '' @ to_string k"
| "command_line (GetOp k) = ''get '' @ to_string k"

fun reply_line :: "client_op \<Rightarrow> string option \<Rightarrow> string" where
  "reply_line (PutOp k v) r = ''Put operation completed successfully''"
| "reply_line (UpdateOp k v) r = ''Update operation completed successfully''"
| "reply_line (DeleteOp k) r = ''Delete operation completed successfully''"
| "reply_line (GetOp k) r = ''Value: '' @ (case r of None \<Rightarrow> [] | Some v \<Rightarrow> v)"

text \<open>A value can be typed when it is words separated by single spaces.\<close>

definition typeable :: "string \<Rightarrow> bool" where
  "typeable v \<longleftrightarrow> (\<exists>ws. list_all plain_word ws \<and> ws \<noteq> [] \<and> v = join_words ws)"

fun typeable_op :: "client_op \<Rightarrow> bool" where
  "typeable_op (PutOp k v) = typeable v"
| "typeable_op (UpdateOp k v) = typeable v"
| "typeable_op _ = True"

lemma run_typed:
  assumes "typeable_op op"
  shows "run_command A R (parseCommand (command_line op)) d w =
     (case perform A op (d, w) of (r, d, w) \<Rightarrow> Some ([reply_line op r], d, w))"
proof -
  have line: "''put '' @ k @ '' '' @ join_words ws = join_words (''put'' # k # ws)"
    "''update '' @ k @ '' '' @ join_words ws = join_words (''update'' # k # ws)"
    "''delete '' @ k = join_words [''delete'', k]" "''get '' @ k = join_words [''get'', k]"
    if "ws \<noteq> []" for k ws using that by (cases ws; simp)+
  note run = parse_join plain_command plain_int_string run_command_def with_key_def length_greater_0_conv [symmetric] Suc_le_eq
  show ?thesis
  proof (cases op)
    case (PutOp k v)
    then obtain ws where "list_all plain_word ws" "ws \<noteq> []" "v = join_words ws" using assms by (auto simp: typeable_def)
    then show ?thesis unfolding PutOp by (simp add: line run split_beta del: append.simps join_words.simps length_greater_0_conv)
  next
    case (UpdateOp k v)
    then obtain ws where "list_all plain_word ws" "ws \<noteq> []" "v = join_words ws" using assms by (auto simp: typeable_def)
    then show ?thesis unfolding UpdateOp by (simp add: line run split_beta del: append.simps join_words.simps length_greater_0_conv)
  next
    case (DeleteOp k)
    then show ?thesis by (simp add: line(3) [of "[[]]"] run split_beta del: append.simps join_words.simps length_greater_0_conv)
  next
    case (GetOp k)
    then show ?thesis by (simp add: line(4) [of "[[]]"] run split_beta del: append.simps join_words.simps length_greater_0_conv)
  qed
qed

lemma command_line_nonempty: "typeable_op op \<Longrightarrow> command_line op \<noteq> []"
  and parse_command_line: "typeable_op op \<Longrightarrow> parseCommand (command_line op) \<noteq> []"
proof -
  show *: "command_line op \<noteq> []" by (cases op) simp_all
  have "\<not> is_space (hd (command_line op))" by (cases op; simp) (code_simp)+
  then show "parseCommand (command_line op) \<noteq> []"
    using * unfolding parseCommand_def by (subst words_of.simps) (cases "command_line op", simp_all add: Let_def)
qed

subsection \<open>A session refines the map\<close>

lemma repl_exit:
  assumes "input i = ''exit''" "(refresh_step A ^^ steps i) s = (r, d, w)"
  shows "repl A R steps input i out s = Some (ExitCommand, out, d, w)"
proof -
  have "parseCommand ''exit'' = [''exit'']" by code_simp
  then show ?thesis using assms by (subst repl.simps) (simp add: run_command_def)
qed

lemma repl_typed:
  assumes "input i = command_line op" "(refresh_step A ^^ steps i) s = (r, d, w)" "typeable_op op" "perform A op (d, w) = (u, d', w')"
  shows "repl A R steps input i out s = repl A R steps input (Suc i) (out @ [reply_line op u]) (r, d', w')"
  using assms(2,4) command_line_nonempty [OF assms(3)] parse_command_line [OF assms(3)] run_typed [OF assms(3), of A "R i" d w]
  by (subst repl.simps) (simp add: assms(1))

text \<open>The replies to commands, as the map gives them.\<close>

definition replies :: "client_op list \<Rightarrow> (key \<rightharpoonup> string) \<Rightarrow> string list" where
  "replies ops m = map2 reply_line ops (fst (spec_all ops m))"

lemma replies_simps [simp]:
  "replies [] m = []" "replies (op # ops) m = reply_line op (fst (spec_op op m)) # replies ops (snd (spec_op op m))"
  by (simp_all add: replies_def split_beta Let_def)

subsection \<open>The background refresh of a settled cluster\<close>

text \<open>Every server reports the nodes of the client's table, or none.\<close>

definition agreed :: "string \<Rightarrow> kv_distributor \<Rightarrow> cluster \<Rightarrow> bool" where
  "agreed P d w \<longleftrightarrow>
     (\<forall>ep \<in> set (getAllEndpoints d). \<forall>g. memberships w (full_endpoint P ep) = Some g \<longrightarrow>
        live_members (getMemberView g) = [] \<or> same_nodes (live_members (getMemberView g)) (node_to_ip d))"

fun settled :: "kv_distributor \<Rightarrow> refresher \<Rightarrow> bool" where
  "settled d Resting = True"
| "settled d (Asking eps) = (set eps \<subseteq> set (getAllEndpoints d))"
| "settled d (Holding live) = same_nodes live (node_to_ip d)"

lemma memberships_rpc [simp]: "memberships (snd (rpc F x h w)) = memberships w"
  by (simp add: rpc_def Let_def split_beta split: option.split outcome.split)

lemma memberships_node [simp]:
  "memberships (snd (snd (readFromNode (access_of F P c a) n k d w))) = memberships w"
  "memberships (snd (writeToNode (access_of F P c a) n k v op d w)) = memberships w"
  "memberships (snd (deleteOnNode (access_of F P c a) n k d w)) = memberships w"
  using memberships_rpc [where h = "h :: kv_store \<Rightarrow> os \<Rightarrow> cint \<times> os" for h] memberships_rpc [where h = "h :: kv_store \<Rightarrow> os \<Rightarrow> string \<times> os" for h]
  by (simp_all add: readFromNode_def writeToNode_def deleteOnNode_def access_of_def KVClient_def KVClient_fetch_def
      KVClient_insert_def KVClient_update_def KVClient_deleteKey_def local_kv_def on_host_def Let_def split_beta
      split: RemoteOp.split sum.split)

lemma memberships_perform: "memberships (snd (snd (perform (access_of F P c a) op (d, w)))) = memberships w"
  by (cases op) (simp_all add: insert_key_def update_key_def write_both_def deleteKey_def get_def Let_def split_beta
      split: option.split)

lemma agreed_perform: "agreed P d w \<Longrightarrow> perform (access_of F P c a) op (d, w) = (u, d', w') \<Longrightarrow> agreed P d w'"
  using memberships_perform [of F P c a op d w] by (simp add: agreed_def)

lemma rpc_view: "snd (rpc F x (\<lambda>s \<sigma>. (v, \<sigma>)) w) = w\<lparr>calls := Suc (calls w)\<rparr>"
  "fst (rpc F x (\<lambda>s \<sigma>. (v, \<sigma>)) w) = Inr u \<Longrightarrow> u = v"
  by (auto simp: rpc_def Let_def split: option.splits outcome.splits)

lemma agreed_calls [simp]: "agreed P d (w\<lparr>calls := i\<rparr>) = agreed P d w"
  by (simp add: agreed_def)

lemma mirrors_calls [simp]: "mirrors P d (w\<lparr>calls := i\<rparr>) m = mirrors P d w m"
  by (simp add: mirrors_def)

lemma asked_view:
  assumes "agreed P d w" "ep \<in> set (getAllEndpoints d)"
  shows "\<exists>ms. KVClient_getMembership F P ep w = (Inr ms, w\<lparr>calls := Suc (calls w)\<rparr>)
     \<and> (live_members ms = [] \<or> same_nodes (live_members ms) (node_to_ip d))"
proof -
  let ?a = "full_endpoint P ep"
  obtain r where r: "rpc F ?a (\<lambda>s \<sigma>. (get_membership (memberships w ?a), \<sigma>)) w = (r, w\<lparr>calls := Suc (calls w)\<rparr>)"
      "\<And>u. r = Inr u \<Longrightarrow> u = get_membership (memberships w ?a)"
    using rpc_view [of F ?a "get_membership (memberships w ?a)" w] by (metis prod.collapse)
  have none: "live_members [] = []" by (simp add: live_members_def)
  have "live_members (get_membership (memberships w ?a)) = []
      \<or> same_nodes (live_members (get_membership (memberships w ?a))) (node_to_ip d)"
    using assms none by (cases "memberships w ?a") (auto simp: agreed_def get_membership_def)
  with r none show ?thesis by (cases r) (auto simp: KVClient_getMembership_def Let_def)
qed

lemma refresh_quiet:
  assumes "serving P c a d w" "mirrors P d w m" "agreed P d w" "settled d r"
  shows "\<exists>r' w'. refresh_step (access_of F P c a) (r, d, w) = (r', d, w')
     \<and> serving P c a d w' \<and> mirrors P d w' m \<and> agreed P d w' \<and> settled d r'"
proof (cases "(access_of F P c a, r, d, w)" rule: refresh_step.cases)
  case (3 A ep eps d' w')
  then have "ep \<in> set (getAllEndpoints d)" "set eps \<subseteq> set (getAllEndpoints d)" using assms(4) by auto
  with 3 asked_view [OF assms(3), of ep F] assms show ?thesis
    by (auto simp: access_of_def KVClient_def Let_def)
next
  case (4 A live d' w')
  with assms show ?thesis by (auto simp: take_over_def)
qed (use assms in auto)

lemma refresh_steps_quiet:
  assumes "serving P c a d w" "mirrors P d w m" "agreed P d w" "settled d r"
  shows "\<exists>r' w'. (refresh_step (access_of F P c a) ^^ i) (r, d, w) = (r', d, w')
     \<and> serving P c a d w' \<and> mirrors P d w' m \<and> agreed P d w' \<and> settled d r'"
proof (induction i)
  case (Suc i)
  then obtain r' w' where "(refresh_step (access_of F P c a) ^^ i) (r, d, w) = (r', d, w')"
      "serving P c a d w'" "mirrors P d w' m" "agreed P d w'" "settled d r'" by blast
  with refresh_quiet [OF this(2-5), of F] show ?case by simp
qed (use assms in simp)

subsection \<open>The replies of the loop\<close>

lemma repl_replies:
  assumes "serving P c a d w" "ring_current vn d" "\<forall>n. member_node d n \<longrightarrow> answers F P d n" "mirrors P d w m"
    and "agreed P d w" "settled d r"
    and "list_all (plain_op (node_boost F)) ops" "list_all typeable_op ops"
    and "\<forall>j < length ops. input (i + j) = command_line (ops ! j)" "input (i + length ops) = ''exit''"
  shows "\<exists>w'. repl (access_of F P c a) R steps input i out (r, d, w) = Some (ExitCommand, out @ replies ops m, d, w')
      \<and> serving P c a d w' \<and> mirrors P d w' (snd (spec_all ops m))"
  using assms(1,4-)
proof (induction ops arbitrary: i out w m r)
  case Nil
  from refresh_steps_quiet [OF Nil.prems(1-4), where F = F and i = "steps i"] Nil.prems(8) show ?case
    by (auto dest: repl_exit [where input = input and i = i and steps = steps, rotated])
next
  case (Cons op ops)
  obtain r0 w0 where q: "(refresh_step (access_of F P c a) ^^ steps i) (r, d, w) = (r0, d, w0)"
      "serving P c a d w0" "mirrors P d w0 m" "agreed P d w0" "settled d r0"
    using refresh_steps_quiet [OF Cons.prems(1-4), where F = F and i = "steps i"] by blast
  obtain u d1 w1 where p: "perform (access_of F P c a) op (d, w0) = (u, d1, w1)" by (metis prod_cases3)
  have *: "d1 = d" "serving P c a d w1" "u = fst (spec_op op m)" "mirrors P d w1 (snd (spec_op op m))"
    using perform_simulates [OF q(2) assms(2,3) q(3) _ p] Cons.prems(5) by simp_all
  have line: "input i = command_line op" "typeable_op op"
    using Cons.prems(7) [rule_format, of 0] Cons.prems(6) by simp_all
  have rest: "\<forall>j < length ops. input (Suc i + j) = command_line (ops ! j)" "input (Suc i + length ops) = ''exit''"
    "list_all (plain_op (node_boost F)) ops" "list_all typeable_op ops"
    using Cons.prems(5-8) by (auto dest: spec [of _ "Suc _"])
  from Cons.IH [OF *(2,4) agreed_perform [OF q(4) p] q(5) rest(3,4,1,2), of "out @ [reply_line op u]"]
  obtain w' where "repl (access_of F P c a) R steps input (Suc i) (out @ [reply_line op u]) (r0, d, w1)
        = Some (ExitCommand, (out @ [reply_line op u]) @ replies ops (snd (spec_op op m)), d, w')"
      "serving P c a d w'" "mirrors P d w' (snd (spec_all ops (snd (spec_op op m))))"
    by blast
  then show ?case
    using repl_typed [where input = input and i = i and steps = steps, OF line(1) q(1) line(2) p, where R = R and out = out] *(1,3)
    by (simp add: split_beta Let_def)
qed

lemma shares_trans: "shares c s \<Longrightarrow> shares s t \<Longrightarrow> shares c t"
  by (simp add: shares_def)

lemma serving_shares: "serving P srv a d w \<Longrightarrow> shares c srv \<Longrightarrow> serving P c a d w"
  unfolding serving_def by (metis shares_trans)

lemma serving_mutex: "serving P c a d w \<Longrightarrow> serving P c a d (on_host x (mutex_opened tag) w)"
  unfolding serving_def on_host_def by (fastforce intro: attached_mutex)

lemma holds_mutex [simp]: "holds P d (on_host x (mutex_opened tag) w) n k = holds P d w n k"
  by (simp add: holds_def on_host_def split: option.split)

lemma mirrors_mutex: "mirrors P d w m \<Longrightarrow> mirrors P d (on_host x (mutex_opened tag) w) m"
  by (simp add: mirrors_def)

text \<open>
  Claim C6: as long as all is well, what a user types is done to a map and what is printed is what the
  map answers, through the whole program. The side conditions are: a client process is started on the
  machine of the server configured first; all servers of the configuration run and can be reached, for
  the whole session; the membership is settled, that is, no server reports other nodes than the
  configured ones; both replicas of every key are what a map has; and the values are plain (the stores
  have the memory for them, they have no NUL character and do not read like an error message of the
  program) and typeable (words with single spaces between them). Then the process, given the lines of
  a sequence of puts, updates, deletions and reads and \<^verbatim>\<open>exit\<close>, with the background refresh taking its
  steps at any time, prints the help, the replies of that map, and \<^verbatim>\<open>Goodbye!\<close>, ends with exit code 0,
  and leaves both replicas of every key equal to the map it leads to.
\<close>

theorem session_refines_map:
  assumes "reliable (node_boost F)" "linked (node_tag ep) srv (hosts w a)" "storage_mode srv = parse_client_mode mode_line"
    and "open_config L fs ''config/config.json'' = Inr j" "read_size L j = Inr sz" "read_protocol L j = Inr P"
    and "get_endpoint L j 0 = Inr ep" "new_distributor L j = Inr d" "node_to_ip d \<noteq> []"
    and "serving P srv a d w" "\<forall>n. member_node d n \<longrightarrow> answers F P d n" "mirrors P d w m" "agreed P d w"
    and "list_all (plain_op (node_boost F)) ops" "list_all typeable_op ops"
    and "\<forall>i < length ops. input i = command_line (ops ! i)" "input (length ops) = ''exit''"
  shows "\<exists>w'. client_main F L fs a R steps mode_line input w =
       Some (Exited 0, help_text @ replies ops m @ [''Goodbye!''], w') \<and> mirrors P d w' (snd (spec_all ops m))"
proof -
  obtain c where c: "boot_client (node_boost F) L fs mode_line (hosts w a) = (Inr (c, d), mutex_opened (node_tag ep) (hosts w a))"
      "shares c srv" "conn_mode c = CLIENT"
    using boot_client_attaches [OF assms(1-5,7,8)] by blast
  let ?w = "on_host a (mutex_opened (node_tag ep)) w"
  have w: "on_host a (\<lambda>_. mutex_opened (node_tag ep) (hosts w a)) w = ?w" by (simp add: on_host_def)
  have ring: "ring_current default_virtual_nodes d"
    by (rule distributor_ok_ring [OF new_distributor_ok [OF assms(8)] assms(9)])
  have s: "serving P c a d ?w" by (rule serving_mutex [OF serving_shares [OF assms(10) c(2)]])
  have "agreed P d ?w" "settled d Resting" using assms(13) by (simp_all add: agreed_def on_host_def)
  from repl_replies [OF s ring assms(11) mirrors_mutex [OF assms(12)] this assms(14,15), of input 0 R steps help_text] assms(16,17)
  obtain w' where r: "repl (access_of F P c a) R steps input 0 help_text (Resting, d, ?w) = Some (ExitCommand, help_text @ replies ops m, d, w')"
      "mirrors P d w' (snd (spec_all ops m))" by auto
  have "on_host a (destroy_store (node_boost F) c) w' = w'" using c(3) by (simp add: on_host_def destroy_store_def)
  with r c(1) w assms(4,6) show ?thesis by (simp add: client_main_def and_then_def)
qed

subsection \<open>A session at two servers, one of them local\<close>

definition session_document :: json where
  "session_document = JObject
     [(''protocol'', JString ''tcp''), (''count_of_node'', JNumber 2),
      (''ip_addresses'', JObject [(''0'', JString ''h:5000''), (''1'', JString ''h:5001'')]),
      (''size'', JNumber 1), (''local_ip'', JString ''h:5000'')]"

definition session_world :: cluster where
  "session_world =
     \<lparr>hosts = (\<lambda>x. if x = ''tcp://h:5000'' then fresh_memory 9 ''5000'' empty_os else fresh_memory 9 ''5001'' empty_os),
      server_kv = [''tcp://h:5000'' \<mapsto> memory_server 9 ''5000'' empty_os, ''tcp://h:5001'' \<mapsto> memory_server 9 ''5001'' empty_os],
      memberships = (\<lambda>x. None), calls = 0\<rparr>"

lemma session_config:
  "open_config (demo_json session_document) demo_files ''config/config.json'' = Inr session_document"
  "read_size (demo_json session_document) session_document = Inr 1048576"
  "read_protocol (demo_json session_document) session_document = Inr ''tcp''"
  "get_endpoint (demo_json session_document) session_document 0 = Inr ''h:5000''"
  by (simp_all add: open_config_def demo_files_def demo_json_def session_document_def read_size_def get_endpoint_def
      read_protocol_def json_get_def and_then_def)

lemma session_client:
  "\<exists>d. new_distributor (demo_json session_document) session_document = Inr d
     \<and> node_to_ip d = [(0, ''h:5000''), (1, ''h:5001'')] \<and> local_node_id d = 0"
  by (simp add: new_distributor_def session_document_def demo_json_def read_count_def read_protocol_def get_endpoint_def
      read_ip_def json_get_def and_then_def numeral_2_eq_2 find_local_def)

lemma session_nodes:
  assumes "node_to_ip d = [(0, ''h:5000''), (1, ''h:5001'')]"
  shows "member_node d n \<longleftrightarrow> n = 0 \<or> n = 1" "node_address ''tcp'' d 0 = ''tcp://h:5000''" "node_address ''tcp'' d 1 = ''tcp://h:5001''"
  using assms by (simp_all add: member_node_def node_address_def getNodeToIP_def full_endpoint_def)

lemma session_serving:
  assumes "node_to_ip d = [(0, ''h:5000''), (1, ''h:5001'')]" "local_node_id d = 0"
  shows "serving ''tcp'' (memory_server 9 ''5000'' empty_os) ''tcp://h:5000'' d session_world"
  unfolding serving_def session_nodes(1) [OF assms(1)]
  using assms(2) attached_fresh [of 9 _ empty_os]
  by (auto simp: session_nodes(2,3) [OF assms(1)] session_world_def word_sless_alt shares_def)

lemma session_mirrors:
  assumes "node_to_ip d = [(0, ''h:5000''), (1, ''h:5001'')]" "ring_current vn d"
  shows "mirrors ''tcp'' d session_world Map.empty"
proof -
  have "holds ''tcp'' d session_world n k = None" if "member_node d n" for n k
    using that contents_fresh [of 9 _ empty_os] session_nodes [OF assms(1)] by (auto simp: holds_def session_world_def)
  then show ?thesis
    using member_primary [OF assms(2)] member_buddy [OF assms(2)] by (simp add: mirrors_def visible_def)
qed

theorem session_refines_map_witness:
  "\<exists>w'. client_main (demo_fabric []) (demo_json session_document) demo_files ''tcp://h:5000'' demo_draws (\<lambda>i. 3) ''memory''
       (nth [''put 5 hello world'', ''get 5'', ''delete 5'', ''get 5'', ''exit'']) session_world =
     Some (Exited 0, help_text @ [''Put operation completed successfully'', ''Value: hello world'',
       ''Delete operation completed successfully'', ''Value: RPC Failed'', ''Goodbye!''], w')"
proof -
  obtain d where d: "new_distributor (demo_json session_document) session_document = Inr d"
      "node_to_ip d = [(0, ''h:5000''), (1, ''h:5001'')]" "local_node_id d = 0"
    using session_client by blast
  let ?ops = "[PutOp 5 ''hello world'', GetOp 5, DeleteOp 5, GetOp 5]"
  let ?input = "nth [''put 5 hello world'', ''get 5'', ''delete 5'', ''get 5'', ''exit'']"
  have rel: "reliable (node_boost (demo_fabric []))" by (simp add: reliable_roomy)
  have tag: "node_tag ''h:5000'' = ''5000''" "parse_client_mode ''memory'' = MEMORY" by code_simp+
  have l: "linked (node_tag ''h:5000'') (memory_server 9 ''5000'' empty_os) (hosts session_world ''tcp://h:5000'')"
    "storage_mode (memory_server 9 ''5000'' empty_os) = parse_client_mode ''memory''"
    by (simp_all add: tag session_world_def linked_fresh) (simp add: memory_server_def)
  have ne: "node_to_ip d \<noteq> []" using d(2) by simp
  have ans: "\<forall>n. member_node d n \<longrightarrow> answers (demo_fabric []) ''tcp'' d n" by (simp add: demo_answers)
  have mir: "mirrors ''tcp'' d session_world Map.empty"
    by (rule session_mirrors [OF d(2) distributor_ok_ring [OF new_distributor_ok [OF d(1)] ne]])
  have agr: "agreed ''tcp'' d session_world" by (simp add: agreed_def session_world_def)
  have plain: "list_all (plain_op (node_boost (demo_fabric []))) ?ops"
    by (simp add: plain_value_def accepts_roomy isMissOrError_def starts_with_def)
  have "join_words [''hello'', ''world''] = ''hello world''" "list_all plain_word [''hello'', ''world'']" by code_simp+
  then have "typeable ''hello world''" unfolding typeable_def by (intro exI [of _ "[''hello'', ''world'']"]) simp
  then have typed: "list_all typeable_op ?ops" by simp
  have "to_string 5 = ''5''" by code_simp
  then have input: "\<forall>i < length ?ops. ?input i = command_line (?ops ! i)" "?input (length ?ops) = ''exit''"
    by (simp_all add: less_Suc_eq)
  from session_refines_map [OF rel l session_config d(1) ne session_serving [OF d(2,3)] ans mir agr plain typed input, of demo_draws "\<lambda>i. 3"]
  show ?thesis by auto
qed

end
