(* ===== verification/HostContents.thy ===== *)
theory HostContents
  imports KvLife Distributor
begin

text \<open>
  Where the entries of a host come from: every map in its segments and in the images of its files has
  only pairs of a given set, and every operation on it, the start of a store with all levels of
  recovery, its end and a crash of the machine keep this.
\<close>

subsection \<open>Where the entries of a host come from\<close>

definition segment_from :: "(key \<times> string) set \<Rightarrow> segment \<Rightarrow> bool" where
  "segment_from W g \<longleftrightarrow> (\<forall>m. shared_map g = Some m \<longrightarrow> set m \<subseteq> W)"

definition os_from :: "(key \<times> string) set \<Rightarrow> os \<Rightarrow> bool" where
  "os_from W \<sigma> \<longleftrightarrow> (\<forall>i. segment_from W (segments \<sigma> i) \<and> segment_from W (disk \<sigma> i))"

fun command_from :: "(key \<times> string) set \<Rightarrow> kv_command \<Rightarrow> bool" where
  "command_from W (InsertCmd k v) \<longleftrightarrow> (k, c_str v) \<in> W"
| "command_from W (UpdateCmd k v) \<longleftrightarrow> (k, c_str v) \<in> W"
| "command_from W (DeleteCmd k) \<longleftrightarrow> True"

lemma segment_from_mono: "segment_from W g \<Longrightarrow> W \<subseteq> W' \<Longrightarrow> segment_from W' g"
  by (auto simp: segment_from_def)

lemma os_from_mono: "os_from W \<sigma> \<Longrightarrow> W \<subseteq> W' \<Longrightarrow> os_from W' \<sigma>"
  by (simp add: os_from_def) (blast intro: segment_from_mono)

lemma segment_from_None [simp]: "shared_map g = None \<Longrightarrow> segment_from W g"
  by (simp add: segment_from_def)

lemma map_at_from: "os_from W \<sigma> \<Longrightarrow> set (map_at p \<sigma>) \<subseteq> W"
  by (cases "shared_map (segments \<sigma> p)") (simp_all add: os_from_def segment_from_def map_at_def)

lemma os_from_set_map:
  "os_from W \<sigma> \<Longrightarrow> \<forall>t. m = Some t \<longrightarrow> set t \<subseteq> W \<Longrightarrow> os_from W (set_map i m \<sigma>)"
  by (simp add: os_from_def set_map_def segment_from_def)

lemma os_from_flush: "os_from W \<sigma> \<Longrightarrow> os_from W (snd (flush b i \<sigma>))"
  by (simp add: os_from_def flush_def)

lemma os_from_Sync: "os_from W \<sigma> \<Longrightarrow> os_from W (Sync b s \<sigma>)"
  by (simp add: Sync_def os_from_flush split: StorageMode.split option.split)

lemma set_update_subset: "set (AList.update k v m) \<subseteq> insert (k, v) (set m)"
  by (induction m) auto

lemma set_delete_subset: "set (AList.delete k m) \<subseteq> set m"
  by (auto simp: AList.delete_eq)

lemma os_from_exec:
  assumes "os_from W \<sigma>" "command_from W cmd"
  shows "os_from W (snd (exec b s cmd \<sigma>))"
proof -
  have put: "os_from W (Sync b s (set_map p (Some (AList.update k v (map_at p \<sigma>))) \<sigma>))" if "(k, v) \<in> W" for p k v
    using map_at_from [OF assms(1), of p] set_update_subset [of k v "map_at p \<sigma>"] that assms(1)
    by (intro os_from_Sync os_from_set_map) auto
  have del: "os_from W (Sync b s (set_map p (Some (AList.delete k (map_at p \<sigma>))) \<sigma>))" for p k
    using map_at_from [OF assms(1), of p] set_delete_subset [of k "map_at p \<sigma>"] assms(1)
    by (intro os_from_Sync os_from_set_map) auto
  from assms put del show ?thesis
    by (cases cmd) (simp_all add: Insert_def Update_def Delete_def Let_def split: option.split)
qed

lemma Find_from:
  assumes "os_from W \<sigma>" "\<not> isMissOrError (Find b s k \<sigma>)"
  shows "\<exists>v. (k, v) \<in> W \<and> Find b s k \<sigma> = c_str v"
proof -
  have e: "isMissOrError (''Error: '' @ t)" for t by (simp add: isMissOrError_def starts_with_def)
  have m: "isMissOrError ''Map not found''" "isMissOrError ''key not found''" by (simp_all add: isMissOrError_def)
  obtain p v where "lookup (map_at p \<sigma>) k = Some v" "Find b s k \<sigma> = c_str v"
    using assms(2) e m by (auto simp: Find_def split: option.splits if_splits)
  moreover have "(k, v) \<in> W" if "lookup (map_at p \<sigma>) k = Some v" for p v
    using that map_at_from [OF assms(1), of p] map_of_SomeD by fastforce
  ultimately show ?thesis by blast
qed

subsection \<open>Starting, stopping and crashing\<close>

definition keeps_from :: "(key \<times> string) set \<Rightarrow> 'a step \<Rightarrow> bool" where
  "keeps_from W f \<longleftrightarrow> (\<forall>w. os_from W (snd w) \<longrightarrow> os_from W (snd (snd (f w))))"

named_theorems keeps

lemma keepsI: "(\<And>s \<sigma>. os_from W \<sigma> \<Longrightarrow> os_from W (snd (snd (f (s, \<sigma>))))) \<Longrightarrow> keeps_from W f"
  by (simp add: keeps_from_def)

lemma keepsD: "keeps_from W f \<Longrightarrow> os_from W \<sigma> \<Longrightarrow> os_from W (snd (snd (f (s, \<sigma>))))"
  by (simp add: keeps_from_def)

lemma keeps_andThen [keeps]: "keeps_from W f \<Longrightarrow> keeps_from W g \<Longrightarrow> keeps_from W (andThen f g)"
  by (simp add: keeps_from_def andThen_def split_beta split: sum.split del: split_paired_All)

lemma keeps_catch [keeps]: "keeps_from W f \<Longrightarrow> (\<And>e. keeps_from W (h e)) \<Longrightarrow> keeps_from W (catch_interprocess f h)"
  by (simp add: keeps_from_def catch_interprocess_def split_beta split: sum.split del: split_paired_All)

lemma os_from_frame:
  "segments \<sigma>' = segments \<sigma> \<Longrightarrow> disk \<sigma>' = disk \<sigma> \<Longrightarrow> os_from W \<sigma> \<Longrightarrow> os_from W \<sigma>'"
  by (simp add: os_from_def)

lemma os_from_simps [simp]:
  "os_from W (remove_shm n \<sigma>) = os_from W \<sigma>" "os_from W (remove_mutex n \<sigma>) = os_from W \<sigma>"
  "os_from W (\<sigma>\<lparr>files := fs\<rparr>) = os_from W \<sigma>" "os_from W (\<sigma>\<lparr>mutexes := ms\<rparr>) = os_from W \<sigma>"
  "os_from W (\<sigma>\<lparr>shm_objects := so\<rparr>) = os_from W \<sigma>"
  by (simp_all add: os_from_def remove_shm_def remove_mutex_def)

lemma os_from_new_segment: "os_from W \<sigma> \<Longrightarrow> os_from W (snd (new_segment sz \<sigma>))"
  by (auto simp: os_from_def new_segment_def)

lemma create_shm_from: "create_shm b n sz \<sigma> = Inr (i, \<sigma>') \<Longrightarrow> os_from W \<sigma> \<Longrightarrow> os_from W \<sigma>'"
  using os_from_new_segment [of W \<sigma> sz]
  by (auto simp: create_shm_def split_beta Let_def split: if_splits option.splits)

lemma create_file_from: "create_file b n sz \<sigma> = Inr (i, \<sigma>') \<Longrightarrow> os_from W \<sigma> \<Longrightarrow> os_from W \<sigma>'"
  using os_from_new_segment [of W \<sigma> sz]
  by (auto simp: create_file_def split_beta Let_def split: if_splits option.splits)

lemma remove_file_from: "remove_file b n \<sigma> = Inr \<sigma>' \<Longrightarrow> os_from W \<sigma> \<Longrightarrow> os_from W \<sigma>'"
  by (auto simp: remove_file_def split: option.splits)

lemma keeps_createMemoryStorage [keeps]: "keeps_from W (createMemoryStorage b sz)"
  by (rule keepsI)
    (auto simp: createMemoryStorage_def Let_def intro!: os_from_set_map dest: create_shm_from split: sum.split option.split)

lemma keeps_createNewFile [keeps]: "keeps_from W (createNewFile b sz)"
  by (rule keepsI)
    (auto simp: createNewFile_def Let_def intro!: os_from_set_map os_from_flush dest: create_file_from
      split: sum.split option.split)

lemma keeps_createPersistentStorage [keeps]: "keeps_from W (createPersistentStorage b sz)"
  using keepsD [OF keeps_createNewFile [of W b sz]]
  by (intro keepsI) (auto simp: createPersistentStorage_def Let_def dest: remove_file_from split: sum.split option.split)

lemma keeps_connect [keeps]:
  "keeps_from W (connectToMemoryStorage b)" "keeps_from W (connectToPersistentStorage b)"
  by (auto intro!: keepsI simp: connectToMemoryStorage_def connectToPersistentStorage_def Let_def split: sum.split)

lemma remove_until_error_from: "os_from W \<sigma> \<Longrightarrow> os_from W (remove_until_error b fs \<sigma>)"
  by (induction b fs \<sigma> rule: remove_until_error.induct) (auto dest: remove_file_from split: sum.split)

lemma keeps_cleanupStorage [keeps]: "keeps_from W (cleanupStorage b)"
  by (rule keepsI)
    (auto simp: cleanupStorage_def Let_def intro!: remove_until_error_from dest: remove_file_from
      split: StorageMode.split sum.split)

lemma keeps_mutex_steps [keeps]: "keeps_from W (open_mutex_step b)" "keeps_from W remove_mutex_step"
  by (auto intro!: keepsI simp: open_mutex_step_def open_or_create_mutex_def remove_mutex_step_def split: option.split)

lemma keeps_reopen [keeps]: "keeps_from W (reopen_existing b)"
  by (auto intro!: keepsI simp: reopen_existing_def split: StorageMode.split sum.split)

lemma keeps_storage [keeps]: "keeps_from W (create_storage b sz)" "keeps_from W (connect_storage b)"
  by (auto intro!: keepsI keepsD [OF keeps_createMemoryStorage] keepsD [OF keeps_createPersistentStorage]
      keepsD [OF keeps_connect(1)] keepsD [OF keeps_connect(2)]
      simp: create_storage_def connect_storage_def split: StorageMode.split)

lemma keeps_constructor: "keeps_from W (catch_interprocess (try_block b sz conn) (recover b sz conn))"
proof (rule keeps_catch)
  show "keeps_from W (try_block b sz conn)" by (cases conn) (simp_all add: try_block_def keeps)
  have r: "keeps_from W (recreate_all b sz)" by (simp add: recreate_all_def keeps)
  show "keeps_from W (recover b sz conn e)" for e
    using keeps_catch [OF keeps_reopen r, of b] by (cases conn) (simp_all add: recover_def keeps_from_def)
qed

lemma os_from_new_store: "os_from W \<sigma> \<Longrightarrow> os_from W (snd (new_store b sz mode conn tag \<sigma>))"
  using keepsD [OF keeps_constructor [of W b sz conn], of \<sigma> "tag_names tag (initial_store sz mode conn)"]
  by (simp add: new_store_def split_beta split: sum.split)

lemma os_from_get_instance: "os_from W \<sigma> \<Longrightarrow> os_from W (snd (get_instance b inst sz mode conn tag \<sigma>))"
  by (simp add: get_instance_def os_from_new_store split: option.split)

lemma os_from_destroy: "os_from W \<sigma> \<Longrightarrow> os_from W (destroy_store b s \<sigma>)"
  by (auto simp: destroy_store_def Let_def intro!: keepsD [OF keeps_cleanupStorage] os_from_set_map os_from_flush
      split: ConnectionMode.split StorageMode.split option.split)

lemma os_from_crash: "os_from W \<sigma> \<Longrightarrow> os_from W (machine_crash \<sigma>)"
  by (simp add: os_from_def machine_crash_def)

text \<open>
  A crash can also find an image of which only some pages have been written: its entries are those of
  the image before or of the mapping.
\<close>

definition mixed_image :: "segment \<Rightarrow> segment \<Rightarrow> segment \<Rightarrow> bool" where
  "mixed_image old new img \<longleftrightarrow>
     (let present = (\<lambda>g. case shared_map g of None \<Rightarrow> [] | Some m \<Rightarrow> m)
      in set (present img) \<subseteq> set (present old) \<union> set (present new))"

lemma os_from_mixed:
  assumes "os_from W \<sigma>" "mixed_image (disk \<sigma> i) (segments \<sigma> i) img"
  shows "os_from W (\<sigma>\<lparr>disk := (disk \<sigma>)(i := img)\<rparr>)"
proof -
  have present: "set (case shared_map g of None \<Rightarrow> [] | Some m \<Rightarrow> m) \<subseteq> W \<longleftrightarrow> segment_from W g" for g
    by (cases "shared_map g") (simp_all add: segment_from_def)
  have "segment_from W (disk \<sigma> i)" "segment_from W (segments \<sigma> i)" using assms(1) by (simp_all add: os_from_def)
  then have "segment_from W img"
    using assms(2) unfolding mixed_image_def Let_def by (simp only: flip: present) blast
  with assms(1) show ?thesis by (simp add: os_from_def)
qed

lemma os_from_write_back: "os_from W \<sigma> \<Longrightarrow> os_from W (write_back I \<sigma>)"
  by (simp add: os_from_def write_back_def)

end
