(* ===== verification/Tasks.thy ===== *)
theory Tasks
  imports Distributor
begin

text \<open>
  The operations of the distributor cut into the accesses to single nodes they consist of. The lock
  of a distributor keeps other operations of the same client out, but not those of other clients, so
  between two accesses of one operation any number of accesses of others may happen. An operation
  that runs undisturbed is the function of \<open>Distributor\<close>.
\<close>

subsection \<open>Tasks\<close>

datatype request =
    PutRequest key string
  | UpdateRequest key string
  | DeleteRequest key
  | GetRequest key

datatype task =
    Idle
  | Replied key string
  | Writing RemoteOp key string "node_id list"
  | Deleting key "node_id list"
  | ReadingPrimary key node_id node_id
  | ReadingBuddy key node_id node_id
  | Migrating key node_id string

fun finished :: "task \<Rightarrow> bool" where
  "finished Idle = True"
| "finished (Replied k v) = True"
| "finished _ = False"

text \<open>The nodes of a key, in the order of the accesses.\<close>

definition replicas_of :: "kv_distributor \<Rightarrow> key \<Rightarrow> node_id list" where
  "replicas_of d k =
     (let p = getPrimaryNode (hash_ring d) k; b = getBuddyNode (hash_ring d) k in if b \<noteq> p then [p, b] else [p])"

fun start_task :: "request \<Rightarrow> kv_distributor \<Rightarrow> task" where
  "start_task (PutRequest k v) d = Writing INSERT k v (replicas_of d k)"
| "start_task (UpdateRequest k v) d = Writing UPDATE k v (replicas_of d k)"
| "start_task (DeleteRequest k) d = Deleting k (replicas_of d k)"
| "start_task (GetRequest k) d = ReadingPrimary k (getPrimaryNode (hash_ring d) k) (getBuddyNode (hash_ring d) k)"

text \<open>One access, and what is left to do after it.\<close>

fun task_step :: "'w access \<Rightarrow> task \<Rightarrow> kv_distributor \<Rightarrow> 'w \<Rightarrow> task \<times> kv_distributor \<times> 'w" where
  "task_step A (Writing op k v []) d w = (Idle, d, w)"
| "task_step A (Writing op k v (n # ns)) d w = (Writing op k v ns, writeToNode A n k v op d w)"
| "task_step A (Deleting k []) d w = (Idle, d, w)"
| "task_step A (Deleting k (n # ns)) d w = (Deleting k ns, deleteOnNode A n k d w)"
| "task_step A (ReadingPrimary k p b) d w =
     (case readFromNode A p k d w of
        (Some v, d, w) \<Rightarrow> (Replied k v, d, w)
      | (None, d, w) \<Rightarrow> (if b \<noteq> p then ReadingBuddy k p b else Replied k ''RPC Failed'', d, w))"
| "task_step A (ReadingBuddy k p b) d w =
     (case readFromNode A b k d w of
        (Some v, d, w) \<Rightarrow> (Migrating k p v, d, w)
      | (None, d, w) \<Rightarrow> (Replied k ''RPC Failed'', d, w))"
| "task_step A (Migrating k p v) d w = (Replied k v, writeToNode A p k v INSERT d w)"
| "task_step A t d w = (t, d, w)"

fun task_steps :: "'w access \<Rightarrow> nat \<Rightarrow> task \<Rightarrow> kv_distributor \<Rightarrow> 'w \<Rightarrow> task \<times> kv_distributor \<times> 'w" where
  "task_steps A 0 t d w = (t, d, w)"
| "task_steps A (Suc i) t d w = (let (t, d, w) = task_step A t d w in task_steps A i t d w)"

subsection \<open>Undisturbed, a task is the operation\<close>

definition run_task :: "'w access \<Rightarrow> request \<Rightarrow> kv_distributor \<Rightarrow> 'w \<Rightarrow> task \<times> kv_distributor \<times> 'w" where
  "run_task A r d w = task_steps A 3 (start_task r d) d w"

lemma finished_stays: "finished t \<Longrightarrow> task_step A t d w = (t, d, w)"
  by (cases t) simp_all

lemma run_task_put: "run_task A (PutRequest k v) d w = (Idle, insert_key A k v d w)"
  and run_task_update: "run_task A (UpdateRequest k v) d w = (Idle, update_key A k v d w)"
  and run_task_delete: "run_task A (DeleteRequest k) d w = (Idle, deleteKey A k d w)"
  by (simp_all add: run_task_def replicas_of_def insert_key_def update_key_def write_both_def deleteKey_def Let_def
      numeral_3_eq_3 split_beta)

lemma run_task_get: "run_task A (GetRequest k) d w = (case get A k d w of (v, d, w) \<Rightarrow> (Replied k v, d, w))"
  by (auto simp: run_task_def get_def Let_def numeral_3_eq_3 split_beta split: prod.split option.split)

end
