(* ===== verification/ClusterRuns.thy ===== *)
theory ClusterRuns
  imports HostContents Tasks ClusterStore ClientMain
begin

text \<open>
  Runs of the whole system: any number of clients whose accesses interleave, requests that reach
  their server after the client has given them up, refreshes of the clients' node tables, gossip, and
  servers and clients that start, stop and crash. The invariant: no value comes from nowhere.
\<close>

subsection \<open>The system\<close>

record client_proc =
  cl_store :: kv_store
  cl_host :: address
  cl_dist :: kv_distributor
  cl_refresher :: refresher
  cl_task :: task

text \<open>
  The clients, the cluster, the requests that were given up and may still arrive, and, only for the
  statement of properties, the values clients have asked to be stored.
\<close>

record system =
  clients :: "nat \<Rightarrow> client_proc"
  servers :: cluster
  late :: "(address \<times> kv_command) multiset"
  asked :: "(key \<times> string) set"

definition client_access :: "fabric \<Rightarrow> string \<Rightarrow> client_proc \<Rightarrow> cluster access" where
  "client_access F P c = access_of F P (cl_store c) (cl_host c)"

definition remote_request :: "string \<Rightarrow> kv_distributor \<Rightarrow> node_id \<Rightarrow> kv_command \<Rightarrow> (address \<times> kv_command) option" where
  "remote_request P d n cmd = (if n <s 0 \<or> isLocalNode n d then None else Some (node_address P d n, cmd))"

text \<open>The request for a change of the store that the next access of a task sends.\<close>

fun next_request :: "string \<Rightarrow> kv_distributor \<Rightarrow> task \<Rightarrow> (address \<times> kv_command) option" where
  "next_request P d (Writing op k v (n # ns)) = remote_request P d n (write_cmd op k v)"
| "next_request P d (Deleting k (n # ns)) = remote_request P d n (DeleteCmd k)"
| "next_request P d (Migrating k p v) = remote_request P d p (InsertCmd k v)"
| "next_request P d _ = None"

definition given_up :: "fabric \<Rightarrow> string \<Rightarrow> client_proc \<Rightarrow> cluster \<Rightarrow> (address \<times> kv_command) multiset" where
  "given_up F P c w =
     (case next_request P (cl_dist c) (cl_task c) of
        None \<Rightarrow> {#}
      | Some (x, cmd) \<Rightarrow> if fate F (calls w) x = RequestLost then {#(x, cmd)#} else {#})"

fun request_values :: "request \<Rightarrow> (key \<times> string) set" where
  "request_values (PutRequest k v) = {(k, v)}"
| "request_values (UpdateRequest k v) = {(k, v)}"
| "request_values _ = {}"

fun takes_lock :: "refresher \<Rightarrow> bool" where
  "takes_lock (Asking eps) = False"
| "takes_lock _ = True"

definition set_client :: "nat \<Rightarrow> client_proc \<Rightarrow> cluster \<Rightarrow> system \<Rightarrow> system" where
  "set_client i c w S = S\<lparr>clients := (clients S)(i := c), servers := w\<rparr>"

text \<open>
  The steps. A client begins an operation when it has finished the one before; an access takes place,
  and its request may be kept for later; such a request arrives; the refresh takes a step, with the
  lock of the distributor where it needs it; gossip changes the member tables; the system of a host
  writes images of its files back, whole or in part; a server is killed, exits, loses its machine or
  starts; a client starts.
\<close>

inductive cluster_step :: "fabric \<Rightarrow> string \<Rightarrow> system \<Rightarrow> system \<Rightarrow> bool"
  for F :: fabric and P :: string where
  begin_op:
    "c = clients S i \<Longrightarrow> finished (cl_task c) \<Longrightarrow>
     cluster_step F P S (set_client i (c\<lparr>cl_task := start_task r (cl_dist c)\<rparr>) (servers S)
       (S\<lparr>asked := asked S \<union> request_values r\<rparr>))"
| access_node:
    "c = clients S i \<Longrightarrow> task_step (client_access F P c) (cl_task c) (cl_dist c) (servers S) = (t, d, w) \<Longrightarrow>
     cluster_step F P S (set_client i (c\<lparr>cl_task := t, cl_dist := d\<rparr>) w
       (S\<lparr>late := late S + given_up F P c (servers S)\<rparr>))"
| arrive_late:
    "(x, cmd) \<in># late S \<Longrightarrow> server_kv (servers S) x = Some s \<Longrightarrow>
     cluster_step F P S (S\<lparr>servers := run_on x (node_boost F) s cmd (servers S) (calls (servers S)),
       late := late S - {#(x, cmd)#}\<rparr>)"
| refresh:
    "c = clients S i \<Longrightarrow> takes_lock (cl_refresher c) \<longrightarrow> finished (cl_task c) \<Longrightarrow>
     refresh_step (client_access F P c) (cl_refresher c, cl_dist c, servers S) = (r, d, w) \<Longrightarrow>
     cluster_step F P S (set_client i (c\<lparr>cl_refresher := r, cl_dist := d\<rparr>) w S)"
| gossip: "cluster_step F P S (S\<lparr>servers := (servers S)\<lparr>memberships := ms\<rparr>\<rparr>)"
| images_written:
    "cluster_step F P S (S\<lparr>servers := on_host x (write_back I) (servers S)\<rparr>)"
| pages_written:
    "mixed_image (disk (hosts (servers S) x) i) (segments (hosts (servers S) x) i) img \<Longrightarrow>
     cluster_step F P S (S\<lparr>servers := on_host x (\<lambda>\<sigma>. \<sigma>\<lparr>disk := (disk \<sigma>)(i := img)\<rparr>) (servers S)\<rparr>)"
| server_killed: "cluster_step F P S (S\<lparr>servers := (servers S)\<lparr>server_kv := (server_kv (servers S))(x := None)\<rparr>\<rparr>)"
| server_exits:
    "server_kv (servers S) x = Some s \<Longrightarrow>
     cluster_step F P S (S\<lparr>servers := on_host x (destroy_store (node_boost F) s)
       ((servers S)\<lparr>server_kv := (server_kv (servers S))(x := None)\<rparr>)\<rparr>)"
| machine_crashes:
    "cluster_step F P S (S\<lparr>servers := on_host x machine_crash
       ((servers S)\<lparr>server_kv := (server_kv (servers S))(x := None)\<rparr>)\<rparr>)"
| server_starts:
    "get_instance (node_boost F) None sz mode SERVER tag (hosts (servers S) x) = (Inr s, \<sigma>) \<Longrightarrow>
     cluster_step F P S (S\<lparr>servers := on_host x (\<lambda>_. \<sigma>)
       ((servers S)\<lparr>server_kv := (server_kv (servers S))(x := Some s)\<rparr>)\<rparr>)"
| start_fails:
    "get_instance (node_boost F) None sz mode conn tag (hosts (servers S) x) = (Inl e, \<sigma>) \<Longrightarrow>
     cluster_step F P S (S\<lparr>servers := on_host x (\<lambda>_. \<sigma>) (servers S)\<rparr>)"
| client_starts:
    "get_instance (node_boost F) None sz mode CLIENT tag (hosts (servers S) x) = (Inr s, \<sigma>) \<Longrightarrow>
     cluster_step F P S (set_client i \<lparr>cl_store = s, cl_host = x, cl_dist = d, cl_refresher = Resting, cl_task = Idle\<rparr>
       (on_host x (\<lambda>_. \<sigma>) (servers S)) S)"

abbreviation cluster_run :: "fabric \<Rightarrow> string \<Rightarrow> system \<Rightarrow> system \<Rightarrow> bool" where
  "cluster_run F P \<equiv> (cluster_step F P)\<^sup>*\<^sup>*"

subsection \<open>Nothing but what was asked\<close>

definition cluster_from :: "(key \<times> string) set \<Rightarrow> cluster \<Rightarrow> bool" where
  "cluster_from W w \<longleftrightarrow> (\<forall>x. os_from W (hosts w x))"

fun task_from :: "(key \<times> string) set \<Rightarrow> task \<Rightarrow> bool" where
  "task_from W (Writing op k v ns) \<longleftrightarrow> (k, c_str v) \<in> W"
| "task_from W (Migrating k p v) \<longleftrightarrow> (k, v) \<in> W \<and> c_str v = v"
| "task_from W (Replied k v) \<longleftrightarrow> v = ''RPC Failed'' \<or> (k, v) \<in> W"
| "task_from W _ \<longleftrightarrow> True"

definition stored_values :: "(key \<times> string) set \<Rightarrow> (key \<times> string) set" where
  "stored_values A = (\<lambda>(k, v). (k, c_str v)) ` A"

definition system_from :: "system \<Rightarrow> bool" where
  "system_from S \<longleftrightarrow>
     (let W = stored_values (asked S) in
      cluster_from W (servers S) \<and> (\<forall>i. task_from W (cl_task (clients S i))) \<and> (\<forall>(x, cmd) \<in># late S. command_from W cmd))"

lemma stored_values_c_str: "(k, v) \<in> stored_values A \<Longrightarrow> c_str v = v"
  by (auto simp: stored_values_def)

lemma stored_values_mono: "A \<subseteq> B \<Longrightarrow> stored_values A \<subseteq> stored_values B"
  by (auto simp: stored_values_def)

lemma command_from_mono: "command_from W cmd \<Longrightarrow> W \<subseteq> W' \<Longrightarrow> command_from W' cmd"
  by (cases cmd) auto

lemma task_from_mono: "task_from W t \<Longrightarrow> W \<subseteq> W' \<Longrightarrow> task_from W' t"
  by (cases t) auto

lemma cluster_from_mono: "cluster_from W w \<Longrightarrow> W \<subseteq> W' \<Longrightarrow> cluster_from W' w"
  by (auto simp: cluster_from_def intro: os_from_mono)

lemma cluster_from_simps [simp]:
  "cluster_from W (w\<lparr>calls := i\<rparr>) = cluster_from W w" "cluster_from W (w\<lparr>memberships := ms\<rparr>) = cluster_from W w"
  "cluster_from W (w\<lparr>server_kv := kv\<rparr>) = cluster_from W w"
  by (simp_all add: cluster_from_def)

lemma cluster_from_on_host: "cluster_from W w \<Longrightarrow> os_from W (f (hosts w x)) \<Longrightarrow> cluster_from W (on_host x f w)"
  by (simp add: cluster_from_def on_host_def)

lemma cluster_from_run_on: "cluster_from W w \<Longrightarrow> command_from W cmd \<Longrightarrow> cluster_from W (run_on x b s cmd w i)"
  by (simp add: cluster_from_def run_on_def os_from_exec)

lemma cluster_from_rpc:
  assumes "cluster_from W w" "\<And>s \<sigma>. os_from W \<sigma> \<Longrightarrow> os_from W (snd (h s \<sigma>))"
  shows "cluster_from W (snd (rpc F x h w))"
  using assms by (auto simp: cluster_from_def rpc_def Let_def split_beta split: option.split outcome.split)

lemma write_from:
  assumes "cluster_from W w" "(k, c_str v) \<in> W"
  shows "cluster_from W (snd (writeToNode (access_of F P c a) n k v op d w))"
proof -
  have e: "os_from W (snd (Insert b s k v \<sigma>))" "os_from W (snd (Update b s k v \<sigma>))" if "os_from W \<sigma>" for b s \<sigma>
    using os_from_exec [OF that, of "InsertCmd k v" b s] os_from_exec [OF that, of "UpdateCmd k v" b s] assms(2) by simp_all
  then have "cluster_from W (snd (rpc F x (\<lambda>s. kv_insert (node_boost F) s k v) w))"
    "cluster_from W (snd (rpc F x (\<lambda>s. kv_update (node_boost F) s k v) w))" for x
    by (auto intro!: cluster_from_rpc assms(1) simp: kv_insert_def kv_update_def)
  moreover have "cluster_from W (on_host a (\<lambda>\<sigma>. snd (Insert b c k v \<sigma>)) w)"
    "cluster_from W (on_host a (\<lambda>\<sigma>. snd (Update b c k v \<sigma>)) w)" for b
    using assms(1) e by (simp_all add: cluster_from_def on_host_def)
  ultimately show ?thesis
    using assms(1)
    by (auto simp: writeToNode_def Let_def access_of_def local_kv_def KVClient_def KVClient_insert_def KVClient_update_def
        split: RemoteOp.split)
qed

lemma delete_from:
  assumes "cluster_from W w"
  shows "cluster_from W (snd (deleteOnNode (access_of F P c a) n k d w))"
proof -
  have e: "os_from W (snd (Delete b s k \<sigma>))" if "os_from W \<sigma>" for b s \<sigma>
    using os_from_exec [OF that, of "DeleteCmd k" b s] by simp
  then have "cluster_from W (snd (rpc F x (\<lambda>s. kv_delete (node_boost F) s k) w))" for x
    by (auto intro!: cluster_from_rpc assms simp: kv_delete_def)
  moreover have "cluster_from W (on_host a (\<lambda>\<sigma>. snd (Delete b c k \<sigma>)) w)" for b
    using assms e by (simp add: cluster_from_def on_host_def)
  ultimately show ?thesis
    using assms by (auto simp: deleteOnNode_def Let_def access_of_def local_kv_def KVClient_def KVClient_deleteKey_def)
qed

lemma read_from:
  assumes "cluster_from W w" "readFromNode (access_of F P c a) n k d w = (r, d', w')"
  shows "cluster_from W w'" "r = Some v \<Longrightarrow> \<exists>u. (k, u) \<in> W \<and> v = c_str u"
proof -
  have found: "\<exists>u. (k, u) \<in> W \<and> v = c_str u"
    if "v = Find (node_boost F) s k (hosts w x)" "\<not> isMissOrError v" for s x
    using Find_from [of W "hosts w x" "node_boost F" s k] assms(1) that by (auto simp: cluster_from_def)
  let ?h = "\<lambda>s. kv_fetch (node_boost F) s k"
  have world: "cluster_from W (snd (rpc F x ?h w))" for x
    by (rule cluster_from_rpc [OF assms(1)]) (simp add: kv_fetch_def)
  have reply: "\<exists>s. u = Find (node_boost F) s k (hosts w x)" if "fst (rpc F x ?h w) = Inr u" for u x
    using that by (auto simp: rpc_def kv_fetch_def Let_def split: option.splits outcome.splits)
  show "cluster_from W w'"
    using assms world by (auto simp: readFromNode_def access_of_def KVClient_def KVClient_fetch_def Let_def
        split: if_splits prod.splits sum.splits dest!: arg_cong [where f = snd])
  show "\<exists>u. (k, u) \<in> W \<and> v = c_str u" if "r = Some v"
  proof (cases "isLocalNode n (touch_node n d)")
    case True
    with assms(2) that show ?thesis
      using found [of c a] by (auto simp: readFromNode_def access_of_def local_kv_def Let_def split: if_splits)
  next
    case False
    let ?x = "full_endpoint P (getNodeToIP n (touch_node n d))"
    have "fst (rpc F ?x ?h w) = Inr v" "\<not> isMissOrError v"
      using assms(2) that False
      by (auto simp: readFromNode_def access_of_def KVClient_def KVClient_fetch_def Let_def split: if_splits prod.splits sum.splits)
    with reply found show ?thesis by blast
  qed
qed

lemma task_step_from:
  assumes "cluster_from W w" "task_from W t" "\<And>k v. (k, v) \<in> W \<Longrightarrow> c_str v = v"
    and "task_step (access_of F P c a) t d w = (t', d', w')"
  shows "cluster_from W w' \<and> task_from W t'"
proof (cases "(access_of F P c a, t, d, w)" rule: task_step.cases)
  case (2 A op k v n ns d w)
  with assms write_from [OF assms(1), of k v F P c a n op d] show ?thesis by (auto dest: arg_cong [where f = snd])
next
  case (4 A k n ns d w)
  with assms delete_from [OF assms(1), of F P c a n k d] show ?thesis by (auto dest: arg_cong [where f = snd])
next
  case (5 A k p b d0 w0)
  obtain r d1 w1 where r: "readFromNode (access_of F P c a) p k d w = (r, d1, w1)" by (metis prod_cases3)
  from read_from [OF assms(1) r] assms(3,4) 5 r show ?thesis
    by (cases r) (auto split: if_splits)
next
  case (6 A k p b d0 w0)
  obtain r d1 w1 where r: "readFromNode (access_of F P c a) b k d w = (r, d1, w1)" by (metis prod_cases3)
  from read_from [OF assms(1) r] assms(3,4) 6 r show ?thesis
    by (cases r) auto
next
  case (7 A k p v d w)
  with assms write_from [OF assms(1), of k v F P c a p INSERT d] show ?thesis by (auto dest: arg_cong [where f = snd])
qed (use assms in auto)

lemma given_up_from:
  assumes "task_from W (cl_task c)" "\<And>k v. (k, v) \<in> W \<Longrightarrow> c_str v = v" "(x, cmd) \<in># given_up F P c w"
  shows "command_from W cmd"
proof -
  have w: "(k, c_str v) \<in> W \<Longrightarrow> command_from W (write_cmd op k v)" for op k v by (cases op) simp_all
  have "next_request P (cl_dist c) (cl_task c) = Some (x, cmd)"
    using assms(3) by (auto simp: given_up_def split: option.splits if_splits)
  with assms(1) show ?thesis
    by (cases "(P, cl_dist c, cl_task c)" rule: next_request.cases) (auto simp: remote_request_def w split: if_splits)
qed

lemma refresh_from_world:
  assumes "cluster_from W w" "refresh_step (access_of F P c a) (rf, d, w) = (rf', d', w')"
  shows "cluster_from W w'"
proof -
  have "cluster_from W (snd (rpc F x (\<lambda>s. Pair g) w))" for x and g :: "MemberRecord list"
    by (rule cluster_from_rpc [OF assms(1)]) simp
  then have "cluster_from W (snd (client_membership (kv_client (access_of F P c a)) ep w))" for ep
    by (simp add: access_of_def KVClient_def KVClient_getMembership_def split_beta Let_def split: sum.split)
  with assms show ?thesis
    by (cases "(access_of F P c a, rf, d, w)" rule: refresh_step.cases)
      (auto simp: Let_def split: prod.splits sum.splits dest!: arg_cong [where f = snd])
qed

lemma system_from_step:
  assumes "cluster_step F P S S'" "system_from S"
  shows "system_from S' \<and> asked S \<subseteq> asked S'"
  using assms
proof (induction rule: cluster_step.induct)
  case (begin_op c S i r)
  let ?W = "stored_values (asked S)" and ?W' = "stored_values (asked S \<union> request_values r)"
  have m: "?W \<subseteq> ?W'" by (rule stored_values_mono) simp
  have "task_from ?W' (start_task r d)" for d by (cases r) (auto simp: stored_values_def)
  with begin_op m show ?case
    by (auto simp: system_from_def set_client_def Let_def intro: cluster_from_mono task_from_mono command_from_mono)
next
  case (access_node c S i t d w)
  let ?W = "stored_values (asked S)"
  have "cluster_from ?W w \<and> task_from ?W t"
    using access_node task_step_from [of ?W "servers S" "cl_task c" F P "cl_store c" "cl_host c" "cl_dist c" t d w]
    by (auto simp: system_from_def Let_def client_access_def stored_values_c_str)
  moreover have "command_from ?W cmd" if "(x, cmd) \<in># given_up F P c (servers S)" for x cmd
    using given_up_from [OF _ _ that, of ?W] access_node by (auto simp: system_from_def Let_def stored_values_c_str)
  ultimately show ?case using access_node by (auto simp: system_from_def set_client_def Let_def)
next
  case (arrive_late x cmd S s)
  then have "cluster_from (stored_values (asked S)) (run_on x (node_boost F) s cmd (servers S) (calls (servers S)))"
    by (intro cluster_from_run_on) (auto simp: system_from_def Let_def)
  with arrive_late show ?case
    by (auto simp: system_from_def Let_def simp del: run_on_calls dest: in_diffD)
next
  case (refresh c S i r d w)
  then show ?case
    using refresh_from_world [of "stored_values (asked S)" "servers S" F P "cl_store c" "cl_host c"]
    by (auto simp: system_from_def set_client_def Let_def client_access_def)
next
  case (server_exits S x s)
  then have "cluster_from (stored_values (asked S)) (on_host x (destroy_store (node_boost F) s)
      ((servers S)\<lparr>server_kv := (server_kv (servers S))(x := None)\<rparr>))"
    by (intro cluster_from_on_host os_from_destroy) (auto simp: system_from_def Let_def cluster_from_def)
  with server_exits show ?case by (simp add: system_from_def Let_def)
next
  case (images_written S x I)
  then show ?case
    by (auto simp: system_from_def Let_def cluster_from_def on_host_def os_from_write_back)
next
  case (pages_written S x i img)
  then show ?case
    by (auto simp: system_from_def Let_def cluster_from_def on_host_def os_from_mixed)
next
  case (machine_crashes S x)
  then show ?case
    by (auto simp: system_from_def Let_def cluster_from_def on_host_def os_from_crash)
next
  case (server_starts sz mode tag S x s \<sigma>)
  then have "os_from (stored_values (asked S)) \<sigma>"
    using os_from_get_instance [of _ "hosts (servers S) x" "node_boost F" None sz mode SERVER tag]
    by (fastforce simp: system_from_def Let_def cluster_from_def)
  with server_starts show ?case by (simp add: system_from_def Let_def cluster_from_def on_host_def)
next
  case (start_fails sz mode conn tag S x e \<sigma>)
  then have "os_from (stored_values (asked S)) \<sigma>"
    using os_from_get_instance [of _ "hosts (servers S) x" "node_boost F" None sz mode conn tag]
    by (fastforce simp: system_from_def Let_def cluster_from_def)
  with start_fails show ?case by (simp add: system_from_def Let_def cluster_from_def on_host_def)
next
  case (client_starts sz mode tag S x s \<sigma> i d)
  then have "os_from (stored_values (asked S)) \<sigma>"
    using os_from_get_instance [of _ "hosts (servers S) x" "node_boost F" None sz mode CLIENT tag]
    by (fastforce simp: system_from_def Let_def cluster_from_def)
  with client_starts show ?case by (simp add: system_from_def Let_def cluster_from_def on_host_def set_client_def)
qed (simp_all add: system_from_def Let_def)

lemma system_from_run: "cluster_run F P S S' \<Longrightarrow> system_from S \<Longrightarrow> system_from S'"
  by (induction rule: rtranclp_induct) (use system_from_step in blast)+

end
