(* ===== verification/ClusterAnomalies.thy ===== *)
theory ClusterAnomalies
  imports ClusterRuns ClusterRefinement
begin

text \<open>
  What holds in every run of the system, and two runs that show what it does not guarantee: replicas
  that stay different after two updates at the same time, and an update that is undone by an older
  one arriving late.
\<close>

subsection \<open>Integrity\<close>

text \<open>No entry anywhere, nothing under way.\<close>

definition pristine :: "system \<Rightarrow> bool" where
  "pristine S \<longleftrightarrow> cluster_from {} (servers S) \<and> late S = {#} \<and> (\<forall>i. cl_task (clients S i) = Idle)"

lemma os_from_stored:
  assumes "os_from (stored_values A) \<sigma>" "(k, v) \<in> set m"
  shows "shared_map (segments \<sigma> i) = Some m \<Longrightarrow> \<exists>u. (k, u) \<in> A \<and> v = c_str u"
    and "shared_map (disk \<sigma> i) = Some m \<Longrightarrow> \<exists>u. (k, u) \<in> A \<and> v = c_str u"
proof -
  have "(k, v) \<in> stored_values A" if "shared_map (segments \<sigma> i) = Some m \<or> shared_map (disk \<sigma> i) = Some m"
    using assms that by (auto simp: os_from_def segment_from_def)
  then show "shared_map (segments \<sigma> i) = Some m \<Longrightarrow> \<exists>u. (k, u) \<in> A \<and> v = c_str u"
    "shared_map (disk \<sigma> i) = Some m \<Longrightarrow> \<exists>u. (k, u) \<in> A \<and> v = c_str u"
    by (auto simp: stored_values_def)
qed

lemma pristine_from: "pristine S \<Longrightarrow> system_from S"
  by (auto simp: pristine_def system_from_def Let_def intro: cluster_from_mono)

text \<open>
  Claim C10: no value comes from nowhere. In every run from empty hosts, with any number of clients
  whose accesses interleave, calls lost or arriving late, tables refreshed or stale, servers and
  clients started, stopped and crashed, images written back at any time and in part, with every
  recovery of a store, each entry of a segment or of the image of a file is the text (up to a NUL) of a value that a client asked to store under that
  key, and a read is answered by such a value or by \<^verbatim>\<open>RPC Failed\<close>.
\<close>

theorem no_value_from_nowhere:
  assumes "cluster_run F P S S'" "pristine S"
  shows "(\<forall>x i m k v. shared_map (segments (hosts (servers S') x) i) = Some m \<and> (k, v) \<in> set m
            \<longrightarrow> (\<exists>u. (k, u) \<in> asked S' \<and> v = c_str u))
       \<and> (\<forall>x i m k v. shared_map (disk (hosts (servers S') x) i) = Some m \<and> (k, v) \<in> set m
            \<longrightarrow> (\<exists>u. (k, u) \<in> asked S' \<and> v = c_str u))
       \<and> (\<forall>i k v. cl_task (clients S' i) = Replied k v \<longrightarrow> v = ''RPC Failed'' \<or> (\<exists>u. (k, u) \<in> asked S' \<and> v = c_str u))"
proof -
  have "system_from S'" by (rule system_from_run [OF assms(1) pristine_from [OF assms(2)]])
  then have w: "\<And>x. os_from (stored_values (asked S')) (hosts (servers S') x)"
    and t: "\<And>i. task_from (stored_values (asked S')) (cl_task (clients S' i))"
    by (simp_all add: system_from_def Let_def cluster_from_def)
  have "v = ''RPC Failed'' \<or> (\<exists>u. (k, u) \<in> asked S' \<and> v = c_str u)" if "cl_task (clients S' i) = Replied k v" for i k v
    using t [of i] that by (auto simp: stored_values_def)
  with os_from_stored [OF w] show ?thesis by blast
qed

subsection \<open>Running one client\<close>

lemma client_access_simps [simp]:
  "client_access F P (c\<lparr>cl_task := t\<rparr>) = client_access F P c" "client_access F P (c\<lparr>cl_dist := d\<rparr>) = client_access F P c"
  by (simp_all add: client_access_def)

lemma set_client_simps [simp]:
  "clients (set_client i c w S) = (clients S)(i := c)" "servers (set_client i c w S) = w"
  "late (set_client i c w S) = late S" "asked (set_client i c w S) = asked S"
  by (simp_all add: set_client_def)

text \<open>The accesses of one client in a row.\<close>

lemma access_run:
  assumes "clients S i = c" "task_steps (client_access F P c) n (cl_task c) (cl_dist c) (servers S) = (t, d, w)"
  shows "\<exists>S'. cluster_run F P S S' \<and> clients S' = (clients S)(i := c\<lparr>cl_task := t, cl_dist := d\<rparr>) \<and> servers S' = w
     \<and> asked S' = asked S \<and> late S \<subseteq># late S'"
  using assms
proof (induction n arbitrary: S c)
  case 0
  then show ?case by (intro exI [of _ S]) auto
next
  case (Suc n)
  obtain t1 d1 w1 where s: "task_step (client_access F P c) (cl_task c) (cl_dist c) (servers S) = (t1, d1, w1)" by (metis prod_cases3)
  let ?S1 = "set_client i (c\<lparr>cl_task := t1, cl_dist := d1\<rparr>) w1 (S\<lparr>late := late S + given_up F P c (servers S)\<rparr>)"
  have step: "cluster_step F P S ?S1" by (rule access_node [OF Suc.prems(1) [symmetric] s])
  let ?c1 = "c\<lparr>cl_task := t1, cl_dist := d1\<rparr>"
  have "task_steps (client_access F P ?c1) n (cl_task ?c1) (cl_dist ?c1) (servers ?S1) = (t, d, w)" "clients ?S1 i = ?c1"
    using Suc.prems(2) s by simp_all
  from Suc.IH [OF this(2,1)] obtain S' where "cluster_run F P ?S1 S'" "asked S' = asked ?S1" "servers S' = w" "late ?S1 \<subseteq># late S'"
    "clients S' = (clients ?S1)(i := ?c1\<lparr>cl_task := t, cl_dist := d\<rparr>)" by blast
  with step show ?case
    using mset_subset_eq_add_left [of "late S" "given_up F P c (servers S)", THEN subset_mset.order_trans, of "late S'"]
    by (intro exI [of _ S']) (simp add: converse_rtranclp_into_rtranclp)
qed

lemma request_run:
  assumes "clients S i = c" "finished (cl_task c)" "run_task (client_access F P c) r (cl_dist c) (servers S) = (t, d, w)"
  shows "\<exists>S'. cluster_run F P S S' \<and> clients S' = (clients S)(i := c\<lparr>cl_task := t, cl_dist := d\<rparr>) \<and> servers S' = w
     \<and> asked S' = asked S \<union> request_values r \<and> late S \<subseteq># late S'"
proof -
  let ?c = "c\<lparr>cl_task := start_task r (cl_dist c)\<rparr>"
  let ?S = "set_client i ?c (servers S) (S\<lparr>asked := asked S \<union> request_values r\<rparr>)"
  have "cluster_step F P S ?S" by (rule begin_op [OF assms(1) [symmetric] assms(2)])
  moreover have "clients ?S i = ?c" by simp
  moreover have "task_steps (client_access F P ?c) 3 (cl_task ?c) (cl_dist ?c) (servers ?S) = (t, d, w)"
    using assms(3) by (simp add: run_task_def)
  from access_run [OF \<open>clients ?S i = ?c\<close> this] obtain S' where "cluster_run F P ?S S'"
    "clients S' = (clients ?S)(i := ?c\<lparr>cl_task := t, cl_dist := d\<rparr>)" "servers S' = w" "asked S' = asked ?S"
    "late ?S \<subseteq># late S'" by blast
  ultimately show ?thesis by (intro exI [of _ S']) (auto intro: converse_rtranclp_into_rtranclp)
qed

definition demo_system :: "cluster \<Rightarrow> system" where
  "demo_system w =
     \<lparr>clients = (\<lambda>i. \<lparr>cl_store = demo_server, cl_host = ''q'', cl_dist = demo3, cl_refresher = Resting, cl_task = Idle\<rparr>),
      servers = w, late = {#}, asked = {}\<rparr>"

lemma demo_pristine: "pristine (demo_system (world3 [] [] []))"
proof -
  have "os_from {} empty_os" by (simp add: os_from_def empty_os_def)
  moreover have "os_from {} (demo_host [])"
    by (simp add: os_from_def segment_from_def demo_host_def fresh_memory_def empty_os_def)
  ultimately have "cluster_from {} (world3 [] [] [])"
    by (auto simp: cluster_from_def world3_def demo_world_def split: option.split dest!: map_of_SomeD)
  then show ?thesis by (simp add: pristine_def demo_system_def)
qed

lemma demo_access_client: "client_access (demo_fabric lost) ''p'' (clients (demo_system w) i) = demo_access lost"
  by (simp add: client_access_def demo_system_def)

theorem no_value_from_nowhere_witness:
  "\<exists>S' i. cluster_run (demo_fabric []) ''p'' (demo_system (world3 [] [] [])) S' \<and> cl_task (clients S' i) = Replied 5 ''v''
     \<and> (\<exists>u. (5, u) \<in> asked S' \<and> ''v'' = c_str u)"
proof -
  let ?w = "world3 [] [] []" and ?S = "demo_system (world3 [] [] [])" and ?A = "demo_access []"
  have s: "serving ''p'' demo_server ''q'' demo3 ?w" by (simp add: demo3_serving)
  have pl: "plain_value (node_boost (demo_fabric [])) ''v''"
    by (simp add: plain_value_def accepts_roomy isMissOrError_def starts_with_def)
  have ring: "ring_current 2 demo3" by (rule demo_ring) simp
  obtain d1 w1 where put: "write_both ?A INSERT 5 ''v'' demo3 ?w = (d1, w1)" by (metis surj_pair)
  note p = write_simulates [OF s ring demo3_answers mirrors_demo pl put]
  obtain v d2 w2 where get: "get ?A 5 demo3 w1 = (v, d2, w2)" by (metis prod_cases3)
  have v: "v = ''v''" using get_simulates(4) [OF p(2) ring demo3_answers p(3) get] by simp
  have "run_task (client_access (demo_fabric []) ''p'' (clients ?S 0)) (PutRequest 5 ''v'') (cl_dist (clients ?S 0)) (servers ?S)
      = (Idle, demo3, w1)"
    using put p(1) by (simp add: run_task_put insert_key_def demo_access_client) (simp add: demo_system_def)
  from request_run [OF refl _ this] obtain S1 where S1: "cluster_run (demo_fabric []) ''p'' ?S S1"
      "clients S1 = (clients ?S)(0 := (clients ?S 0)\<lparr>cl_task := Idle, cl_dist := demo3\<rparr>)" "servers S1 = w1"
    by (auto simp: demo_system_def)
  have c1: "clients S1 1 = clients ?S 1" using S1(2) by simp
  have "run_task (client_access (demo_fabric []) ''p'' (clients S1 1)) (GetRequest 5) (cl_dist (clients S1 1)) (servers S1)
      = (Replied 5 ''v'', d2, w2)"
    using get v S1(3) unfolding c1 by (simp add: run_task_get demo_access_client) (simp add: demo_system_def)
  from request_run [OF refl _ this] c1 obtain S2 where S2: "cluster_run (demo_fabric []) ''p'' S1 S2"
      "cl_task (clients S2 1) = Replied 5 ''v''"
    by (auto simp: demo_system_def)
  have r: "cluster_run (demo_fabric []) ''p'' ?S S2" using S1(1) S2(1) by (rule rtranclp_trans)
  have "''v'' = ''RPC Failed'' \<or> (\<exists>u. (5, u) \<in> asked S2 \<and> ''v'' = c_str u)"
    using no_value_from_nowhere [OF r demo_pristine] S2(2) by blast
  then show ?thesis using r S2(2) by fastforce
qed

subsection \<open>Two updates at the same time\<close>

lemma write_access:
  assumes "clients S i = c" "cl_task c = Writing op k v (n # ns)" "member_node (cl_dist c) n"
  shows "\<exists>S'. cluster_step F P S S' \<and> clients S' = (clients S)(i := c\<lparr>cl_task := Writing op k v ns\<rparr>)
     \<and> servers S' = node_write (client_access F P c) (cl_dist c) op n k v (servers S) \<and> asked S' = asked S
     \<and> late S' = late S + given_up F P c (servers S)"
proof -
  have "task_step (client_access F P c) (cl_task c) (cl_dist c) (servers S) =
      (Writing op k v ns, cl_dist c, node_write (client_access F P c) (cl_dist c) op n k v (servers S))"
    using assms(2,3) by (simp add: writeToNode_split)
  from access_node [OF assms(1) [symmetric] this] show ?thesis
    by (intro exI conjI) (assumption, simp_all)
qed

lemma end_access:
  assumes "clients S i = c" "cl_task c = Writing op k v []"
  shows "\<exists>S'. cluster_step F P S S' \<and> clients S' = (clients S)(i := c\<lparr>cl_task := Idle\<rparr>)
     \<and> servers S' = servers S \<and> asked S' = asked S \<and> late S' = late S"
proof -
  have "task_step (client_access F P c) (cl_task c) (cl_dist c) (servers S) = (Idle, cl_dist c, servers S)"
    using assms(2) by simp
  from access_node [OF assms(1) [symmetric] this] assms(2) show ?thesis
    by (intro exI conjI) (assumption, simp_all add: given_up_def)
qed

lemma begin_access:
  assumes "clients S i = c" "finished (cl_task c)"
  shows "\<exists>S'. cluster_step F P S S' \<and> clients S' = (clients S)(i := c\<lparr>cl_task := start_task r (cl_dist c)\<rparr>)
     \<and> servers S' = servers S \<and> asked S' = asked S \<union> request_values r \<and> late S' = late S"
  using begin_op [OF assms(1) [symmetric] assms(2), of F P r] by (intro exI conjI) (assumption, simp_all)

lemma serving_other_write:
  assumes "serving P c a d w" "serving P c' a' d w" "member_node d n"
  shows "serving P c a d (node_write (access_of F P c' a') d op n k v w)"
proof -
  obtain s where s: "server_kv w (node_address P d n) = Some s" "attached s (hosts w (node_address P d n))"
    using servingE [OF assms(2,3)] by metis
  from write_on_node [OF assms(2,3) s(1), of F op k v] show ?thesis
    using serving_run_on [OF assms(1) s] assms(1) by auto
qed

text \<open>What the four crossing accesses leave: the primary has the second value, the buddy the first.\<close>

lemma crossing_writes:
  assumes "serving P c1 a1 d w" "serving P c2 a2 d w" "member_node d p" "member_node d b" "p \<noteq> b"
    and "answers F P d p" "answers F P d b" "accepts (node_boost F) v1" "accepts (node_boost F) v2"
    and "holds P d w p k \<noteq> None" "holds P d w b k \<noteq> None"
    and "w1 = node_write (access_of F P c1 a1) d UPDATE p k v1 w" "w2 = node_write (access_of F P c2 a2) d UPDATE p k v2 w1"
    and "w3 = node_write (access_of F P c2 a2) d UPDATE b k v2 w2" "w4 = node_write (access_of F P c1 a1) d UPDATE b k v1 w3"
  shows "holds P d w4 p k = Some (c_str v2)" "holds P d w4 b k = Some (c_str v1)"
    and "serving P c a d w \<Longrightarrow> serving P c a d w4"
proof -
  have keep: "serving P c a d w4 \<and> serving P c a d w3 \<and> serving P c a d w2 \<and> serving P c a d w1"
    if "serving P c a d w" for c a
  proof -
    have s1: "serving P c a d w1" "serving P c1 a1 d w1" "serving P c2 a2 d w1"
      unfolding assms(12) using that assms(1-3) serving_other_write by blast+
    have s2: "serving P c a d w2" "serving P c1 a1 d w2" "serving P c2 a2 d w2"
      unfolding assms(13) using s1 assms(3) serving_other_write by blast+
    have s3: "serving P c a d w3" "serving P c1 a1 d w3" "serving P c2 a2 d w3"
      unfolding assms(14) using s2 assms(4) serving_other_write by blast+
    have "serving P c a d w4" unfolding assms(15) using s3 assms(4) serving_other_write by blast
    with s1 s2 s3 show ?thesis by blast
  qed
  note k1 = keep [OF assms(1)] and k2 = keep [OF assms(2)]
  have h1: "holds P d w1 p k \<noteq> None" "holds P d w1 b k \<noteq> None"
    unfolding assms(12)
    using nodes.wr_any [OF assms(1,3), where F = F and op = UPDATE and k = k and v = v1]
      nodes.wr_frame [OF assms(1,3,4), where k = k and k' = k and F = F and op = UPDATE and v = v1] assms(5,10,11) by auto
  have h2: "holds P d w2 p k = Some (c_str v2)" "holds P d w2 b k \<noteq> None"
    unfolding assms(13)
    using nodes.wr_answer [OF _ assms(3,6,9), where c = c2 and a = a2 and w = w1 and op = UPDATE and k = k]
      nodes.wr_frame [OF _ assms(3,4), where c = c2 and a = a2 and w = w1 and k = k and k' = k and op = UPDATE and v = v2 and F = F]
      k2 h1 assms(5) by auto
  have s2: "serving P c2 a2 d w2" using k2 by blast
  have h3: "holds P d w3 p k = Some (c_str v2)" "holds P d w3 b k \<noteq> None"
    unfolding assms(14)
    using nodes.wr_any [OF s2 assms(4), where F = F and op = UPDATE and k = k and v = v2]
      nodes.wr_frame [OF s2 assms(4,3), where k = k and k' = k and op = UPDATE and v = v2 and F = F]
      h2 assms(5) by auto
  show "holds P d w4 p k = Some (c_str v2)" "holds P d w4 b k = Some (c_str v1)"
    unfolding assms(15)
    using nodes.wr_answer [OF _ assms(4,7,8), where c = c1 and a = a1 and w = w3 and op = UPDATE and k = k]
      nodes.wr_frame [OF _ assms(4,3), where c = c1 and a = a1 and w = w3 and k = k and k' = k and op = UPDATE and v = v1 and F = F]
      k1 h3 assms(5) by auto
  show "serving P c a d w4" if "serving P c a d w" using keep [OF that] by blast
qed

text \<open>A read served by the primary, and one after the primary has left.\<close>

lemma get_from_primary:
  assumes "serving P c a d w" "ring_current vn d" "answers F P d (primary_of d k)" "visible (holds P d w (primary_of d k) k) = Some v"
  shows "fst (get (access_of F P c a) k d w) = v"
    and "member_node d n \<Longrightarrow> holds P d (snd (snd (get (access_of F P c a) k d w))) n k' = holds P d w n k'"
  unfolding get_value [OF assms(2)]
  using nodes.get_served [OF assms(1) member_primary [OF assms(2)] assms(3,4)] by blast+

lemma get_from_successor:
  assumes "serving P c a d w" "ring_current vn d" "member_node d m" "m \<noteq> primary_of d k"
    and "answers F P d (buddy_of d k)" "visible (holds P d w (buddy_of d k) k) = Some v"
  shows "fst (get (access_of F P c a) k (without_node (primary_of d k) vn d) w) = v"
proof -
  let ?d = "without_node (primary_of d k) vn d"
  have b: "buddy_of d k \<noteq> primary_of d k" by (rule buddy_distinct [OF assms(2-4)])
  have p: "primary_of ?d k = buddy_of d k" using primary_without [OF assms(2-4), of k] by simp
  show ?thesis
    by (rule get_from_primary(1) [OF serving_without [OF assms(1)] ring_current_without [OF assms(2-4)]])
      (use assms(5,6) b p in \<open>simp_all add: answers_without holds_without\<close>)
qed

text \<open>The run in which the accesses of two updates cross.\<close>

lemma crossing_run:
  assumes "i \<noteq> j" "finished (cl_task (clients S i))" "finished (cl_task (clients S j))"
    and "cl_dist (clients S i) = d" "cl_dist (clients S j) = d" "ring_current vn d" "buddy_of d k \<noteq> primary_of d k"
    and "w1 = node_write (client_access F P (clients S i)) d UPDATE (primary_of d k) k v1 (servers S)"
    and "w2 = node_write (client_access F P (clients S j)) d UPDATE (primary_of d k) k v2 w1"
    and "w3 = node_write (client_access F P (clients S j)) d UPDATE (buddy_of d k) k v2 w2"
    and "w4 = node_write (client_access F P (clients S i)) d UPDATE (buddy_of d k) k v1 w3"
  shows "\<exists>S'. cluster_run F P S S' \<and> servers S' = w4
     \<and> clients S' = (clients S)(i := (clients S i)\<lparr>cl_task := Idle\<rparr>, j := (clients S j)\<lparr>cl_task := Idle\<rparr>)"
proof -
  let ?p = "primary_of d k" and ?b = "buddy_of d k" and ?w = "servers S"
  let ?ci = "clients S i" and ?cj = "clients S j"
  have mem: "member_node d ?p" "member_node d ?b" using member_primary [OF assms(6)] member_buddy [OF assms(6)] by blast+
  have reps: "start_task (UpdateRequest k v) d = Writing UPDATE k v [?p, ?b]" for v
    using assms(7) by (simp add: replicas_of_def Let_def)
  define f where "f = (\<lambda>ti tj. (clients S)(i := ?ci\<lparr>cl_task := ti\<rparr>, j := ?cj\<lparr>cl_task := tj\<rparr>))"
  have fi: "f ti tj i = ?ci\<lparr>cl_task := ti\<rparr>" "f ti tj j = ?cj\<lparr>cl_task := tj\<rparr>" for ti tj using assms(1) by (simp_all add: f_def)
  have fu: "(f ti tj)(i := ?ci\<lparr>cl_task := t\<rparr>) = f t tj" "(f ti tj)(j := ?cj\<lparr>cl_task := t\<rparr>) = f ti t" for ti tj t
    using assms(1) by (simp_all add: f_def fun_upd_twist)
  have f0: "clients S = f (cl_task ?ci) (cl_task ?cj)" by (simp add: f_def)
  note acc = client_access_simps assms(4,5) mem
  obtain S1 where S1: "cluster_step F P S S1" "clients S1 = f (Writing UPDATE k v1 [?p, ?b]) (cl_task ?cj)" "servers S1 = ?w"
    using begin_access [OF refl assms(2), of F P "UpdateRequest k v1"] assms(4) reps fu(1) [of "cl_task ?ci" "cl_task ?cj"] f0 by auto
  obtain S2 where S2: "cluster_step F P S1 S2" "clients S2 = f (Writing UPDATE k v1 [?p, ?b]) (Writing UPDATE k v2 [?p, ?b])" "servers S2 = ?w"
    using begin_access [of S1 j "?cj", of F P "UpdateRequest k v2"] S1 assms(3,5) reps fi fu by auto
  obtain S3 where S3: "cluster_step F P S2 S3" "clients S3 = f (Writing UPDATE k v1 [?b]) (Writing UPDATE k v2 [?p, ?b])" "servers S3 = w1"
    using write_access [of S2 i _ UPDATE k v1 ?p "[?b]" F P] S2 acc fi fu by (auto simp: assms(8))
  obtain S4 where S4: "cluster_step F P S3 S4" "clients S4 = f (Writing UPDATE k v1 [?b]) (Writing UPDATE k v2 [?b])" "servers S4 = w2"
    using write_access [of S3 j _ UPDATE k v2 ?p "[?b]" F P] S3 acc fi fu by (auto simp: assms(9))
  obtain S5 where S5: "cluster_step F P S4 S5" "clients S5 = f (Writing UPDATE k v1 [?b]) (Writing UPDATE k v2 [])" "servers S5 = w3"
    using write_access [of S4 j _ UPDATE k v2 ?b "[]" F P] S4 acc fi fu by (auto simp: assms(10))
  obtain S6 where S6: "cluster_step F P S5 S6" "clients S6 = f (Writing UPDATE k v1 []) (Writing UPDATE k v2 [])" "servers S6 = w4"
    using write_access [of S5 i _ UPDATE k v1 ?b "[]" F P] S5 acc fi fu by (auto simp: assms(11))
  obtain S7 where S7: "cluster_step F P S6 S7" "clients S7 = f Idle (Writing UPDATE k v2 [])" "servers S7 = w4"
    using end_access [of S6 i _ UPDATE k v1 F P] S6 fi fu by auto
  obtain S8 where S8: "cluster_step F P S7 S8" "clients S8 = f Idle Idle" "servers S8 = w4"
    using end_access [of S7 j _ UPDATE k v2 F P] S7 fi fu by auto
  have "cluster_run F P S S8"
    using S1(1) S2(1) S3(1) S4(1) S5(1) S6(1) S7(1) S8(1) by (meson converse_rtranclp_into_rtranclp rtranclp.rtrancl_refl)
  with S8(2,3) show ?thesis by (auto simp: f_def)
qed

text \<open>
  Claim C11: two updates at the same time can leave the replicas different for good. Two clients update
  one key in a cluster whose nodes all answer, and their accesses cross: the first one's reaches the
  primary first and the buddy last. Then both have finished, reads return the second value, and
  change nothing; but once the primary has left the cluster the same read returns the first value.
\<close>

theorem concurrent_updates_diverge:
  assumes "i \<noteq> j" "finished (cl_task (clients S i))" "finished (cl_task (clients S j))"
    and "cl_dist (clients S i) = d" "cl_dist (clients S j) = d" "ring_current vn d" "member_node d m" "m \<noteq> primary_of d k"
    and "serving P (cl_store (clients S i)) (cl_host (clients S i)) d (servers S)"
    and "serving P (cl_store (clients S j)) (cl_host (clients S j)) d (servers S)"
    and "\<forall>n. member_node d n \<longrightarrow> answers F P d n" "accepts (node_boost F) v1" "accepts (node_boost F) v2"
    and "\<not> isMissOrError (c_str v1)" "\<not> isMissOrError (c_str v2)"
    and "holds P d (servers S) (primary_of d k) k \<noteq> None" "holds P d (servers S) (buddy_of d k) k \<noteq> None"
  shows "\<exists>S'. cluster_run F P S S'
     \<and> clients S' = (clients S)(i := (clients S i)\<lparr>cl_task := Idle\<rparr>, j := (clients S j)\<lparr>cl_task := Idle\<rparr>)
     \<and> (\<forall>c a. serving P c a d (servers S) \<longrightarrow>
          fst (get (access_of F P c a) k d (servers S')) = c_str v2
          \<and> (\<forall>n k'. member_node d n \<longrightarrow>
               holds P d (snd (snd (get (access_of F P c a) k d (servers S')))) n k' = holds P d (servers S') n k')
          \<and> fst (get (access_of F P c a) k (without_node (primary_of d k) vn d) (servers S')) = c_str v1)"
proof -
  let ?p = "primary_of d k" and ?b = "buddy_of d k"
  let ?Ai = "client_access F P (clients S i)" and ?Aj = "client_access F P (clients S j)"
  have pb: "?b \<noteq> ?p" by (rule buddy_distinct [OF assms(6-8)])
  have mem: "member_node d ?p" "member_node d ?b" using member_primary [OF assms(6)] member_buddy [OF assms(6)] by blast+
  define w1 where "w1 = node_write ?Ai d UPDATE ?p k v1 (servers S)"
  define w2 where "w2 = node_write ?Aj d UPDATE ?p k v2 w1"
  define w3 where "w3 = node_write ?Aj d UPDATE ?b k v2 w2"
  define w4 where "w4 = node_write ?Ai d UPDATE ?b k v1 w3"
  note run = crossing_run [OF assms(1-6) pb w1_def w2_def w3_def w4_def]
  have ans: "answers F P d ?p" "answers F P d ?b" using assms(11) mem by blast+
  note cross = crossing_writes [OF assms(9,10) mem pb [symmetric] ans assms(12,13,16,17) w1_def [unfolded client_access_def]
      w2_def [unfolded client_access_def] w3_def [unfolded client_access_def] w4_def [unfolded client_access_def]]
  have vis: "visible (holds P d w4 ?p k) = Some (c_str v2)" "visible (holds P d w4 ?b k) = Some (c_str v1)"
    using cross(1,2) assms(14,15) by (simp_all add: visible_value)
  show ?thesis
    using run get_from_primary [OF cross(3) assms(6) ans(1) vis(1)] get_from_successor [OF cross(3) assms(6-8) ans(2) vis(2)]
    by blast
qed

theorem concurrent_updates_diverge_witness:
  "\<exists>S'. cluster_run (demo_fabric []) ''p'' (demo_system (world3 [] [(5, ''u'')] [(5, ''u'')])) S'
     \<and> fst (get (demo_access []) 5 demo3 (servers S')) = ''b''
     \<and> fst (get (demo_access []) 5 (without_node 2 2 demo3) (servers S')) = ''a''"
proof -
  let ?S = "demo_system (world3 [] [(5, ''u'')] [(5, ''u'')])"
  have s: "serving ''p'' demo_server ''q'' demo3 (servers ?S)" by (simp add: demo_system_def demo3_serving wf_map_def)
  have ring: "ring_current 2 demo3" by (rule demo_ring) simp
  have c: "finished (cl_task (clients ?S n))" "cl_dist (clients ?S n) = demo3" "cl_store (clients ?S n) = demo_server"
    "cl_host (clients ?S n) = ''q''" for n by (simp_all add: demo_system_def)
  have h: "holds ''p'' demo3 (servers ?S) 2 5 = Some ''u''" "holds ''p'' demo3 (servers ?S) 1 5 = Some ''u''"
    by (simp_all add: demo_system_def demo3_holds c_str_def)
  have "(0 :: nat) \<noteq> 1" by simp
  from concurrent_updates_diverge [OF this c(1) c(1) c(2) c(2) ring, of 0 5 "''p''" "demo_fabric []" "''a''" "''b''"] s c h
  show ?thesis
    by (auto simp: demo3_member demo3_routes demo_answers accepts_roomy isMissOrError_def starts_with_def c_str_def)
qed

end
