(* ===== verification/ClusterLate.thy ===== *)
theory ClusterLate
  imports ClusterAnomalies
begin

text \<open>
  A request that the client has given up may still arrive. One client, one key, no other writer: an
  update whose request to the primary times out takes effect after a later update of the same client
  has been completed, and undoes it.
\<close>

subsection \<open>Calls that are delivered\<close>

definition reaching :: "fabric \<Rightarrow> fabric" where
  "reaching F = F\<lparr>fate := (\<lambda>t x. Delivered)\<rparr>"

lemma reaching_simps [simp]: "node_boost (reaching F) = node_boost F" "answers (reaching F) P d n"
  by (simp_all add: reaching_def answers_def)

lemma rpc_reaching: "fate F (calls w) x = Delivered \<Longrightarrow> rpc F x h w = rpc (reaching F) x h w"
proof -
  have "call_failed (reaching F) = call_failed F" "fate (reaching F) = (\<lambda>t x. Delivered)"
    by (simp_all add: reaching_def call_failed_def fun_eq_iff)
  then show "fate F (calls w) x = Delivered \<Longrightarrow> ?thesis" by (simp add: rpc_def Let_def split_beta split: option.split)
qed

lemma node_write_reaching:
  assumes "member_node d n" "fate F (calls w) (node_address P d n) = Delivered"
  shows "node_write (access_of F P c a) d op n k v w = node_write (access_of (reaching F) P c a) d op n k v w"
  using assms(1) rpc_reaching [OF assms(2), unfolded node_address_def, where h = "h :: kv_store \<Rightarrow> os \<Rightarrow> cint \<times> os" for h]
  by (simp add: node_write_def writeToNode_def access_of_def KVClient_def KVClient_insert_def KVClient_update_def local_kv_def Let_def
      split: RemoteOp.split)

lemma node_read_reaching:
  assumes "member_node d n" "fate F (calls w) (node_address P d n) = Delivered"
  shows "node_read (access_of F P c a) d n k w = node_read (access_of (reaching F) P c a) d n k w"
  using assms(1) rpc_reaching [OF assms(2), unfolded node_address_def, of "\<lambda>s. kv_fetch (node_boost F) s k"]
  by (simp add: node_read_def readFromNode_def access_of_def KVClient_def KVClient_fetch_def local_kv_def Let_def)

lemma calls_rpc: "calls w \<le> calls (snd (rpc F x h w))"
  by (simp add: rpc_def Let_def split_beta split: option.split outcome.split)

lemma calls_write: "calls w \<le> calls (node_write (access_of F P c a) d op n k v w)"
  using calls_rpc [where h = "h :: kv_store \<Rightarrow> os \<Rightarrow> cint \<times> os" for h]
  by (simp add: node_write_def writeToNode_def access_of_def KVClient_def KVClient_insert_def KVClient_update_def
      local_kv_def on_host_def Let_def split: RemoteOp.split)

text \<open>A request that is lost leaves the cluster as it is.\<close>

lemma node_write_lost:
  assumes "member_node d n" "n \<noteq> local_node_id d" "\<not> n <s 0" "fate F (calls w) (node_address P d n) = RequestLost"
  shows "node_write (access_of F P c a) d op n k v w = w\<lparr>calls := Suc (calls w)\<rparr>"
  using assms
  by (simp add: node_write_def writeToNode_def isLocalNode_def access_of_def KVClient_def KVClient_insert_def
      KVClient_update_def rpc_def node_address_def Let_def split_beta split: RemoteOp.split option.split)

lemma get_reaching:
  assumes "serving P c a d w" "ring_current vn d" "fate F (calls w) (node_address P d (primary_of d k)) = Delivered"
    and "visible (holds P d w (primary_of d k) k) = Some v"
  shows "fst (get (access_of F P c a) k d w) = v"
proof -
  note p = member_primary [OF assms(2), of k]
  have "fst (node_read (access_of F P c a) d (primary_of d k) k w) = Some v"
    unfolding node_read_reaching [OF p assms(3)] using nodes.rd_answer [OF assms(1) p, of "reaching F"] assms(4) by simp
  then show ?thesis
    unfolding get_value(1) [OF assms(2)]
    by (cases "node_read (access_of F P c a) d (primary_of d k) k w") (simp add: route_get_def)
qed

lemma serving_write: "serving P c a d w \<Longrightarrow> member_node d n \<Longrightarrow> serving P c a d (node_write (access_of F P c a) d op n k v w)"
  by (rule nodes.wr_inv)

text \<open>An update of which both accesses are delivered.\<close>

lemma update_delivered:
  assumes "serving P c a d w" "member_node d p" "member_node d b" "p \<noteq> b" "accepts (node_boost F) v"
    and "\<And>t x. calls w \<le> t \<Longrightarrow> fate F t x = Delivered" "holds P d w p k \<noteq> None" "holds P d w b k \<noteq> None"
    and "w' = node_write (access_of F P c a) d UPDATE b k v (node_write (access_of F P c a) d UPDATE p k v w)"
  shows "serving P c a d w'" "holds P d w' p k = Some (c_str v)" "holds P d w' b k = Some (c_str v)" "calls w \<le> calls w'"
proof -
  let ?w1 = "node_write (access_of F P c a) d UPDATE p k v w"
  have s: "serving P c a d ?w1" by (rule serving_write [OF assms(1,2)])
  then show "serving P c a d w'" unfolding assms(9) by (rule serving_write [OF _ assms(3)])
  have c: "calls w \<le> calls ?w1" by (rule calls_write)
  also have "calls ?w1 \<le> calls w'" unfolding assms(9) by (rule calls_write)
  finally show "calls w \<le> calls w'" .
  have r1: "?w1 = node_write (access_of (reaching F) P c a) d UPDATE p k v w"
    by (rule node_write_reaching [OF assms(2)]) (simp add: assms(6))
  have r2: "w' = node_write (access_of (reaching F) P c a) d UPDATE b k v ?w1"
    unfolding assms(9) by (rule node_write_reaching [OF assms(3)]) (simp add: assms(6) c)
  have fits: "accepts (node_boost (reaching F)) v" using assms(5) by simp
  have h: "holds P d ?w1 p k = Some (c_str v)" "holds P d ?w1 b k \<noteq> None"
    unfolding r1
    using nodes.wr_answer [OF assms(1,2) _ fits, where op = UPDATE and k = k]
      nodes.wr_frame [OF assms(1,2,3), where F = "reaching F" and op = UPDATE and k = k and k' = k and v = v] assms(4,7,8) by auto
  show "holds P d w' p k = Some (c_str v)" "holds P d w' b k = Some (c_str v)"
    unfolding r2
    using nodes.wr_answer [OF s assms(3) _ fits, where op = UPDATE and k = k]
      nodes.wr_frame [OF s assms(3,2), where F = "reaching F" and op = UPDATE and k = k and k' = k and v = v] assms(4) h by auto
qed

subsection \<open>The late update\<close>

lemma same_dist: "cl_dist c = d \<Longrightarrow> c\<lparr>cl_task := t, cl_dist := d\<rparr> = c\<lparr>cl_task := t\<rparr>"
  by (cases c) simp

text \<open>The run up to the end of the second update.\<close>

lemma late_run:
  assumes "clients S i = c" "finished (cl_task c)" "cl_dist c = d" "ring_current vn d" "buddy_of d k \<noteq> primary_of d k"
    and "primary_of d k \<noteq> local_node_id d" "\<not> primary_of d k <s 0"
    and "x = node_address P d (primary_of d k)" "fate F (calls (servers S)) x = RequestLost"
    and "A = client_access F P c" "w0 = (servers S)\<lparr>calls := Suc (calls (servers S))\<rparr>"
    and "w1 = node_write A d UPDATE (buddy_of d k) k v1 w0"
    and "w2 = node_write A d UPDATE (buddy_of d k) k v2 (node_write A d UPDATE (primary_of d k) k v2 w1)"
  shows "\<exists>S'. cluster_run F P S S' \<and> clients S' = (clients S)(i := c\<lparr>cl_task := Idle\<rparr>) \<and> servers S' = w2
     \<and> (x, UpdateCmd k v1) \<in># late S'"
proof -
  let ?p = "primary_of d k" and ?b = "buddy_of d k"
  have mem: "member_node d ?p" "member_node d ?b" using member_primary [OF assms(4)] member_buddy [OF assms(4)] by blast+
  have reps: "start_task (UpdateRequest k v1) d = Writing UPDATE k v1 [?p, ?b]" using assms(5) by (simp add: replicas_of_def Let_def)
  obtain S1 where S1: "cluster_step F P S S1" "clients S1 = (clients S)(i := c\<lparr>cl_task := Writing UPDATE k v1 [?p, ?b]\<rparr>)"
      "servers S1 = servers S"
    using begin_access [OF assms(1,2), of F P "UpdateRequest k v1"] assms(3) reps by auto
  have g: "given_up F P (c\<lparr>cl_task := Writing UPDATE k v1 [?p, ?b]\<rparr>) (servers S1) = {#(x, UpdateCmd k v1)#}"
    using assms(3,6-9) S1(3) by (simp add: given_up_def remote_request_def isLocalNode_def)
  have lost: "node_write A d UPDATE ?p k v1 (servers S) = w0"
    unfolding assms(10,11) client_access_def
    by (rule node_write_lost [OF mem(1) assms(6,7)]) (use assms(8,9) in simp)
  obtain S2 where S2: "cluster_step F P S1 S2" "clients S2 = (clients S)(i := c\<lparr>cl_task := Writing UPDATE k v1 [?b]\<rparr>)"
      "servers S2 = w0" "(x, UpdateCmd k v1) \<in># late S2"
    using write_access [of S1 i _ UPDATE k v1 ?p "[?b]" F P] S1 assms(3,10) mem(1) lost g by auto
  let ?c2 = "c\<lparr>cl_task := Writing UPDATE k v1 [?b]\<rparr>"
  have "task_steps (client_access F P ?c2) 2 (cl_task ?c2) (cl_dist ?c2) (servers S2) = (Idle, d, w1)" "clients S2 i = ?c2"
    using S2(2,3) assms(3,10,12) mem(2) by (simp_all add: numeral_2_eq_2 writeToNode_split)
  from access_run [OF this(2,1)] obtain S3 where S3: "cluster_run F P S2 S3"
      "clients S3 = (clients S2)(i := ?c2\<lparr>cl_task := Idle, cl_dist := d\<rparr>)" "servers S3 = w1" "late S2 \<subseteq># late S3" by blast
  let ?c3 = "c\<lparr>cl_task := Idle\<rparr>"
  have c3: "clients S3 i = ?c3" "clients S3 = (clients S)(i := ?c3)" using S3(2) S2(2) same_dist [OF assms(3)] by simp_all
  have "write_both A UPDATE k v2 d w1 = (d, w2)"
    using write_routed [OF ring_current_routes [OF assms(4)], of A UPDATE k v2 w1] assms(5,13) by (simp add: route_write_def Let_def)
  then have "run_task (client_access F P ?c3) (UpdateRequest k v2) (cl_dist ?c3) (servers S3) = (Idle, d, w2)"
    using S3(3) assms(3,10) by (simp add: run_task_update update_key_def)
  from request_run [OF c3(1) _ this] obtain S4 where S4: "cluster_run F P S3 S4"
      "clients S4 = (clients S3)(i := ?c3\<lparr>cl_task := Idle, cl_dist := d\<rparr>)" "servers S4 = w2" "late S3 \<subseteq># late S4" by auto
  have "cluster_run F P S S4"
    using S1(1) S2(1) S3(1) S4(1) by (meson converse_rtranclp_into_rtranclp rtranclp_trans)
  moreover have "(x, UpdateCmd k v1) \<in># late S4" using S2(4) S3(4) S4(4) mset_subset_eqD by metis
  moreover have "clients S4 = (clients S)(i := ?c3)" using S4(2) c3 same_dist [OF assms(3)] by simp
  ultimately show ?thesis using S4(3) by blast
qed

lemma late_arrival:
  assumes "serving P c a d w" "member_node d p" "member_node d b" "b \<noteq> p" "accepts (node_boost F) v"
    and "holds P d w p k \<noteq> None" "x = node_address P d p"
  obtains s w' where "server_kv w x = Some s" "w' = run_on x (node_boost F) s (UpdateCmd k v) w (calls w)"
    "serving P c a d w'" "holds P d w' p k = Some (c_str v)" "holds P d w' b k = holds P d w b k" "calls w' = calls w"
proof -
  obtain s where s: "server_kv w x = Some s" "attached s (hosts w x)" using servingE [OF assms(1,2)] assms(7) by metis
  define w' where "w' = run_on x (node_boost F) s (UpdateCmd k v) w (calls w)"
  have sx: "server_kv w (node_address P d p) = Some s" using s(1) assms(7) by simp
  have "contents s (hosts w x) k \<noteq> None" using assms(6) holds_at [OF sx] assms(7) by simp
  then have "contents s (snd (exec (node_boost F) s (UpdateCmd k v) (hosts w x))) k = Some (c_str v)"
    using exec_write_accepted [OF s(2) assms(5), of UPDATE k] by simp
  then have "holds P d w' p k = Some (c_str v)" unfolding w'_def assms(7) holds_run_self [OF sx] by simp
  moreover have "holds P d w' b k = holds P d w b k"
    unfolding w'_def assms(7) by (rule holds_run_frame [OF assms(1-3) sx]) (use assms(4) in simp)
  moreover have "serving P c a d w'" unfolding w'_def by (rule serving_run_on [OF assms(1) s])
  ultimately show ?thesis using that [OF s(1) w'_def] by (simp add: w'_def)
qed

text \<open>
  Claim C12: an update that has timed out can undo a newer one. A client updates a key; the request to
  the primary is not delivered in time and the call fails, as the client prints. It then updates the
  key again, and both replicas take the second value. When the first request arrives after all, reads
  return the first value again and the replicas differ, although no client asked for anything.
\<close>

theorem late_update_undoes:
  assumes "clients S i = c" "finished (cl_task c)" "cl_dist c = d" "ring_current vn d" "member_node d m" "m \<noteq> primary_of d k"
    and "primary_of d k \<noteq> local_node_id d" "serving P (cl_store c) (cl_host c) d (servers S)"
    and "x = node_address P d (primary_of d k)" "fate F (calls (servers S)) x = RequestLost"
    and "\<And>t y. calls (servers S) < t \<Longrightarrow> fate F t y = Delivered"
    and "accepts (node_boost F) v1" "accepts (node_boost F) v2" "\<not> isMissOrError (c_str v1)" "\<not> isMissOrError (c_str v2)"
    and "holds P d (servers S) (primary_of d k) k \<noteq> None" "holds P d (servers S) (buddy_of d k) k \<noteq> None"
  shows "\<exists>S1 S2. cluster_run F P S S1 \<and> cluster_step F P S1 S2
     \<and> clients S1 = (clients S)(i := c\<lparr>cl_task := Idle\<rparr>) \<and> clients S2 = clients S1 \<and> asked S2 = asked S1
     \<and> fst (get (client_access F P c) k d (servers S1)) = c_str v2
     \<and> fst (get (client_access F P c) k d (servers S2)) = c_str v1
     \<and> holds P d (servers S2) (buddy_of d k) k = Some (c_str v2)"
proof -
  let ?p = "primary_of d k" and ?b = "buddy_of d k" and ?A = "client_access F P c" and ?w = "servers S"
  have bp: "?b \<noteq> ?p" by (rule buddy_distinct [OF assms(4-6)])
  have mem: "member_node d ?p" "member_node d ?b" using member_primary [OF assms(4)] member_buddy [OF assms(4)] by blast+
  have neg: "\<not> ?p <s 0" using servingE [OF assms(8) mem(1)] by metis
  define w0 where "w0 = ?w\<lparr>calls := Suc (calls ?w)\<rparr>"
  define w1 where "w1 = node_write ?A d UPDATE ?b k v1 w0"
  define w2 where "w2 = node_write ?A d UPDATE ?b k v2 (node_write ?A d UPDATE ?p k v2 w1)"
  obtain S1 where S1: "cluster_run F P S S1" "clients S1 = (clients S)(i := c\<lparr>cl_task := Idle\<rparr>)" "servers S1 = w2"
      "(x, UpdateCmd k v1) \<in># late S1"
    using late_run [OF assms(1-4) bp assms(7) neg assms(9,10) refl w0_def w1_def w2_def] by blast
  note acc = client_access_def [of F P c]
  have s0: "serving P (cl_store c) (cl_host c) d w0" using assms(8) by (simp add: w0_def)
  have h0: "holds P d w0 ?p k \<noteq> None" "holds P d w0 ?b k \<noteq> None" using assms(16,17) by (simp_all add: w0_def)
  have s1: "serving P (cl_store c) (cl_host c) d w1" unfolding w1_def acc by (rule serving_write [OF s0 mem(2)])
  have h1: "holds P d w1 ?p k \<noteq> None" "holds P d w1 ?b k \<noteq> None"
    unfolding w1_def acc
    using nodes.wr_frame [OF s0 mem(2,1), where F = F and op = UPDATE and k = k and k' = k and v = v1] bp h0
      nodes.wr_any [OF s0 mem(2), where F = F and op = UPDATE and k = k and v = v1] by auto
  have c1: "calls ?w < calls w1" using calls_write [of w0 F P "cl_store c" "cl_host c" d UPDATE ?b k v1] by (simp add: w1_def acc w0_def)
  have reach: "fate F t y = Delivered" if "calls w1 \<le> t" for t y using assms(11) c1 that by (meson less_le_trans)
  note u = update_delivered [OF s1 mem bp [symmetric] assms(13) reach h1 w2_def [unfolded acc]]
  have present: "holds P d w2 ?p k \<noteq> None" using u(2) by simp
  obtain s w3 where s: "server_kv w2 x = Some s" "w3 = run_on x (node_boost F) s (UpdateCmd k v1) w2 (calls w2)"
      and s3: "serving P (cl_store c) (cl_host c) d w3"
      and h3: "holds P d w3 ?p k = Some (c_str v1)" "holds P d w3 ?b k = holds P d w2 ?b k" and c3: "calls w3 = calls w2"
    by (rule late_arrival [OF u(1) mem bp assms(12) present assms(9)])
  let ?S2 = "S1\<lparr>servers := w3, late := late S1 - {#(x, UpdateCmd k v1)#}\<rparr>"
  have step: "cluster_step F P S1 ?S2" using arrive_late [OF S1(4), of s F P] S1(3) s by (simp del: run_on_calls)
  have f: "fate F (calls w2) y = Delivered" "fate F (calls w3) y = Delivered" for y
    using reach u(4) c3 by simp_all
  have "fst (get ?A k d w2) = c_str v2" "fst (get ?A k d w3) = c_str v1"
    unfolding acc using get_reaching [OF u(1) assms(4) f(1)] get_reaching [OF s3 assms(4) f(2)] u(2) h3(1) assms(14,15)
    by (simp_all add: visible_value)
  with S1 step h3(2) u(3) show ?thesis by (intro exI [of _ S1] exI [of _ ?S2]) simp
qed

definition slow_fabric :: fabric where
  "slow_fabric = (demo_fabric [])\<lparr>fate := (\<lambda>t x. if t = 0 then RequestLost else Delivered)\<rparr>"

theorem late_update_undoes_witness:
  "\<exists>S1 S2. cluster_run slow_fabric ''p'' (demo_system (world3 [] [(5, ''u'')] [(5, ''u'')])) S1 \<and> cluster_step slow_fabric ''p'' S1 S2
     \<and> fst (get (access_of slow_fabric ''p'' demo_server ''q'') 5 demo3 (servers S1)) = ''b''
     \<and> fst (get (access_of slow_fabric ''p'' demo_server ''q'') 5 demo3 (servers S2)) = ''a''"
proof -
  let ?S = "demo_system (world3 [] [(5, ''u'')] [(5, ''u'')])"
  have c: "finished (cl_task (clients ?S 0))" "cl_dist (clients ?S 0) = demo3" "cl_store (clients ?S 0) = demo_server"
    "cl_host (clients ?S 0) = ''q''" by (simp_all add: demo_system_def)
  have s: "serving ''p'' (cl_store (clients ?S 0)) (cl_host (clients ?S 0)) demo3 (servers ?S)"
    by (simp add: demo_system_def demo3_serving wf_map_def)
  have ring: "ring_current 2 demo3" by (rule demo_ring) simp
  have h: "holds ''p'' demo3 (servers ?S) 2 5 = Some ''u''" "holds ''p'' demo3 (servers ?S) 1 5 = Some ''u''"
    by (simp_all add: demo_system_def demo3_holds c_str_def)
  have z: "calls (servers ?S) = 0" by (simp add: demo_system_def world3_def demo_world_def)
  have b: "node_boost slow_fabric = roomy" "fate slow_fabric 0 x = RequestLost" "0 < t \<Longrightarrow> fate slow_fabric t x = Delivered" for t x
    by (simp_all add: slow_fabric_def)
  from late_update_undoes [OF refl c(1,2) ring, of 0 5 "''p''" _ slow_fabric "''a''" "''b''", OF _ _ _ s refl] c h z b
  show ?thesis
    by (auto simp: demo3_member demo3_routes client_access_def accepts_roomy isMissOrError_def starts_with_def c_str_def)
qed

end
