(* ===== verification/Timer.thy ===== *)
theory Timer
  imports Complex_Main Decimal
begin

text \<open>
  \<^verbatim>\<open>src/Timer.cpp\<close>: a stopwatch. A time point is the number of ticks of the clock, which is read by the
  caller; the ticks per millisecond, the rounding of a \<^verbatim>\<open>double\<close> and the default format of the standard
  output belong to the platform and are parameters.
\<close>

record stopwatch =
  start_time :: int
  end_time :: int

record time_format =
  ticks_per_ms :: int
  time_double :: "rat \<Rightarrow> rat"
  time_text :: "rat \<Rightarrow> string"

text \<open>Both time points are the epoch before the first use.\<close>

definition new_timer :: stopwatch where
  "new_timer = \<lparr>start_time = 0, end_time = 0\<rparr>"

definition start_timer :: "int \<Rightarrow> stopwatch \<Rightarrow> stopwatch" where
  "start_timer now t = t\<lparr>start_time := now\<rparr>"

definition stop_timer :: "int \<Rightarrow> stopwatch \<Rightarrow> stopwatch" where
  "stop_timer now t = t\<lparr>end_time := now\<rparr>"

definition elapsed_ms :: "time_format \<Rightarrow> stopwatch \<Rightarrow> rat" where
  "elapsed_ms P t = time_double P (time_double P (of_int (end_time t - start_time t)) / of_int (ticks_per_ms P))"

definition print_timer :: "time_format \<Rightarrow> string \<Rightarrow> stopwatch \<Rightarrow> string" where
  "print_timer P label t = ''['' @ label @ ''] completed in '' @ time_text P (elapsed_ms P t) @ '' ms''"

lemma elapsed_between: "elapsed_ms P (stop_timer t1 (start_timer t0 t)) =
    time_double P (time_double P (of_int (t1 - t0)) / of_int (ticks_per_ms P))"
  by (simp add: elapsed_ms_def stop_timer_def start_timer_def)

text \<open>A clock that does not run backwards measures no negative time, and a longer wait no less.\<close>

lemma elapsed_mono:
  assumes "mono (time_double P)" "0 < ticks_per_ms P" "t1 \<le> t2"
  shows "elapsed_ms P (stop_timer t1 (start_timer t0 t)) \<le> elapsed_ms P (stop_timer t2 (start_timer t0 t))"
proof -
  have "time_double P (of_int (t1 - t0)) \<le> time_double P (of_int (t2 - t0))"
    using assms(3) by (intro monoD [OF assms(1)]) simp
  then have "time_double P (of_int (t1 - t0)) / of_int (ticks_per_ms P) \<le> time_double P (of_int (t2 - t0)) / of_int (ticks_per_ms P)"
    using assms(2) by (simp add: divide_right_mono)
  then show ?thesis unfolding elapsed_between by (rule monoD [OF assms(1)])
qed

end
