(* ===== verification/KvClientCalls.thy ===== *)
theory KvClientCalls
  imports Rpc Timer
begin

text \<open>
  The calls of \<^verbatim>\<open>src/KVClient.cpp\<close> with what they print, for any timeout. The rest of the development
  uses the client the program builds, whose timeout is two seconds (\<open>KVClient\<close> of the theory \<open>Rpc\<close>);
  with that timeout the calls return and are those. The default of the constructor is no timeout: then
  a call that the transport does not see fail never returns.
\<close>

text \<open>
  The members of the client, whether the transport notices the failure of an untimed call, and the
  readings of the clock before and after a call.
\<close>

record call_env =
  call_protocol :: string
  rpc_timeout_ms :: u64
  noticed :: "nat \<Rightarrow> address \<Rightarrow> bool"
  call_clock :: "nat \<Rightarrow> int \<times> int"
  call_format :: time_format

text \<open>The timeout the distributor builds its client with.\<close>

definition distributor_timeout :: u64 where
  "distributor_timeout = 2000"

text \<open>\<open>None\<close> is a call that waits for ever.\<close>

definition call_server ::
  "call_env \<Rightarrow> fabric \<Rightarrow> endpoint \<Rightarrow> (kv_store \<Rightarrow> os \<Rightarrow> 'a \<times> os) \<Rightarrow> cluster \<Rightarrow> ((exn + 'a) \<times> cluster) option" where
  "call_server C F ep handler w =
     (let a = full_endpoint (call_protocol C) ep; (r, w') = rpc F a handler w in
      if 0 < rpc_timeout_ms C then Some (r, w')
      else case r of
          Inl e \<Rightarrow> (if noticed C (calls w) a then Some (r, w') else None)
        | Inr x \<Rightarrow> Some (r, w'))"

definition timer_line :: "call_env \<Rightarrow> string \<Rightarrow> cluster \<Rightarrow> string" where
  "timer_line C label w =
     (let (t0, t1) = call_clock C (calls w)
      in print_timer (call_format C) label (stop_timer t1 (start_timer t0 new_timer)))"

text \<open>The result, the lines on the two output streams, and the cluster.\<close>

definition fetch_call :: "call_env \<Rightarrow> fabric \<Rightarrow> key \<Rightarrow> endpoint \<Rightarrow> cluster \<Rightarrow> ((exn + string) \<times> string list \<times> cluster) option" where
  "fetch_call C F key ep w =
     (case call_server C F ep (\<lambda>s. kv_fetch (node_boost F) s key) w of
        None \<Rightarrow> None
      | Some (Inl e, w') \<Rightarrow>
          Some (Inl e, [''Key not found locally. Fetching from server.'', ''Fetch operation failed: '' @ what e], w')
      | Some (Inr v, w') \<Rightarrow>
          Some (Inr v, [''Key not found locally. Fetching from server.'', ''Key Found on the Server.'',
                        to_string key @ ''->'' @ v, timer_line C ''Fetch'' w], w'))"

definition insert_call :: "call_env \<Rightarrow> fabric \<Rightarrow> key \<Rightarrow> string \<Rightarrow> endpoint \<Rightarrow> cluster \<Rightarrow> (string list \<times> cluster) option" where
  "insert_call C F key v ep w =
     (case call_server C F ep (\<lambda>s. kv_insert (node_boost F) s key v) w of
        None \<Rightarrow> None
      | Some (Inl e, w') \<Rightarrow> Some ([''Insert operation failed: '' @ what e], w')
      | Some (Inr _, w') \<Rightarrow>
          Some ([''Inserted on the server successfully: '' @ to_string key @ '' -> '' @ v, timer_line C ''Insert'' w], w'))"

definition update_call :: "call_env \<Rightarrow> fabric \<Rightarrow> key \<Rightarrow> string \<Rightarrow> endpoint \<Rightarrow> cluster \<Rightarrow> (string list \<times> cluster) option" where
  "update_call C F key v ep w =
     (case call_server C F ep (\<lambda>s. kv_update (node_boost F) s key v) w of
        None \<Rightarrow> None
      | Some (Inl e, w') \<Rightarrow> Some ([''Update operation failed: '' @ what e], w')
      | Some (Inr _, w') \<Rightarrow>
          Some ([''Updated successfully: '' @ to_string key @ '' -> '' @ v, timer_line C ''Update'' w], w'))"

definition delete_call :: "call_env \<Rightarrow> fabric \<Rightarrow> key \<Rightarrow> endpoint \<Rightarrow> cluster \<Rightarrow> (string list \<times> cluster) option" where
  "delete_call C F key ep w =
     (case call_server C F ep (\<lambda>s. kv_delete (node_boost F) s key) w of
        None \<Rightarrow> None
      | Some (Inl e, w') \<Rightarrow> Some ([''Delete operation failed: '' @ what e], w')
      | Some (Inr _, w') \<Rightarrow> Some ([''Deleted successfully: '' @ to_string key, timer_line C ''Delete'' w], w'))"

definition membership_call :: "call_env \<Rightarrow> fabric \<Rightarrow> endpoint \<Rightarrow> cluster \<Rightarrow> (MemberRecord list \<times> string list \<times> cluster) option" where
  "membership_call C F ep w =
     (let a = full_endpoint (call_protocol C) ep in
      case call_server C F ep (\<lambda>s \<sigma>. (get_membership (memberships w a), \<sigma>)) w of
        None \<Rightarrow> None
      | Some (Inl e, w') \<Rightarrow> Some ([], [''getMembership failed: '' @ what e], w')
      | Some (Inr view, w') \<Rightarrow> Some (view, [], w'))"

subsection \<open>With a timeout\<close>

lemma call_server_timed: "0 < rpc_timeout_ms C \<Longrightarrow> call_server C F ep h w = Some (rpc F (full_endpoint (call_protocol C) ep) h w)"
  by (simp add: call_server_def split_beta Let_def)

lemma timed_calls_return:
  assumes "0 < rpc_timeout_ms C"
  shows "map_option (\<lambda>(r, lines, w). (r, w)) (fetch_call C F key ep w) = Some (KVClient_fetch F (call_protocol C) key ep w)"
    and "map_option (\<lambda>(lines, w). (None, w)) (insert_call C F key v ep w) = Some (KVClient_insert F (call_protocol C) key v ep w)"
    and "map_option (\<lambda>(lines, w). (None, w)) (update_call C F key v ep w) = Some (KVClient_update F (call_protocol C) key v ep w)"
    and "map_option (\<lambda>(lines, w). (None, w)) (delete_call C F key ep w) = Some (KVClient_deleteKey F (call_protocol C) key ep w)"
    and "map_option (\<lambda>(view, lines, w). (Inr view, w)) (membership_call C F ep w) = Some (KVClient_getMembership F (call_protocol C) ep w)"
  by (simp_all add: call_server_timed [OF assms] fetch_call_def insert_call_def update_call_def delete_call_def
      membership_call_def KVClient_fetch_def KVClient_insert_def KVClient_update_def KVClient_deleteKey_def
      KVClient_getMembership_def Let_def split_beta prod_eq_iff split: sum.split option.split)

lemma distributor_timeout_positive: "0 < distributor_timeout"
  by (simp add: distributor_timeout_def)

subsection \<open>Without one\<close>

lemma rpc_succeeds:
  "(\<exists>x w'. rpc F a h w = (Inr x, w')) \<longleftrightarrow> server_kv w a \<noteq> None \<and> fate F (calls w) a = Delivered"
  by (auto simp: rpc_def Let_def split_beta split: option.split outcome.split)

text \<open>
  Without a timeout a call hangs exactly when nobody answers it, no server, or a message lost, and
  the transport does not notice.
\<close>

lemma untimed_call_hangs:
  assumes "rpc_timeout_ms C = 0" "a = full_endpoint (call_protocol C) ep"
  shows "call_server C F ep h w = None \<longleftrightarrow>
     (server_kv w a = None \<or> fate F (calls w) a \<noteq> Delivered) \<and> \<not> noticed C (calls w) a"
proof -
  obtain r w' where r: "rpc F a h w = (r, w')" by (metis surj_pair)
  with rpc_succeeds [of F a h w] assms show ?thesis
    by (cases r) (auto simp: call_server_def Let_def)
qed

text \<open>The client reports a success whenever an answer arrives, whether the store accepted the value or not.\<close>

lemma success_reported:
  assumes "0 < rpc_timeout_ms C" "a = full_endpoint (call_protocol C) ep"
    and "server_kv w a = Some s" "fate F (calls w) a = Delivered"
  shows "\<exists>w'. insert_call C F key v ep w =
      Some ([''Inserted on the server successfully: '' @ to_string key @ '' -> '' @ v, timer_line C ''Insert'' w], w')"
    and "\<exists>w'. update_call C F key v ep w =
      Some ([''Updated successfully: '' @ to_string key @ '' -> '' @ v, timer_line C ''Update'' w], w')"
    and "\<exists>w'. delete_call C F key ep w = Some ([''Deleted successfully: '' @ to_string key, timer_line C ''Delete'' w], w')"
  using assms(3,4) unfolding insert_call_def update_call_def delete_call_def call_server_timed [OF assms(1)] assms(2)
  by (simp_all add: rpc_def Let_def split_beta)

end
