(* ===== verification/Spec2Isabelle.thy ===== *)
theory Spec2Isabelle
  imports KeyRanges HashGuarantees KvClaims GossipSpread DistributorState ReplicaLimits ServerSetup ServerShutdown
    ClientSession ClusterLate KvClientCalls
begin

text \<open>
  A distributed key-value store in C++: servers that hold the pairs in shared memory or in mapped
  files and learn of each other by gossip, and clients that send every key to two servers, chosen on
  a consistent-hash ring. This development models the program under \<^verbatim>\<open>src/src\<close> and \<^verbatim>\<open>src/include\<close> and
  proves what makes it work, and where it does not.

  \<^bold>\<open>How the parts interact.\<close> A client process (\<^verbatim>\<open>main_client.cpp\<close>) parses a line and calls the
  distributor (\<^verbatim>\<open>KVDistributor.cpp\<close>), which asks its ring (\<^verbatim>\<open>ConsistentHashRing.cpp\<close>, over
  \<^verbatim>\<open>MurmurHash3.cpp\<close>) for the primary and the buddy of the key and reads or writes both, through the
  RPC client (\<^verbatim>\<open>KVClient.cpp\<close>) and the handlers of the server (\<^verbatim>\<open>KVServer.cpp\<close>) or, for the local node,
  directly on a store (\<^verbatim>\<open>KVStore.cpp\<close>). A server process (\<^verbatim>\<open>main_server.cpp\<close>) owns a store and a
  member table (\<^verbatim>\<open>GossipMembership.cpp\<close>), whose change callback rebuilds the server's ring; the
  client's background thread takes the member table of a server over into its own ring.

  \<^bold>\<open>Theories.\<close>

    \<^item> \<open>Prelude\<close> (integer types, \<^verbatim>\<open>unordered_map\<close> as an association list, exceptions as a sum) and
      \<open>Decimal\<close> (\<^verbatim>\<open>to_string\<close>, \<^verbatim>\<open>stoi\<close>, \<^verbatim>\<open>>>\<close>): the C++ standard library as far as it is used.
    \<^item> \<open>Murmur\<close>, with the lemmas in \<open>MurmurProps\<close> and the properties in \<open>HashGuarantees\<close>: the three
      hash functions on words of their width.
    \<^item> \<open>HashRing\<close>, \<open>HashRingProps\<close>, \<open>RingGuarantees\<close>, \<open>KeyRanges\<close>: the ring, its lookups as a clockwise
      walk, what joins and crashes change, and the two listings of key ranges.
    \<^item> \<open>KvStore\<close> and \<open>KvLifecycle\<close> (operations; constructor, recovery, destructor), \<open>StoreContract\<close> (the
      abstract map machine and the locale \<open>key_value_store\<close>), \<open>KvGuarantees\<close> (its interpretation on the
      model), \<open>KvLife\<close> and \<open>KvClaims\<close>.
    \<^item> \<open>Gossip\<close>, \<open>GossipMerge\<close> (the locale of a merge loop, interpreted on both loops of the code),
      \<open>GossipClaims\<close>, \<open>GossipLife\<close>, and \<open>GossipNetwork\<close>, a cluster of members as a step relation with
      messages lost, delayed and overtaken; \<open>GossipLives\<close> adds the contact with the seeds, stops and
      restarts, \<open>GossipSpread\<close> follows what a node knows along chains of messages.
    \<^item> \<open>Rpc\<close> (handlers, client, transport), \<open>Distributor\<close>, \<open>ReplicaContract\<close> (the locale of a group of
      nodes, some of which answer, with the analysis of reads, writes and deletions on two of them),
      \<open>ClusterStore\<close> (its interpretation on the model's servers), \<open>DistributorClaims\<close>,
      \<open>DistributorState\<close> (the invariant of the distributor, membership refresh) and \<open>ReplicaLimits\<close>.
    \<^item> \<open>KvClientCalls\<close> and \<open>Timer\<close>: the calls of the RPC client with what they print, with and without a
      timeout, and the stopwatch. With a timeout they are the client of \<open>Rpc\<close>.
    \<^item> \<open>Config\<close>, \<open>ServerMain\<close>, \<open>ClientMain\<close> with \<open>Benchmark\<close>: the configuration and the two processes, with their
      properties in \<open>ServerClaims\<close>, \<open>ServerSetup\<close>, \<open>ServerShutdown\<close>, \<open>ClientClaims\<close>, \<open>ClientStart\<close>.
    \<^item> \<open>ClusterRefinement\<close> (the cluster as one map, for one client) and \<open>ClientSession\<close> (the same from the typed
      lines to the printed ones, through the whole client process).
    \<^item> \<open>Tasks\<close> cuts the operations of the distributor into accesses to single nodes; \<open>ClusterRuns\<close> lets the
      accesses of many clients, late requests, refreshes, gossip, crashes, starts and exits happen in any
      order; \<open>HostContents\<close> says what every operation on a host keeps of its contents. \<open>ClusterAnomalies\<close> and
      \<open>ClusterLate\<close> have what holds of all these runs and what goes wrong in some.
    \<^item> \<open>DemoCluster\<close> and \<open>DemoConfig\<close> hold concrete clusters and configurations for the witnesses.

  \<^bold>\<open>State and operations.\<close> A class is a record of its members and a method a function that returns the
  new state; the mutex of an object makes each method one step. An exception is the left side of a
  sum, undefined behaviour the value \<open>None\<close>. Integers have their width. The iteration order of an
  \<^verbatim>\<open>unordered_map\<close>, which C++ leaves open, is the order of a list; the properties hold for every order.

  \<^bold>\<open>Parameters.\<close> What the repository does not contain is an argument of the definitions: Boost.Interprocess
  (\<open>boost\<close>: sizes, errors and refused flushes), the transport Thallium (\<open>fabric\<close>: which calls and responses arrive), the
  JSON library (\<open>json_library\<close>), clocks, random numbers, the rounding of \<^verbatim>\<open>double\<close> (\<open>platform\<close>) and the
  input lines. Where a property needs more of them than their type it has a named hypothesis
  (\<open>reliable\<close>: no error is raised; \<open>flush_works\<close>: no request to write back is refused; \<open>answers\<close>: the calls to a node arrive; \<open>exact_integers\<close>: integers up
  to \<open>2 ^ 53\<close> are exact) and a witness where it holds.

  \<^bold>\<open>What is shown.\<close> The ring: primary and buddy are the nearest owners clockwise, a crash makes the buddy
  the primary, joins and departures move no other keys, and it is determined exactly where the listed
  ranges differ from the lookups. The store refines an abstract map, its memory test is exact, a crash
  of the machine leaves the persistent entries that had been written back, a clean shutdown none.
  Gossip: merging is a join, so order and repetition of messages do not matter, knowledge is monotone
  and travels along every chain of messages, nobody knows of a heartbeat that did not happen, and gossip
  alone never undoes a partition. End to end: an inserted value survives the failure of any one node,
  reads see updates and deletions, a join migrates lazily, a refreshed client follows its server, a
  server's ring is the one its membership reported last and loses a crashed node for good. While every
  node can be reached and the membership is settled, one client sees a map of its plain values, from its
  typed lines to its printed ones; whatever happens, no read returns a value that nobody stored under
  the key. The limits of this design are theorems as well: stale reads, deleted keys that return, the
  second crash, replicas that concurrent updates leave different, a late request that undoes a newer
  one, the answer of a seed that leaves a dead node in the ring, a refused flush that nobody notices.

  \<^bold>\<open>Files.\<close> \<^verbatim>\<open>flush()\<close> of a mapped file is asynchronous and its result is not read: \<open>flush\<close> only records
  a request, which can be refused, and the disk changes when the operating system writes images back
  (\<open>write_back\<close>, at any time, of any file; in the runs of a cluster also in part). A crash of the machine
  leaves the images on disk. An image of which only some pages are written has, in the model, entries of
  the old and the new image; that such an image may not open at all is not looked at, and the entries of
  the directory are taken as written when they are made. The write of the generation file can fail in
  three ways (\<open>file_write\<close>).

  \<^bold>\<open>Start and stop of a server.\<close> The callback and the RPC handlers are registered before
  \<^verbatim>\<open>membership.start()\<close>, which calls the seeds with the lock free. So \<open>boot_server\<close> ends where \<^verbatim>\<open>start\<close>
  begins, and the answers of the seeds, like the retirement in \<^verbatim>\<open>stop\<close>, are events among the others;
  \<open>start\<close> is their undisturbed sequence (\<open>start_is_seed_answers\<close>).

  \<^bold>\<open>Loops.\<close> The loops over blocks, tokens, records and endpoints run over lists or a count that is the
  number of their iterations; the buddy search and the word splitting have a measure. The client's
  loop may run for ever and is a \<open>partial_function\<close>; \<open>session_end\<close> says exactly when it returns.

  \<^bold>\<open>Not modelled.\<close> Log lines, banners, prompts and the statistics a store prints, the creation and joining
  of threads, and the sleeps. An operation of a store holds its mutex, so an access is one step; a
  gossip iteration is its two critical sections. The steps of the client's membership thread (read the
  endpoints, ask a server, take its answer over) fall anywhere between the commands, and the first and
  the last of them cannot do otherwise, as they hold the lock of the distributor; a query that runs
  during a command is taken before or after it, since it changes nothing but the number of calls made. A request whose call has timed
  out may be carried out later or never, once; what Thallium does inside a call is not looked at. Tests,
  scripts and build files are left aside.
\<close>

end
